(* ===== verification/LL_Prelude.thy ===== *)
theory LL_Prelude
  imports Main "HOL-Library.AList"
begin

text \<open>
  Shared vocabulary of the development: the collections of rewrite rules, the state and
  exception monad in which the asynchronous services are written (an \<open>await\<close> that rejects is
  an \<open>Inl\<close>, and the state reached so far is kept), a Hoare-style triple for it with one rule per
  combinator, the insertion-ordered \<open>Map\<close> of JavaScript, and a few facts on lists.
\<close>

named_theorems sem_simps \<open>evaluation rules of the state and exception monad\<close>
named_theorems js_simps \<open>evaluation rules of the JavaScript number model\<close>
named_theorems sem_rules \<open>triples of the monad's combinators\<close>

section \<open>Stateful computations that may throw\<close>

type_synonym ('s, 'e, 'a) sem = "'s \<Rightarrow> ('e + 'a) \<times> 's"

definition returnM :: "'a \<Rightarrow> ('s, 'e, 'a) sem" where
  "returnM x = (\<lambda>s. (Inr x, s))"

definition throwM :: "'e \<Rightarrow> ('s, 'e, 'a) sem" where
  "throwM e = (\<lambda>s. (Inl e, s))"

definition bindM :: "('s, 'e, 'a) sem \<Rightarrow> ('a \<Rightarrow> ('s, 'e, 'b) sem) \<Rightarrow> ('s, 'e, 'b) sem" where
  "bindM m k = (\<lambda>s. case m s of (Inl e, s') \<Rightarrow> (Inl e, s') | (Inr x, s') \<Rightarrow> k x s')"

text \<open>\<open>try m catch (err) h\<close>: the handler runs on the state the failing body left.\<close>

definition catchM :: "('s, 'e, 'a) sem \<Rightarrow> ('e \<Rightarrow> ('s, 'f, 'a) sem) \<Rightarrow> ('s, 'f, 'a) sem" where
  "catchM m h = (\<lambda>s. case m s of (Inl e, s') \<Rightarrow> h e s' | (Inr x, s') \<Rightarrow> (Inr x, s'))"

fun forM :: "'x list \<Rightarrow> ('x \<Rightarrow> ('s, 'e, unit) sem) \<Rightarrow> ('s, 'e, unit) sem" where
  "forM [] f = returnM ()"
| "forM (x # xs) f = bindM (f x) (\<lambda>_. forM xs f)"

lemma returnM_app [simp, sem_simps]: "returnM x s = (Inr x, s)"
  by (simp add: returnM_def)

lemma throwM_app [simp, sem_simps]: "throwM e s = (Inl e, s)"
  by (simp add: throwM_def)

lemma bindM_app [sem_simps]:
  "bindM m k s = (case m s of (Inl e, s') \<Rightarrow> (Inl e, s') | (Inr x, s') \<Rightarrow> k x s')"
  by (simp add: bindM_def)

lemma catchM_app [sem_simps]:
  "catchM m h s = (case m s of (Inl e, s') \<Rightarrow> h e s' | (Inr x, s') \<Rightarrow> (Inr x, s'))"
  by (simp add: catchM_def)

lemma bindM_returnM [simp]: "bindM (returnM x) k = k x"
  by (rule ext) (simp add: bindM_def)

lemma bindM_throwM [simp]: "bindM (throwM e) k = throwM e"
  by (rule ext) (simp add: bindM_def)

lemma bindM_assoc: "bindM (bindM m f) g = bindM m (\<lambda>x. bindM (f x) g)"
  by (rule ext) (simp add: bindM_def split: prod.split sum.split)

lemma bindM_Inr_E:
  assumes "bindM m k s = (Inr y, t)"
  obtains x u where "m s = (Inr x, u)" and "k x u = (Inr y, t)"
  using assms by (auto simp: bindM_def split: prod.splits sum.splits)

lemma bindM_Inl_E:
  assumes "bindM m k s = (Inl e, t)"
  obtains (head) "m s = (Inl e, t)"
    | (rest) x u where "m s = (Inr x, u)" and "k x u = (Inl e, t)"
  using assms by (auto simp: bindM_def split: prod.splits sum.splits)

text \<open>From an evaluated run to its value.\<close>

lemma run_InrE:
  assumes "case fst m of Inr x \<Rightarrow> P x | Inl e \<Rightarrow> False"
  obtains x t where "m = (Inr x, t)" and "P x"
  using assms by (cases m) (auto split: sum.splits)

subsection \<open>Triples\<close>

text \<open>
  \<open>triple P m Q E\<close>: from a state with \<open>P\<close> the computation either returns a value and a state
  with \<open>Q\<close> or throws an exception in a state with \<open>E\<close>. Computations are total functions, so
  the triple speaks about every run.
\<close>

definition triple ::
  "('s \<Rightarrow> bool) \<Rightarrow> ('s, 'e, 'a) sem \<Rightarrow> ('a \<Rightarrow> 's \<Rightarrow> bool) \<Rightarrow> ('e \<Rightarrow> 's \<Rightarrow> bool) \<Rightarrow> bool" where
  "triple P m Q E \<longleftrightarrow> (\<forall>s. P s \<longrightarrow> (case m s of (Inl e, s') \<Rightarrow> E e s' | (Inr x, s') \<Rightarrow> Q x s'))"

lemma tripleI:
  assumes "\<And>s x s'. P s \<Longrightarrow> m s = (Inr x, s') \<Longrightarrow> Q x s'"
    and "\<And>s e s'. P s \<Longrightarrow> m s = (Inl e, s') \<Longrightarrow> E e s'"
  shows "triple P m Q E"
  using assms by (auto simp: triple_def split: prod.splits sum.splits)

lemma triple_Inr: "triple P m Q E \<Longrightarrow> P s \<Longrightarrow> m s = (Inr x, s') \<Longrightarrow> Q x s'"
  by (auto simp: triple_def dest!: spec[of _ s])

lemma triple_Inl: "triple P m Q E \<Longrightarrow> P s \<Longrightarrow> m s = (Inl e, s') \<Longrightarrow> E e s'"
  by (auto simp: triple_def dest!: spec[of _ s])

lemma triple_returnM [sem_rules]: "(\<And>s. P s \<Longrightarrow> Q x s) \<Longrightarrow> triple P (returnM x) Q E"
  by (simp add: triple_def)

lemma triple_throwM [sem_rules]: "(\<And>s. P s \<Longrightarrow> E e s) \<Longrightarrow> triple P (throwM e) Q E"
  by (simp add: triple_def)

lemma triple_bindM [sem_rules]:
  assumes "triple P m R E" and "\<And>x. triple (R x) (k x) Q E"
  shows "triple P (bindM m k) Q E"
  using assms by (fastforce simp: triple_def bindM_def split: prod.splits sum.splits)

lemma triple_catchM [sem_rules]:
  assumes "triple P m Q F" and "\<And>e. triple (F e) (h e) Q E"
  shows "triple P (catchM m h) Q E"
  using assms by (fastforce simp: triple_def catchM_def split: prod.splits sum.splits)

lemma triple_conseq:
  assumes "triple P' m Q' E'" and "\<And>s. P s \<Longrightarrow> P' s"
    and "\<And>x s. Q' x s \<Longrightarrow> Q x s" and "\<And>e s. E' e s \<Longrightarrow> E e s"
  shows "triple P m Q E"
  using assms by (fastforce simp: triple_def split: prod.splits sum.splits)

lemma triple_forM:
  assumes "\<And>x. x \<in> set xs \<Longrightarrow> triple I (f x) (\<lambda>_. I) E"
  shows "triple I (forM xs f) (\<lambda>_. I) E"
  using assms by (induction xs) (auto intro!: triple_returnM triple_bindM)

section \<open>Insertion-ordered maps\<close>

text \<open>
  A JavaScript \<open>Map\<close> iterates in insertion order; setting a present key keeps its place. That is
  an association list with distinct keys, read by \<open>map_of\<close> and written by \<open>AList.update\<close> and
  \<open>AList.delete\<close>.
\<close>

type_synonym ('k, 'v) js_map = "('k \<times> 'v) list"

definition wf_map :: "('k, 'v) js_map \<Rightarrow> bool" where
  "wf_map m \<longleftrightarrow> distinct (map fst m)"

abbreviation map_get :: "('k, 'v) js_map \<Rightarrow> 'k \<Rightarrow> 'v option" where
  "map_get m k \<equiv> map_of m k"

abbreviation map_set :: "('k, 'v) js_map \<Rightarrow> 'k \<Rightarrow> 'v \<Rightarrow> ('k, 'v) js_map" where
  "map_set m k v \<equiv> AList.update k v m"

abbreviation map_delete :: "('k, 'v) js_map \<Rightarrow> 'k \<Rightarrow> ('k, 'v) js_map" where
  "map_delete m k \<equiv> AList.delete k m"

lemma wf_map_Nil [simp]: "wf_map []"
  by (simp add: wf_map_def)

lemma wf_map_set [simp, intro]: "wf_map m \<Longrightarrow> wf_map (map_set m k v)"
  by (simp add: wf_map_def distinct_update)

lemma wf_map_delete [simp, intro]: "wf_map m \<Longrightarrow> wf_map (map_delete m k)"
  by (simp add: wf_map_def distinct_delete)

lemma map_get_set [simp]: "map_get (map_set m k v) k' = (if k' = k then Some v else map_get m k')"
  by (simp add: update_conv')

lemma map_get_delete [simp]: "map_get (map_delete m k) k' = (if k' = k then None else map_get m k')"
  by (simp add: delete_conv')

lemma length_map_set:
  "length (map_set m k v) = (if map_get m k = None then Suc (length m) else length m)"
  by (induction m) auto

lemma length_map_delete:
  "wf_map m \<Longrightarrow> length (map_delete m k) = (if map_get m k = None then length m else length m - 1)"
proof -
  assume "wf_map m"
  then have "length (map_delete m k) = length (remove1 k (map fst m))"
    by (metis wf_map_def delete_keys length_map distinct_remove1_removeAll)
  then show ?thesis
    by (simp add: length_remove1 map_of_eq_None_iff)
qed

section \<open>Lists\<close>

lemma filter_empty_find: "(filter P xs = []) = (\<forall>x\<in>set xs. \<not> P x)"
  by (simp add: filter_empty_conv)

lemma sum_list_map_filter_Cons:
  "sum_list (map f (filter P (x # xs))) = (if P x then f x else 0) + sum_list (map f (filter P xs))"
  for f :: "'a \<Rightarrow> 'b::comm_monoid_add"
  by simp

end
