(* ===== verification/Js_Number.thy ===== *)
theory Js_Number
  imports Complex_Main "HOL-Library.Log_Nat" LL_Prelude
begin

text \<open>
  The Number type of JavaScript: IEEE 754 binary64 values. A finite double is a rational; every
  arithmetic result is rounded to the nearest double, ties to even (\<open>fl\<close>), overflows to an
  infinity, and \<open>NaN\<close> absorbs. The two zeros are identified, which no operation of the program
  can tell apart. The last part shows where this arithmetic is exact: on amounts that are
  multiples of 1/1024 and small enough, sums and differences are not rounded.
\<close>

section \<open>Rounding to binary64\<close>

text \<open>The exponent of the leading binary digit of a non-zero rational.\<close>

definition binexp :: "rat \<Rightarrow> int" where
  "binexp x =
     (let (n, d) = quotient_of \<bar>x\<bar>; e = bitlen n - bitlen d
      in if 2 powi e \<le> \<bar>x\<bar> then e else e - 1)"

definition round_even :: "rat \<Rightarrow> int" where
  "round_even y =
     (let f = \<lfloor>y\<rfloor>; r = y - of_int f
      in if r < 1/2 then f else if 1/2 < r then f + 1 else if even f then f else f + 1)"

definition ulp :: "rat \<Rightarrow> rat" where
  "ulp x = 2 powi (max (binexp x - 52) (- 1074))"

definition fl :: "rat \<Rightarrow> rat" where
  "fl x = (if x = 0 then 0 else of_int (round_even (x / ulp x)) * ulp x)"

section \<open>Numbers and their operations\<close>

datatype js_num = Fin rat | PInf | NInf | NaN

text \<open>A rounded result of magnitude \<open>2 ^ 1024\<close> or more is an infinity.\<close>

definition js_of :: "rat \<Rightarrow> js_num" where
  "js_of x =
     (let y = fl x
      in if y \<noteq> 0 \<and> 1024 \<le> binexp y then (if 0 < y then PInf else NInf) else Fin y)"

fun js_neg :: "js_num \<Rightarrow> js_num" where
  "js_neg (Fin x) = Fin (- x)"
| "js_neg PInf = NInf"
| "js_neg NInf = PInf"
| "js_neg NaN = NaN"

fun js_add :: "js_num \<Rightarrow> js_num \<Rightarrow> js_num" where
  "js_add (Fin x) (Fin y) = js_of (x + y)"
| "js_add NaN _ = NaN"
| "js_add _ NaN = NaN"
| "js_add PInf NInf = NaN"
| "js_add NInf PInf = NaN"
| "js_add PInf _ = PInf"
| "js_add NInf _ = NInf"
| "js_add _ PInf = PInf"
| "js_add _ NInf = NInf"

definition js_sub :: "js_num \<Rightarrow> js_num \<Rightarrow> js_num" where
  "js_sub x y = js_add x (js_neg y)"

fun js_sign :: "js_num \<Rightarrow> rat" where
  "js_sign (Fin x) = sgn x"
| "js_sign PInf = 1"
| "js_sign NInf = -1"
| "js_sign NaN = 0"

definition js_mul :: "js_num \<Rightarrow> js_num \<Rightarrow> js_num" where
  "js_mul x y = (case (x, y) of
      (NaN, _) \<Rightarrow> NaN
    | (_, NaN) \<Rightarrow> NaN
    | (Fin a, Fin b) \<Rightarrow> js_of (a * b)
    | _ \<Rightarrow> (let s = js_sign x * js_sign y in if s = 0 then NaN else if 0 < s then PInf else NInf))"

fun js_lt :: "js_num \<Rightarrow> js_num \<Rightarrow> bool" where
  "js_lt (Fin x) (Fin y) = (x < y)"
| "js_lt NaN _ = False"
| "js_lt _ NaN = False"
| "js_lt NInf y = (y \<noteq> NInf)"
| "js_lt _ NInf = False"
| "js_lt _ PInf = True"
| "js_lt PInf _ = False"

fun js_le :: "js_num \<Rightarrow> js_num \<Rightarrow> bool" where
  "js_le (Fin x) (Fin y) = (x \<le> y)"
| "js_le NaN _ = False"
| "js_le _ NaN = False"
| "js_le NInf _ = True"
| "js_le _ PInf = True"
| "js_le _ NInf = False"
| "js_le PInf _ = False"

fun js_abs :: "js_num \<Rightarrow> js_num" where
  "js_abs (Fin x) = Fin \<bar>x\<bar>"
| "js_abs NaN = NaN"
| "js_abs _ = PInf"

text \<open>\<open>Math.max\<close> and \<open>Math.min\<close> of two arguments: \<open>NaN\<close> if one of them is.\<close>

definition js_max :: "js_num \<Rightarrow> js_num \<Rightarrow> js_num" where
  "js_max x y = (if x = NaN \<or> y = NaN then NaN else if js_lt x y then y else x)"

definition js_min :: "js_num \<Rightarrow> js_num \<Rightarrow> js_num" where
  "js_min x y = (if x = NaN \<or> y = NaN then NaN else if js_lt y x then y else x)"

text \<open>A number is truthy when it is neither zero nor \<open>NaN\<close>.\<close>

definition js_truthy :: "js_num \<Rightarrow> bool" where
  "js_truthy x \<longleftrightarrow> x \<noteq> NaN \<and> x \<noteq> Fin 0"

section \<open>Rounding keeps signs and is exact on short binary fractions\<close>

lemma powi_2_pos [simp]: "(0::rat) < 2 powi k"
  by simp

lemma ulp_pos [simp]: "0 < ulp x"
  by (simp add: ulp_def)

lemma ulp_neq_0 [simp]: "ulp x \<noteq> 0"
  using ulp_pos[of x] by linarith

lemma round_even_of_int [simp]: "round_even (of_int k) = k"
  by (simp add: round_even_def)

lemma round_even_nonneg: "0 \<le> y \<Longrightarrow> 0 \<le> round_even y"
  by (auto simp: round_even_def Let_def)

lemma round_even_nonpos:
  assumes "y \<le> 0" shows "round_even y \<le> 0"
proof (cases "y = 0")
  case False
  with assms have "\<lfloor>y\<rfloor> < 0" by linarith
  then show ?thesis by (auto simp: round_even_def Let_def)
qed (simp add: round_even_def)

lemma fl_0 [simp]: "fl 0 = 0"
  by (simp add: fl_def)

lemma fl_nonneg: "0 \<le> x \<Longrightarrow> 0 \<le> fl x"
  by (simp add: fl_def round_even_nonneg less_imp_le)

lemma fl_nonpos: "x \<le> 0 \<Longrightarrow> fl x \<le> 0"
  by (simp add: fl_def round_even_nonpos mult_nonpos_nonneg divide_nonpos_pos less_imp_le)


lemma bitlen_powi:
  assumes "0 < n"
  shows "2 powi (bitlen n - 1) \<le> (of_int n :: rat)" and "(of_int n :: rat) < 2 powi bitlen n"
proof -
  have b: "1 \<le> bitlen n"
    using assms bitlen_nonneg[of n] bitlen_eq_zero_iff[of n] by linarith
  have "2 ^ nat (bitlen n - 1) \<le> n" and "n < 2 ^ nat (bitlen n)"
    using bitlen_bounds[OF assms] by auto
  then have "(2 ^ nat (bitlen n - 1) :: rat) \<le> of_int n" and "of_int n < (2 ^ nat (bitlen n) :: rat)"
    by (metis of_int_le_iff of_int_numeral of_int_power, metis of_int_less_iff of_int_numeral of_int_power)
  then show "2 powi (bitlen n - 1) \<le> (of_int n :: rat)" and "(of_int n :: rat) < 2 powi bitlen n"
    using b by (simp_all add: power_int_nonneg_exp bitlen_nonneg)
qed

lemma binexp_bounds:
  assumes "x \<noteq> 0"
  shows "2 powi binexp x \<le> \<bar>x\<bar>" and "\<bar>x\<bar> < 2 powi (binexp x + 1)"
proof -
  obtain n d where q: "quotient_of \<bar>x\<bar> = (n, d)" by fastforce
  have d: "0 < d" using q by (rule quotient_of_denom_pos)
  have x: "\<bar>x\<bar> = of_int n / of_int d" using q by (rule quotient_of_div)
  then have n: "0 < n"
    using assms d by (metis of_int_0_less_iff zero_less_abs_iff zero_less_divide_iff less_asym)
  let ?e = "bitlen n - bitlen d"
  have "2 powi (bitlen n - 1) / 2 powi bitlen d \<le> \<bar>x\<bar>"
    unfolding x using bitlen_powi[OF n] bitlen_powi[OF d] d n
    by (intro frac_le) auto
  then have lo: "2 powi (?e - 1) \<le> \<bar>x\<bar>"
    by (simp add: algebra_simps flip: power_int_diff)
  have "\<bar>x\<bar> < 2 powi bitlen n / 2 powi (bitlen d - 1)"
    unfolding x using bitlen_powi[OF n] bitlen_powi[OF d] d n
    by (intro frac_less) auto
  then have hi: "\<bar>x\<bar> < 2 powi (?e + 1)"
    by (simp add: algebra_simps flip: power_int_diff)
  show "2 powi binexp x \<le> \<bar>x\<bar>" using lo by (simp add: binexp_def q Let_def)
  show "\<bar>x\<bar> < 2 powi (binexp x + 1)" using hi by (auto simp: binexp_def q Let_def not_le)
qed

text \<open>Amounts of days: multiples of 1/1024 of a day of magnitude at most \<open>2 ^ 42\<close>.\<close>

definition grid :: "rat \<Rightarrow> bool" where
  "grid x \<longleftrightarrow> of_int \<lfloor>x * 1024\<rfloor> = x * 1024 \<and> \<bar>x\<bar> \<le> 2 ^ 42"

lemma gridE:
  assumes "grid x" obtains k where "x = of_int k / 1024" and "\<bar>x\<bar> \<le> 2 ^ 42"
  using assms unfolding grid_def by (metis nonzero_mult_div_cancel_right zero_neq_numeral)

lemma gridI: "x = of_int k / 1024 \<Longrightarrow> \<bar>x\<bar> \<le> 2 ^ 42 \<Longrightarrow> grid x"
  by (simp add: grid_def)

lemma fl_grid [js_simps]:
  assumes "grid x" shows "fl x = x"
proof (cases "x = 0")
  case False
  from assms obtain k where x: "x = of_int k / 1024" and b: "\<bar>x\<bar> \<le> 2 ^ 42" by (rule gridE)
  have "2 powi binexp x \<le> (2 :: rat) powi 42"
    using binexp_bounds(1)[OF False] b by simp
  then have e: "binexp x \<le> 42"
    by (rule power_int_le_imp_le_exp[rotated]) simp_all
  define j where "j = max (binexp x - 52) (- 1074)"
  from e have j: "j \<le> -10" by (simp add: j_def)
  have u: "ulp x = 2 powi j" by (simp add: ulp_def j_def)
  have "x / ulp x = of_int k * 2 powi (- 10 - j)"
    unfolding u unfolding x by (simp add: power_int_diff power_int_minus field_simps)
  also have "\<dots> = of_int (k * 2 ^ nat (- 10 - j))"
    using j by (simp add: power_int_nonneg_exp)
  finally have "of_int (round_even (x / ulp x)) = x / ulp x"
    by (metis round_even_of_int)
  with False show ?thesis by (simp add: fl_def)
qed simp

lemma js_of_grid [js_simps]:
  assumes "grid x" shows "js_of x = Fin x"
proof (cases "x = 0")
  case False
  have "\<bar>x\<bar> \<le> 2 ^ 42" using assms by (simp add: grid_def)
  then have "2 powi binexp x \<le> (2 :: rat) powi 42"
    using binexp_bounds(1)[OF False] by simp
  then have "binexp x \<le> 42"
    by (rule power_int_le_imp_le_exp[rotated]) simp_all
  then show ?thesis using fl_grid[OF assms] by (simp add: js_of_def)
qed (simp add: js_of_def)

lemma grid_add:
  assumes "grid x" and "grid y" and "\<bar>x + y\<bar> \<le> 2 ^ 42" shows "grid (x + y)"
proof -
  from assms obtain k l where "x = of_int k / 1024" and "y = of_int l / 1024"
    by (elim gridE)
  then have "x + y = of_int (k + l) / 1024" by (simp add: add_divide_distrib)
  then show ?thesis using assms(3) by (rule gridI)
qed

lemma grid_minus [simp]: "grid (- x) \<longleftrightarrow> grid x"
proof -
  have "grid x \<Longrightarrow> grid (- x)" for x
    by (erule gridE, rule gridI[where k = "- k" for k]) simp_all
  from this[of x] this[of "- x"] show ?thesis by auto
qed

lemma grid_diff:
  assumes "grid x" and "grid y" and "\<bar>x - y\<bar> \<le> 2 ^ 42" shows "grid (x - y)"
  using grid_add[of x "- y"] assms by simp

lemma grid_of_int [simp]: "grid (of_int k) \<longleftrightarrow> \<bar>k\<bar> \<le> 2 ^ 42"
proof -
  have "of_int \<lfloor>(of_int k :: rat) * 1024\<rfloor> = (of_int k :: rat) * 1024"
    by (metis floor_of_int of_int_mult of_int_numeral)
  moreover have "\<bar>of_int k :: rat\<bar> \<le> 2 ^ 42 \<longleftrightarrow> \<bar>k\<bar> \<le> 2 ^ 42"
    by (metis of_int_abs of_int_le_iff of_int_numeral of_int_power)
  ultimately show ?thesis by (simp add: grid_def)
qed

lemma grid_numeral [simp]:
  "grid 0" "grid 1" "grid (numeral n) \<longleftrightarrow> (numeral n :: int) \<le> 2 ^ 42"
  using grid_of_int[of 0] grid_of_int[of 1] grid_of_int[of "numeral n"] by simp_all

lemma js_add_grid [js_simps]:
  "grid x \<Longrightarrow> grid y \<Longrightarrow> \<bar>x + y\<bar> \<le> 2 ^ 42 \<Longrightarrow> js_add (Fin x) (Fin y) = Fin (x + y)"
  by (simp add: js_of_grid grid_add)

lemma js_sub_grid [js_simps]:
  "grid x \<Longrightarrow> grid y \<Longrightarrow> \<bar>x - y\<bar> \<le> 2 ^ 42 \<Longrightarrow> js_sub (Fin x) (Fin y) = Fin (x - y)"
  using js_add_grid[of x "- y"] by (simp add: js_sub_def)

text \<open>Numbers that are not below zero; \<open>NaN\<close> is none of them.\<close>

definition nonneg :: "js_num \<Rightarrow> bool" where
  "nonneg x \<longleftrightarrow> js_le (Fin 0) x"

fun isFinite :: "js_num \<Rightarrow> bool" where
  "isFinite (Fin q) = True"
| "isFinite _ = False"

lemma nonneg_Fin [simp]: "nonneg (Fin q) \<longleftrightarrow> 0 \<le> q"
  by (simp add: nonneg_def)

lemma nonneg_cases: "nonneg x \<longleftrightarrow> x = PInf \<or> (\<exists>q. x = Fin q \<and> 0 \<le> q)"
  by (cases x) (simp_all add: nonneg_def)

lemma isFinite_iff: "isFinite x \<longleftrightarrow> (\<exists>q. x = Fin q)"
  by (cases x) simp_all

lemma js_of_nonneg: "0 \<le> x \<Longrightarrow> js_of x = PInf \<or> (\<exists>q. js_of x = Fin q \<and> 0 \<le> q)"
  using fl_nonneg[of x] by (auto simp: js_of_def Let_def)

end
