(* ===== verification/Js_String.thy ===== *)
theory Js_String
  imports Js_Number
begin

text \<open>
  The string operations of JavaScript the program relies on: \<open>split\<close> on one character, \<open>trim\<close>,
  \<open>toLowerCase\<close>, \<open>includes\<close>, the \<open>Number\<close> conversion of the grammar StringNumericLiteral,
  \<open>parseInt\<close> and zero-padded decimal printing. Strings are lists of characters below 256.
\<close>

section \<open>Characters\<close>

definition code :: "char \<Rightarrow> nat" where
  "code c = of_char c"

definition is_digit :: "char \<Rightarrow> bool" where
  "is_digit c \<longleftrightarrow> 48 \<le> code c \<and> code c \<le> 57"

definition digit_val :: "char \<Rightarrow> nat" where
  "digit_val c = code c - 48"

definition digit_char :: "nat \<Rightarrow> char" where
  "digit_char n = char_of (48 + n)"

text \<open>White space and line terminators of ECMAScript among the characters below 256.\<close>

definition is_space :: "char \<Rightarrow> bool" where
  "is_space c \<longleftrightarrow> code c \<in> {9, 10, 11, 12, 13, 32, 160}"

definition trim :: "string \<Rightarrow> string" where
  "trim s = rev (dropWhile is_space (rev (dropWhile is_space s)))"

definition lower_char :: "char \<Rightarrow> char" where
  "lower_char c =
     (if 65 \<le> code c \<and> code c \<le> 90 \<or> 192 \<le> code c \<and> code c \<le> 222 \<and> code c \<noteq> 215
      then char_of (code c + 32) else c)"

definition toLowerCase :: "string \<Rightarrow> string" where
  "toLowerCase s = map lower_char s"

fun js_startsWith :: "string \<Rightarrow> string \<Rightarrow> bool" where
  "js_startsWith s [] = True"
| "js_startsWith [] (p # ps) = False"
| "js_startsWith (c # s) (p # ps) = (c = p \<and> js_startsWith s ps)"

fun js_includes :: "string \<Rightarrow> string \<Rightarrow> bool" where
  "js_includes [] p = (p = [])"
| "js_includes (c # s) p = (js_startsWith (c # s) p \<or> js_includes s p)"

fun js_split :: "char \<Rightarrow> string \<Rightarrow> string list" where
  "js_split sep [] = [[]]"
| "js_split sep (c # s) =
     (if c = sep then [] # js_split sep s
      else case js_split sep s of [] \<Rightarrow> [[c]] | w # ws \<Rightarrow> (c # w) # ws)"

section \<open>Numbers from strings\<close>

definition dec_val :: "string \<Rightarrow> nat" where
  "dec_val ds = foldl (\<lambda>a c. 10 * a + digit_val c) 0 ds"

text \<open>The optional exponent after the mantissa \<open>m\<close>.\<close>

definition number_exponent :: "rat \<Rightarrow> string \<Rightarrow> js_num" where
  "number_exponent m s = (case s of
      [] \<Rightarrow> js_of m
    | e # r \<Rightarrow>
        if e \<noteq> CHR ''e'' \<and> e \<noteq> CHR ''E'' then NaN
        else let (neg, ds) = (case r of
                   c # r' \<Rightarrow> if c = CHR ''-'' then (True, r')
                              else if c = CHR ''+'' then (False, r') else (False, r)
                 | [] \<Rightarrow> (False, []))
             in if ds = [] \<or> \<not> list_all is_digit ds then NaN
                else js_of (m * 10 powi (if neg then - int (dec_val ds) else int (dec_val ds))))"

definition number_unsigned :: "string \<Rightarrow> js_num" where
  "number_unsigned s =
     (if s = ''Infinity'' then PInf
      else let i = takeWhile is_digit s; r = dropWhile is_digit s;
               (f, r') = (case r of
                   c # q \<Rightarrow> if c = CHR ''.'' then (takeWhile is_digit q, dropWhile is_digit q) else ([], r)
                 | [] \<Rightarrow> ([], []))
           in if i = [] \<and> f = [] then NaN
              else number_exponent (of_nat (dec_val (i @ f)) / 10 ^ length f) r')"

definition radix_digit :: "nat \<Rightarrow> char \<Rightarrow> nat option" where
  "radix_digit b c =
     (let n = code c;
          v = (if is_digit c then Some (n - 48)
               else if 97 \<le> n \<and> n \<le> 122 then Some (n - 87)
               else if 65 \<le> n \<and> n \<le> 90 then Some (n - 55) else None)
      in case v of Some d \<Rightarrow> if d < b then Some d else None | None \<Rightarrow> None)"

fun radix_val :: "nat \<Rightarrow> nat \<Rightarrow> string \<Rightarrow> nat option" where
  "radix_val b acc [] = Some acc"
| "radix_val b acc (c # s) = (case radix_digit b c of
      None \<Rightarrow> None | Some d \<Rightarrow> radix_val b (b * acc + d) s)"

definition number_radix :: "nat \<Rightarrow> string \<Rightarrow> js_num" where
  "number_radix b s = (if s = [] then NaN
     else case radix_val b 0 s of None \<Rightarrow> NaN | Some n \<Rightarrow> js_of (of_nat n))"

definition js_Number :: "string \<Rightarrow> js_num" where
  "js_Number str = (let s = trim str in
     case s of
       [] \<Rightarrow> Fin 0
     | c # r \<Rightarrow>
         if c = CHR ''+'' then number_unsigned r
         else if c = CHR ''-'' then js_neg (number_unsigned r)
         else if c = CHR ''0'' \<and> r \<noteq> [] \<and> hd r \<in> {CHR ''x'', CHR ''X''} then number_radix 16 (tl r)
         else if c = CHR ''0'' \<and> r \<noteq> [] \<and> hd r \<in> {CHR ''o'', CHR ''O''} then number_radix 8 (tl r)
         else if c = CHR ''0'' \<and> r \<noteq> [] \<and> hd r \<in> {CHR ''b'', CHR ''B''} then number_radix 2 (tl r)
         else number_unsigned s)"

text \<open>
  \<open>parseInt\<close>: the leading digits, without a radix hexadecimal after a \<open>0x\<close> prefix; \<open>None\<close> for \<open>NaN\<close>.
\<close>

definition parse_int :: "bool \<Rightarrow> string \<Rightarrow> int option" where
  "parse_int prefix str = (let s = dropWhile is_space str;
       (neg, r) = (case s of
           c # q \<Rightarrow> if c = CHR ''-'' then (True, q) else if c = CHR ''+'' then (False, q) else (False, s)
         | [] \<Rightarrow> (False, []));
       hex = (prefix \<and> (js_startsWith r ''0x'' \<or> js_startsWith r ''0X''));
       b = (if hex then 16 else 10);
       ds = takeWhile (\<lambda>c. radix_digit b c \<noteq> None) (if hex then drop 2 r else r);
       v = int (case radix_val b 0 ds of Some n \<Rightarrow> n | None \<Rightarrow> 0)
     in if ds = [] then None else Some (if neg then - v else v))"

definition js_parseInt :: "string \<Rightarrow> int option" where
  "js_parseInt = parse_int True"

text \<open>\<open>parseInt(s, 10)\<close>.\<close>

definition js_parseInt10 :: "string \<Rightarrow> int option" where
  "js_parseInt10 = parse_int False"

text \<open>\<open>parseFloat\<close>: the longest prefix, after white space, that is a decimal literal.\<close>

definition float_exponent :: "string \<Rightarrow> int" where
  "float_exponent s = (case s of
      e # r \<Rightarrow>
        if e \<noteq> CHR ''e'' \<and> e \<noteq> CHR ''E'' then 0
        else let (neg, q) = (case r of
                   c # r' \<Rightarrow> if c = CHR ''-'' then (True, r')
                              else if c = CHR ''+'' then (False, r') else (False, r)
                 | [] \<Rightarrow> (False, []));
                 n = int (dec_val (takeWhile is_digit q))
             in if neg then - n else n
    | [] \<Rightarrow> 0)"

definition js_parseFloat :: "string \<Rightarrow> js_num" where
  "js_parseFloat str =
     (let s = dropWhile is_space str;
          (neg, r) = (case s of
             c # q \<Rightarrow> if c = CHR ''-'' then (True, q) else if c = CHR ''+'' then (False, q) else (False, s)
           | [] \<Rightarrow> (False, []));
          i = takeWhile is_digit r; r1 = dropWhile is_digit r;
          (f, r2) = (case r1 of
              c # q \<Rightarrow> if c = CHR ''.'' then (takeWhile is_digit q, dropWhile is_digit q) else ([], r1)
            | [] \<Rightarrow> ([], []));
          v = (if js_startsWith r ''Infinity'' then PInf
               else if i = [] \<and> f = [] then NaN
               else js_of (of_nat (dec_val (i @ f)) / 10 ^ length f * 10 powi float_exponent r2))
      in if neg then js_neg v else v)"

section \<open>Zero-padded decimal printing\<close>

fun dec_string :: "nat \<Rightarrow> nat \<Rightarrow> string" where
  "dec_string 0 n = []"
| "dec_string (Suc w) n = dec_string w (n div 10) @ [digit_char (n mod 10)]"

lemma code_digit_char: "n < 10 \<Longrightarrow> code (digit_char n) = 48 + n"
  by (simp add: code_def digit_char_def of_char_of)

lemma is_digit_digit_char [simp]: "n < 10 \<Longrightarrow> is_digit (digit_char n)"
  by (simp add: is_digit_def code_digit_char)

lemma digit_val_digit_char [simp]: "n < 10 \<Longrightarrow> digit_val (digit_char n) = n"
  by (simp add: digit_val_def code_digit_char)

lemma length_dec_string [simp]: "length (dec_string w n) = w"
  by (induction w arbitrary: n) auto

lemma dec_string_digits: "c \<in> set (dec_string w n) \<Longrightarrow> is_digit c"
  by (induction w arbitrary: n) auto

lemma dec_val_snoc [simp]: "dec_val (s @ [c]) = 10 * dec_val s + digit_val c"
  by (simp add: dec_val_def)

lemma dec_val_dec_string: "n < 10 ^ w \<Longrightarrow> dec_val (dec_string w n) = n"
proof (induction w arbitrary: n)
  case (Suc w)
  then have "n div 10 < 10 ^ w" by (simp add: less_mult_imp_div_less mult.commute)
  with Suc.IH show ?case by simp
qed (simp add: dec_val_def)

section \<open>Splitting and reading back what was printed\<close>

lemma js_split_nonempty [simp]: "js_split c s \<noteq> []"
  by (induction s) (auto split: list.splits)

lemma js_split_word: "c \<notin> set w \<Longrightarrow> js_split c w = [w]"
  by (induction w) auto

lemma js_split_append: "c \<notin> set w \<Longrightarrow> js_split c (w @ c # s) = w # js_split c s"
  by (induction w) auto

lemma is_digit_not_space: "is_digit c \<Longrightarrow> \<not> is_space c"
  by (auto simp: is_digit_def is_space_def)

lemma trim_digits: "list_all is_digit s \<Longrightarrow> trim s = s"
proof -
  assume d: "list_all is_digit s"
  have id: "dropWhile is_space t = t" if "list_all is_digit t" for t
    using that by (cases t) (auto dest: is_digit_not_space)
  from d have "list_all is_digit (rev s)" by (simp add: list_all_iff)
  with d show ?thesis by (simp add: trim_def id)
qed

lemma is_digit_char_neq:
  "is_digit c \<Longrightarrow> c \<noteq> CHR ''-'' \<and> c \<noteq> CHR ''+'' \<and> c \<noteq> CHR ''.'' \<and> c \<notin> {CHR ''x'', CHR ''X''}
     \<and> c \<notin> {CHR ''o'', CHR ''O''} \<and> c \<notin> {CHR ''b'', CHR ''B''} \<and> c \<noteq> CHR ''I''"
  by (auto simp: is_digit_def code_def)

lemma number_unsigned_digits:
  assumes "list_all is_digit s" and "s \<noteq> []"
  shows "number_unsigned s = js_of (of_nat (dec_val s))"
proof -
  have tw: "takeWhile is_digit s = s" and dw: "dropWhile is_digit s = []"
    using assms by (auto simp: list_all_iff takeWhile_eq_all_conv dropWhile_eq_Nil_conv)
  have "s \<noteq> ''Infinity''"
    using assms by (auto simp: is_digit_def code_def)
  then show ?thesis
    using assms(2) by (simp add: number_unsigned_def tw dw number_exponent_def)
qed

lemma js_Number_digits:
  assumes "list_all is_digit s" and "s \<noteq> []"
  shows "js_Number s = js_of (of_nat (dec_val s))"
proof -
  obtain c r where s: "s = c # r" and c: "is_digit c" and r: "list_all is_digit r"
    using assms by (cases s) auto
  have "js_Number s = number_unsigned s"
  proof (cases r)
    case Nil
    then show ?thesis
      using is_digit_char_neq[OF c] trim_digits[OF assms(1)] by (simp add: js_Number_def s)
  next
    case (Cons d q)
    with r have "is_digit d" by simp
    then show ?thesis
      using is_digit_char_neq[OF c] is_digit_char_neq[of d] trim_digits[OF assms(1)] Cons
      by (simp add: js_Number_def s)
  qed
  then show ?thesis by (simp add: number_unsigned_digits assms)
qed

lemma js_Number_dec_string:
  assumes "0 < w" and "n < 10 ^ w" and "n \<le> 2 ^ 42"
  shows "js_Number (dec_string w n) = Fin (of_nat n)"
proof -
  have "list_all is_digit (dec_string w n)"
    by (auto simp: list_all_iff dec_string_digits)
  moreover have "dec_string w n \<noteq> []"
    using assms(1) by (metis length_dec_string length_0_conv less_irrefl)
  moreover have "grid (of_nat n)"
    using assms(3) grid_of_int[of "int n"] by (simp add: of_nat_le_iff flip: of_nat_power)
  ultimately show ?thesis
    by (simp add: js_Number_digits dec_val_dec_string assms(2) js_of_grid)
qed

lemma dash_notin_dec_string: "CHR ''-'' \<notin> set (dec_string w n)"
  using dec_string_digits is_digit_char_neq by blast

end
