(* ===== verification/Date_Util.thy ===== *)
theory Date_Util
  imports Js_String
begin

text \<open>
  The calendar arithmetic of \<open>src/src/common/utils/date.util.js\<close> and
  \<open>date-range-validator.util.js\<close> over the Date algorithms of ECMAScript: the proleptic Gregorian
  day number, \<open>Date.UTC\<close> with its two-digit years and its overflow of months and days,
  \<open>getUTCDay\<close>, \<open>toISOString\<close>. A time value is an integer number of milliseconds, or \<open>None\<close>
  for \<open>NaN\<close>. The clock is an argument.
\<close>

type_synonym time_value = "int option"

section \<open>Days and civil dates\<close>

definition ms_per_day :: int where
  "ms_per_day = 86400000"

definition leap :: "int \<Rightarrow> bool" where
  "leap y \<longleftrightarrow> y mod 4 = 0 \<and> (y mod 100 \<noteq> 0 \<or> y mod 400 = 0)"

definition day_from_year :: "int \<Rightarrow> int" where
  "day_from_year y =
     365 * (y - 1970) + (y - 1969) div 4 - (y - 1901) div 100 + (y - 1601) div 400"

text \<open>Days before the month \<open>m\<close> (0 to 11) in its year.\<close>

definition month_offset :: "int \<Rightarrow> int \<Rightarrow> int" where
  "month_offset y m =
     [0, 31, 59, 90, 120, 151, 181, 212, 243, 273, 304, 334] ! nat m
       + (if leap y \<and> 2 \<le> m then 1 else 0)"

definition days_in_month :: "int \<Rightarrow> int \<Rightarrow> int" where
  "days_in_month y m =
     (if m = 1 then (if leap y then 29 else 28) else if m \<in> {3, 5, 8, 10} then 30 else 31)"

definition civil_day :: "int \<Rightarrow> int \<Rightarrow> int \<Rightarrow> int" where
  "civil_day y m d = day_from_year y + month_offset y m + (d - 1)"

definition valid_civil :: "int \<Rightarrow> int \<Rightarrow> int \<Rightarrow> bool" where
  "valid_civil y m d \<longleftrightarrow> 0 \<le> m \<and> m \<le> 11 \<and> 1 \<le> d \<and> d \<le> days_in_month y m"

definition year_from_day :: "int \<Rightarrow> int" where
  "year_from_day n =
     (let e = 1970 + (400 * n) div 146097
      in if n < day_from_year e then e - 1
         else if day_from_year (e + 1) \<le> n then e + 1 else e)"

definition month_from_day :: "int \<Rightarrow> int" where
  "month_from_day n =
     (let y = year_from_day n
      in int (length (filter (\<lambda>m. month_offset y m \<le> n - day_from_year y) [1, 2, 3, 4, 5, 6, 7, 8, 9, 10, 11])))"

definition date_from_day :: "int \<Rightarrow> int" where
  "date_from_day n =
     n - day_from_year (year_from_day n) - month_offset (year_from_day n) (month_from_day n) + 1"

section \<open>The Date functions of the language\<close>

definition time_clip :: "int \<Rightarrow> time_value" where
  "time_clip t = (if 8640000000000000 < \<bar>t\<bar> then None else Some t)"

fun js_trunc :: "js_num \<Rightarrow> int option" where
  "js_trunc (Fin x) = Some (if 0 \<le> x then \<lfloor>x\<rfloor> else - \<lfloor>- x\<rfloor>)"
| "js_trunc _ = None"

definition make_day :: "int \<Rightarrow> int \<Rightarrow> int \<Rightarrow> int option" where
  "make_day y m d =
     (let first = civil_day (y + m div 12) (m mod 12) 1
      in if time_clip (first * ms_per_day) = None then None else Some (first + d - 1))"

definition date_utc :: "js_num \<Rightarrow> js_num \<Rightarrow> js_num \<Rightarrow> time_value" where
  "date_utc y m d = (case (js_trunc y, js_trunc m, js_trunc d) of
      (Some yi, Some mi, Some di) \<Rightarrow>
        (case make_day (if 0 \<le> yi \<and> yi \<le> 99 then 1900 + yi else yi) mi di of
           None \<Rightarrow> None | Some n \<Rightarrow> time_clip (n * ms_per_day))
    | _ \<Rightarrow> None)"

text \<open>A comparison of two numbers is false when one of them is \<open>NaN\<close>.\<close>

fun time_le :: "time_value \<Rightarrow> time_value \<Rightarrow> bool" where
  "time_le (Some a) (Some b) = (a \<le> b)"
| "time_le _ _ = False"

fun time_lt :: "time_value \<Rightarrow> time_value \<Rightarrow> bool" where
  "time_lt (Some a) (Some b) = (a < b)"
| "time_lt _ _ = False"

definition utc_day :: "int \<Rightarrow> int" where
  "utc_day t = t div ms_per_day"

definition getUTCDay :: "int \<Rightarrow> int" where
  "getUTCDay t = (utc_day t + 4) mod 7"

text \<open>\<open>toISOString().slice(0, 10)\<close>: years outside 0 to 9999 print a sign and six digits.\<close>

definition iso_slice :: "int \<Rightarrow> string" where
  "iso_slice t =
     (let n = utc_day t; y = year_from_day n;
          ys = (if 0 \<le> y \<and> y \<le> 9999 then dec_string 4 (nat y)
                else (if y < 0 then ''-'' else ''+'') @ dec_string 6 (nat \<bar>y\<bar>))
      in take 10 (ys @ ''-'' @ dec_string 2 (nat (month_from_day n + 1)) @ ''-''
                  @ dec_string 2 (nat (date_from_day n))))"

text \<open>
  The idiom of the source: \<open>const [y, m, d] = s.split('-').map(Number); Date.UTC(y, m - 1, d)\<close>.
  A missing component is \<open>undefined\<close>, hence \<open>NaN\<close>.
\<close>

definition component :: "string list \<Rightarrow> nat \<Rightarrow> js_num" where
  "component ps i = (if i < length ps then js_Number (ps ! i) else NaN)"

definition utc_of_string :: "string \<Rightarrow> time_value" where
  "utc_of_string s =
     (let ps = js_split (CHR ''-'') s
      in date_utc (component ps 0) (js_sub (component ps 1) (Fin 1)) (component ps 2))"

text \<open>
  \<open>new Date(s + 'T00:00:00Z')\<close>: the date-time format of the language when \<open>s\<close> is a four-digit year,
  a month and a day of it; for any other text the result is up to the engine and is an argument.
\<close>

definition midnight :: "(string \<Rightarrow> time_value) \<Rightarrow> string \<Rightarrow> time_value" where
  "midnight engine s =
     (let y = int (dec_val (take 4 s)); m = int (dec_val (take 2 (drop 5 s))) - 1; d = int (dec_val (drop 8 s))
      in if length s = 10 \<and> s ! 4 = CHR ''-'' \<and> s ! 7 = CHR ''-''
            \<and> list_all is_digit (take 4 s @ take 2 (drop 5 s) @ drop 8 s) \<and> valid_civil y m d
         then Some (civil_day y m d * ms_per_day) else engine (s @ ''T00:00:00Z''))"

section \<open>date.util.js\<close>

definition calculateDaysRequested :: "string \<Rightarrow> string \<Rightarrow> js_num" where
  "calculateDaysRequested startDate endDate =
     (case (utc_of_string startDate, utc_of_string endDate) of
        (Some start, Some end') \<Rightarrow>
          Fin (of_int (max ((end' - start) div ms_per_day + 1) 1))
      | _ \<Rightarrow> NaN)"

definition isNotInPast :: "int \<Rightarrow> string \<Rightarrow> bool" where
  "isNotInPast now dateStr =
     (let targetDate = utc_of_string dateStr; n = utc_day now;
          today = date_utc (Fin (of_int (year_from_day n))) (Fin (of_int (month_from_day n)))
                    (Fin (of_int (date_from_day n)))
      in time_le today targetDate)"

definition datesOverlap :: "string \<Rightarrow> string \<Rightarrow> string \<Rightarrow> string \<Rightarrow> bool" where
  "datesOverlap start1 end1 start2 end2 =
     (let s1 = utc_of_string start1; e1 = utc_of_string end1;
          s2 = utc_of_string start2; e2 = utc_of_string end2
      in time_le s1 e2 \<and> time_le s2 e1)"

text \<open>The timestamp is a date or absent (\<open>null\<close> or \<open>undefined\<close>); the threshold may be \<open>NaN\<close>.\<close>

definition isStale :: "int \<Rightarrow> int option \<Rightarrow> int option \<Rightarrow> bool" where
  "isStale now timestamp thresholdMs = (case timestamp of
      None \<Rightarrow> True
    | Some t \<Rightarrow> (case thresholdMs of None \<Rightarrow> False | Some th \<Rightarrow> th < now - t))"

text \<open>The day loop shared by the two working-day counters, from day to day at one time of day.\<close>

function count_days :: "(int \<Rightarrow> bool) \<Rightarrow> int \<Rightarrow> int \<Rightarrow> nat \<Rightarrow> nat" where
  "count_days P current end' acc =
     (if current \<le> end'
      then count_days P (current + ms_per_day) end' (if P current then acc + 1 else acc)
      else acc)"
  by pat_completeness auto
termination
  by (relation "measure (\<lambda>(P, c, e, a). nat (e + 1 - c))") (auto simp: ms_per_day_def)

definition calculateWorkingDays :: "string \<Rightarrow> string \<Rightarrow> int list \<Rightarrow> string list \<Rightarrow> nat" where
  "calculateWorkingDays startDate endDate weekendDays holidays =
     (case (utc_of_string startDate, utc_of_string endDate) of
        (Some current, Some end') \<Rightarrow>
          count_days (\<lambda>t. getUTCDay t \<notin> set weekendDays \<and> iso_slice t \<notin> set holidays) current end' 0
      | _ \<Rightarrow> 0)"

section \<open>Calendar facts\<close>

lemma div_step: "0 < k \<Longrightarrow> (x + 1) div k = x div k + (if k dvd x + 1 then 1 else 0)" for k :: int
proof (cases "k dvd x + 1")
  case True
  assume k: "0 < k"
  from True obtain q where q: "x + 1 = k * q" by (rule dvdE)
  then have "x = k * (q - 1) + (k - 1)" by (simp add: algebra_simps)
  then have "x div k = q - 1" using k by (intro int_div_pos_eq[of _ _ _ "k - 1"]) auto
  with q k True show ?thesis by simp
next
  case False
  assume k: "0 < k"
  have "x mod k + 1 < k"
  proof (rule ccontr)
    assume "\<not> x mod k + 1 < k"
    with k have "x mod k = k - 1" using pos_mod_bound[of k x] by linarith
    then have "(x + 1) mod k = 0" by (metis mod_add_left_eq diff_add_cancel mod_self)
    with False show False by (simp add: dvd_eq_mod_eq_0)
  qed
  moreover have "x + 1 = k * (x div k) + (x mod k + 1)" by simp
  ultimately have "(x + 1) div k = x div k"
    using k by (intro int_div_pos_eq[of _ _ _ "x mod k + 1"]) auto
  with False show ?thesis by simp
qed

lemma dvd_shift: "k dvd y + k * c \<longleftrightarrow> y mod k = 0" for k :: int
  by (simp add: dvd_eq_mod_eq_0)

lemma day_from_year_step:
  "day_from_year (y + 1) = day_from_year y + (if leap y then 366 else 365)"
proof -
  have 1: "(y + 1 - 1969) div 4 = (y - 1969) div 4 + (if y mod 4 = 0 then 1 else 0)"
    using div_step[of 4 "y - 1969"] dvd_shift[of 4 y "-492"] by simp
  have 2: "(y + 1 - 1901) div 100 = (y - 1901) div 100 + (if y mod 100 = 0 then 1 else 0)"
    using div_step[of 100 "y - 1901"] dvd_shift[of 100 y "-19"] by simp
  have 3: "(y + 1 - 1601) div 400 = (y - 1601) div 400 + (if y mod 400 = 0 then 1 else 0)"
    using div_step[of 400 "y - 1601"] dvd_shift[of 400 y "-4"] by simp
  have f: "y mod 100 mod 4 = y mod 4" "y mod 400 mod 100 = y mod 100"
    by (rule mod_mod_cancel, simp)+
  have g: "y mod 4 = 0" if "y mod 100 = 0" using f(1) unfolding that by simp
  have h: "y mod 100 = 0" if "y mod 400 = 0" using f(2) unfolding that by simp
  show ?thesis
    unfolding day_from_year_def 1 2 3 leap_def using g h
    by (cases "y mod 4 = 0"; cases "y mod 100 = 0"; cases "y mod 400 = 0") simp_all
qed

lemma day_from_year_mono:
  assumes "y < z" shows "day_from_year (y + 1) \<le> day_from_year z"
  using assms
proof (induction z rule: int_gr_induct)
  case (step i)
  then show ?case using day_from_year_step[of i] by (auto split: if_splits)
qed simp

lemma year_from_day_bounds:
  "day_from_year (year_from_day n) \<le> n \<and> n < day_from_year (year_from_day n + 1)"
proof -
  define q where "q = (400 * n) div 146097"
  have q: "146097 * q \<le> 400 * n" "400 * n < 146097 * q + 146097"
    unfolding q_def using mult_div_mod_eq[of 146097 "400 * n"]
      pos_mod_bound[of 146097 "400 * n"] pos_mod_sign[of 146097 "400 * n"] by linarith+
  have lo: "day_from_year (1970 + q - 1) \<le> n"
    using q unfolding day_from_year_def by (simp add: algebra_simps)
  have hi: "n < day_from_year (1970 + q + 1 + 1)"
    using q unfolding day_from_year_def by (simp add: algebra_simps)
  show ?thesis
    using lo hi by (auto simp: year_from_day_def Let_def add.assoc simp flip: q_def)
qed

lemma year_from_day_eqI:
  assumes "day_from_year y \<le> n" and "n < day_from_year (y + 1)"
  shows "year_from_day n = y"
  using assms year_from_day_bounds[of n] day_from_year_mono[of y "year_from_day n"]
    day_from_year_mono[of "year_from_day n" y]
  by (cases y "year_from_day n" rule: linorder_cases) auto

lemma month_cases:
  assumes "0 \<le> m" and "m \<le> (11 :: int)"
  shows "m \<in> {0, 1, 2, 3, 4, 5, 6, 7, 8, 9, 10, 11}"
  using assms by (simp, arith)

definition in_month :: "int \<Rightarrow> int \<Rightarrow> int \<Rightarrow> bool" where
  "in_month y m k \<longleftrightarrow> 0 \<le> m \<and> m \<le> 11
     \<and> month_offset y m \<le> k \<and> k < month_offset y m + days_in_month y m"

lemma in_month_ex:
  assumes "0 \<le> k" and "k < (if leap y then 366 else 365)"
  obtains m where "in_month y m k"
proof -
  have "\<exists>m \<in> {0, 1, 2, 3, 4, 5, 6, 7, 8, 9, 10, 11}. in_month y m k"
    using assms
    by (cases "leap y"; simp add: in_month_def month_offset_def days_in_month_def eval_nat_numeral; arith)
  then show ?thesis using that by blast
qed

lemma in_month_count:
  assumes "in_month y m k"
  shows "int (length (filter (\<lambda>j. month_offset y j \<le> k) [1, 2, 3, 4, 5, 6, 7, 8, 9, 10, 11])) = m"
proof -
  have "m \<in> {0, 1, 2, 3, 4, 5, 6, 7, 8, 9, 10, 11}"
    using assms month_cases[of m] by (simp only: in_month_def)
  then show ?thesis
    using assms by (cases "leap y") (auto simp: in_month_def month_offset_def days_in_month_def eval_nat_numeral)
qed

lemma month_from_day_in_month:
  "in_month (year_from_day n) (month_from_day n) (n - day_from_year (year_from_day n))"
proof -
  let ?y = "year_from_day n"
  have "0 \<le> n - day_from_year ?y" "n - day_from_year ?y < (if leap ?y then 366 else 365)"
    using year_from_day_bounds[of n] day_from_year_step[of ?y] by auto
  then obtain m where m: "in_month ?y m (n - day_from_year ?y)" by (rule in_month_ex)
  from in_month_count[OF this] have "month_from_day n = m"
    by (simp add: month_from_day_def)
  with m show ?thesis by simp
qed

lemma civil_of_day:
  "valid_civil (year_from_day n) (month_from_day n) (date_from_day n)"
  "civil_day (year_from_day n) (month_from_day n) (date_from_day n) = n"
  using month_from_day_in_month[of n]
  by (auto simp: valid_civil_def civil_day_def date_from_day_def in_month_def)

lemma month_end: "0 \<le> m \<Longrightarrow> m \<le> 11 \<Longrightarrow> month_offset y m + days_in_month y m \<le> (if leap y then 366 else 365)"
  using month_cases[of m] by (auto simp: month_offset_def days_in_month_def eval_nat_numeral)

lemma month_offset_nonneg: "0 \<le> m \<Longrightarrow> m \<le> 11 \<Longrightarrow> 0 \<le> month_offset y m"
  using month_cases[of m] by (auto simp: month_offset_def eval_nat_numeral)

lemma day_of_civil:
  assumes "valid_civil y m d"
  shows "year_from_day (civil_day y m d) = y" and "month_from_day (civil_day y m d) = m"
    and "date_from_day (civil_day y m d) = d"
proof -
  have b: "0 \<le> m" "m \<le> 11" "1 \<le> d" "d \<le> days_in_month y m"
    using assms by (auto simp: valid_civil_def)
  show y: "year_from_day (civil_day y m d) = y"
    using b month_end[OF b(1,2), of y] month_offset_nonneg[OF b(1,2), of y] day_from_year_step[of y]
    by (intro year_from_day_eqI) (auto simp: civil_day_def)
  have "in_month y m (civil_day y m d - day_from_year y)"
    using b by (auto simp: in_month_def civil_day_def)
  from in_month_count[OF this] show m: "month_from_day (civil_day y m d) = m"
    by (simp add: month_from_day_def y)
  show "date_from_day (civil_day y m d) = d"
    by (simp add: date_from_day_def y m) (simp add: civil_day_def)
qed

section \<open>Dates written as YYYY-MM-DD\<close>

text \<open>The years in which the source's date strings are read back unchanged.\<close>

definition iso_day :: "int \<Rightarrow> bool" where
  "iso_day n \<longleftrightarrow> 100 \<le> year_from_day n \<and> year_from_day n \<le> 9999"

abbreviation iso_date :: "int \<Rightarrow> string" where
  "iso_date n \<equiv> iso_slice (n * ms_per_day)"

lemma utc_day_mult [simp]: "utc_day (n * ms_per_day) = n"
  by (simp add: utc_day_def ms_per_day_def)

lemma day_from_year_le: "y \<le> z \<Longrightarrow> day_from_year y \<le> day_from_year z"
  using day_from_year_mono[of y z] day_from_year_step[of y] by (cases "y = z") (auto split: if_splits)

lemma civil_day_bounds:
  assumes "100 \<le> y" and "y \<le> 9999" and "valid_civil y m d"
  shows "\<bar>civil_day y m d\<bar> \<le> 3000000"
proof -
  have "day_from_year 100 \<le> civil_day y m d" "civil_day y m d < day_from_year 10000"
    using assms day_from_year_le[of 100 y] day_from_year_le[of "y + 1" 10000] day_from_year_step[of y]
      month_offset_nonneg[of m y] month_end[of m y] by (auto simp: valid_civil_def civil_day_def)
  then show ?thesis by (simp add: day_from_year_def)
qed

lemma days_in_month_bounds: "1 \<le> days_in_month y m" "days_in_month y m \<le> 31"
  by (auto simp: days_in_month_def)

lemma time_clip_day: "\<bar>n\<bar> \<le> 100000000 \<Longrightarrow> time_clip (n * ms_per_day) = Some (n * ms_per_day)"
  by (auto simp: time_clip_def ms_per_day_def abs_mult)

lemma date_utc_civil:
  assumes "100 \<le> y" and "y \<le> 9999" and "valid_civil y m d"
  shows "date_utc (Fin (of_int y)) (Fin (of_int m)) (Fin (of_int d)) = Some (civil_day y m d * ms_per_day)"
proof -
  have v: "valid_civil y m 1" and m: "0 \<le> m" "m \<le> 11" and d: "1 \<le> d"
    using assms(3) days_in_month_bounds[of y m] by (auto simp: valid_civil_def)
  have "civil_day y m 1 + d - 1 = civil_day y m d" by (simp add: civil_day_def)
  moreover have "\<bar>civil_day y m 1\<bar> \<le> 3000000" "\<bar>civil_day y m d\<bar> \<le> 3000000"
    using civil_day_bounds[OF assms(1,2)] v assms(3) by blast+
  ultimately show ?thesis
    using m d assms(1,2) by (simp add: date_utc_def make_day_def time_clip_day Let_def)
qed

lemma iso_date_eq:
  assumes "iso_day n"
  shows "iso_date n = dec_string 4 (nat (year_from_day n)) @ CHR ''-'' # dec_string 2 (nat (month_from_day n + 1))
           @ CHR ''-'' # dec_string 2 (nat (date_from_day n))"
  using assms by (simp add: iso_slice_def iso_day_def)

lemma utc_of_iso_date:
  assumes "iso_day n"
  shows "utc_of_string (iso_date n) = Some (n * ms_per_day)"
proof -
  let ?y = "year_from_day n" and ?m = "month_from_day n" and ?d = "date_from_day n"
  have v: "valid_civil ?y ?m ?d" by (rule civil_of_day)
  then have r: "0 \<le> ?m" "?m \<le> 11" "1 \<le> ?d" "?d \<le> 31"
    using days_in_month_bounds[of ?y ?m] by (auto simp: valid_civil_def)
  have y: "100 \<le> ?y" "?y \<le> 9999" using assms by (auto simp: iso_day_def)
  have split: "js_split (CHR ''-'') (iso_date n) =
      [dec_string 4 (nat ?y), dec_string 2 (nat (?m + 1)), dec_string 2 (nat ?d)]"
    by (simp add: iso_date_eq[OF assms] js_split_append js_split_word dash_notin_dec_string
        del: dec_string.simps)
  have "js_Number (dec_string 4 (nat ?y)) = Fin (of_int ?y)"
    using y by (subst js_Number_dec_string) auto
  moreover have "js_Number (dec_string 2 (nat (?m + 1))) = Fin (of_int (?m + 1))"
    using r by (subst js_Number_dec_string) auto
  moreover have "js_Number (dec_string 2 (nat ?d)) = Fin (of_int ?d)"
    using r by (subst js_Number_dec_string) auto
  moreover have "js_sub (Fin (of_int (?m + 1))) (Fin 1) = Fin (of_int ?m)"
  proof -
    have "grid (of_int (?m + 1))" "grid 1" "\<bar>of_int (?m + 1) - (1 :: rat)\<bar> \<le> 2 ^ 42"
      using r by (auto simp del: of_int_add)
    from js_sub_grid[OF this] show ?thesis by simp
  qed
  ultimately have "utc_of_string (iso_date n)
      = date_utc (Fin (of_int ?y)) (Fin (of_int ?m)) (Fin (of_int ?d))"
    by (simp add: utc_of_string_def split component_def del: of_int_add)
  then show ?thesis
    using date_utc_civil[OF y v] civil_of_day(2)[of n] by simp
qed

lemma midnight_iso_date:
  assumes "iso_day n"
  shows "midnight engine (iso_date n) = Some (n * ms_per_day)"
proof -
  let ?y = "year_from_day n" and ?m = "month_from_day n" and ?d = "date_from_day n"
  have v: "valid_civil ?y ?m ?d" by (rule civil_of_day)
  then have r: "0 \<le> ?m" "?m \<le> 11" "1 \<le> ?d" "?d \<le> 31" "0 \<le> ?y" "?y \<le> 9999"
    using days_in_month_bounds[of ?y ?m] assms by (auto simp: valid_civil_def iso_day_def)
  have val: "dec_val (dec_string 4 (nat ?y)) = nat ?y" "dec_val (dec_string 2 (nat (?m + 1))) = nat (?m + 1)"
    "dec_val (dec_string 2 (nat ?d)) = nat ?d"
    using r by (auto simp: dec_val_dec_string)
  have "drop 8 (iso_date n) = dec_string 2 (nat ?d)" "take 2 (drop 5 (iso_date n)) = dec_string 2 (nat (?m + 1))"
    "take 4 (iso_date n) = dec_string 4 (nat ?y)" "length (iso_date n) = 10"
    "iso_date n ! 4 = CHR ''-''" "iso_date n ! 7 = CHR ''-''"
    by (simp_all add: iso_date_eq[OF assms] nth_append del: dec_string.simps)
  with val v r show ?thesis
    by (auto simp: midnight_def Let_def list_all_iff civil_of_day(2) dest: dec_string_digits
        simp del: dec_string.simps)
qed

section \<open>What the date functions compute\<close>

lemma diff_days: "(n * ms_per_day - m * ms_per_day) div ms_per_day = n - m"
proof -
  have "ms_per_day \<noteq> 0" by (simp add: ms_per_day_def)
  then show ?thesis by (simp flip: left_diff_distrib)
qed

lemma time_clip_Some: "time_clip t = Some t' \<Longrightarrow> t' = t \<and> \<bar>t\<bar> \<le> 8640000000000000"
  by (auto simp: time_clip_def split: if_splits)

lemma utc_of_string_Some:
  assumes "utc_of_string s = Some t"
  obtains n where "t = n * ms_per_day" and "\<bar>n\<bar> \<le> 100000000"
proof -
  from assms obtain n where n: "time_clip (n * ms_per_day) = Some t"
    by (auto simp: utc_of_string_def date_utc_def Let_def split: option.splits)
  from time_clip_Some[OF this] have "t = n * ms_per_day" "\<bar>n\<bar> \<le> 100000000"
    by (auto simp: ms_per_day_def abs_mult)
  then show ?thesis by (rule that)
qed

lemma calculateDaysRequested_Fin:
  assumes "calculateDaysRequested s e = Fin q"
  obtains k where "q = of_int k" and "1 \<le> k" and "k \<le> 200000001"
proof -
  from assms obtain a b where ab: "utc_of_string s = Some a" "utc_of_string e = Some b"
    and q: "q = of_int (max ((b - a) div ms_per_day + 1) 1)"
    by (auto simp: calculateDaysRequested_def split: option.splits)
  from ab(1) obtain m where a: "a = m * ms_per_day" "\<bar>m\<bar> \<le> 100000000" by (rule utc_of_string_Some)
  from ab(2) obtain n where b: "b = n * ms_per_day" "\<bar>n\<bar> \<le> 100000000" by (rule utc_of_string_Some)
  have "(b - a) div ms_per_day = n - m"
    unfolding a b by (rule diff_days)
  then show ?thesis using q a b by (intro that) auto
qed

lemma calculateDaysRequested_days:
  assumes "utc_of_string s = Some (m * ms_per_day)" and "utc_of_string e = Some (n * ms_per_day)" and "m \<le> n"
  shows "calculateDaysRequested s e = Fin (of_int (n - m + 1))"
  using assms by (simp add: calculateDaysRequested_def diff_days)

lemma calculateDaysRequested_NaN:
  "utc_of_string s = None \<or> utc_of_string e = None \<Longrightarrow> calculateDaysRequested s e = NaN"
  by (auto simp: calculateDaysRequested_def split: option.splits)

lemma datesOverlap_sym: "datesOverlap a b c d = datesOverlap c d a b"
  by (auto simp: datesOverlap_def Let_def)

lemma datesOverlap_days:
  assumes "utc_of_string s1 = Some (a1 * ms_per_day)" "utc_of_string e1 = Some (b1 * ms_per_day)"
    and "utc_of_string s2 = Some (a2 * ms_per_day)" "utc_of_string e2 = Some (b2 * ms_per_day)"
  shows "datesOverlap s1 e1 s2 e2 \<longleftrightarrow> a1 \<le> b2 \<and> a2 \<le> b1"
  using assms by (simp add: datesOverlap_def ms_per_day_def)

declare count_days.simps [simp del]

lemma count_days_stop: "end' < c \<Longrightarrow> count_days P c end' acc = acc"
  by (subst count_days.simps) simp

lemma count_days_days:
  "count_days P (m * ms_per_day) (n * ms_per_day) acc =
     acc + card {k \<in> {m..n}. P (k * ms_per_day)}"
proof (induction "nat (n + 1 - m)" arbitrary: m acc)
  case 0
  then show ?case by (simp add: count_days_stop ms_per_day_def)
next
  case (Suc j)
  then have le: "m \<le> n" and j: "j = nat (n + 1 - (m + 1))" by auto
  have step: "(m + 1) * ms_per_day = m * ms_per_day + ms_per_day" by (simp add: algebra_simps)
  have "count_days P (m * ms_per_day) (n * ms_per_day) acc =
      count_days P ((m + 1) * ms_per_day) (n * ms_per_day) (if P (m * ms_per_day) then acc + 1 else acc)"
    using le by (subst count_days.simps) (simp add: step ms_per_day_def)
  also have "\<dots> = (if P (m * ms_per_day) then acc + 1 else acc)
      + card {k \<in> {m + 1..n}. P (k * ms_per_day)}"
    by (rule Suc.hyps(1)[OF j])
  also have "\<dots> = acc + card {k \<in> {m..n}. P (k * ms_per_day)}"
  proof -
    define S where "S = {k \<in> {m + 1..n}. P (k * ms_per_day)}"
    have "finite S" unfolding S_def by (rule finite_subset[of _ "{m + 1..n}"]) auto
    moreover have "m \<notin> S" by (simp add: S_def)
    moreover have "{k \<in> {m..n}. P (k * ms_per_day)} = (if P (m * ms_per_day) then insert m S else S)"
      using le by (auto simp: S_def order_le_less)
    ultimately show ?thesis unfolding S_def[symmetric] by simp
  qed
  finally show ?case .
qed

lemma getUTCDay_day [simp]: "getUTCDay (n * ms_per_day) = (n + 4) mod 7"
  by (simp add: getUTCDay_def)

text \<open>
  C17: a day printed by \<open>toISOString().slice(0, 10)\<close> in the years 100 to 9999 is read back by
  \<open>split('-').map(Number)\<close> and \<open>Date.UTC(y, m - 1, d)\<close> as the same day.
\<close>

theorem iso_date_roundtrip:
  assumes "iso_day n"
  shows "utc_of_string (iso_slice (n * ms_per_day)) = Some (n * ms_per_day)"
  using assms by (rule utc_of_iso_date)

theorem iso_date_roundtrip_witness:
  "iso_day 19782 \<and> utc_of_string (iso_slice (19782 * ms_per_day)) = Some (19782 * ms_per_day)"
proof -
  have "iso_day 19782" by code_simp
  from iso_date_roundtrip[OF this] this show ?thesis by blast
qed

text \<open>
  C18: for two dates written as YYYY-MM-DD in order, \<open>calculateDaysRequested\<close> is the number of
  calendar days of the closed range, and two such ranges overlap for \<open>datesOverlap\<close> exactly when
  some day belongs to both.
\<close>

theorem days_and_overlap_count_days:
  assumes "iso_day a" "iso_day b" "a \<le> b" and "iso_day c" "iso_day d" "c \<le> d"
  shows "calculateDaysRequested (iso_slice (a * ms_per_day)) (iso_slice (b * ms_per_day))
           = Fin (of_nat (card {a..b}))
     \<and> (datesOverlap (iso_slice (a * ms_per_day)) (iso_slice (b * ms_per_day))
           (iso_slice (c * ms_per_day)) (iso_slice (d * ms_per_day)) \<longleftrightarrow> {a..b} \<inter> {c..d} \<noteq> {})"
proof
  note u = assms(1,2,4,5)[THEN utc_of_iso_date]
  show "calculateDaysRequested (iso_slice (a * ms_per_day)) (iso_slice (b * ms_per_day))
      = Fin (of_nat (card {a..b}))"
    using calculateDaysRequested_days[OF u(1,2) assms(3)] assms(3) by (simp add: of_nat_nat)
  have "a \<le> d \<and> c \<le> b \<longleftrightarrow> {a..b} \<inter> {c..d} \<noteq> {}"
    using assms(3,6) by (auto simp: max_def min_def)
  then show "datesOverlap (iso_slice (a * ms_per_day)) (iso_slice (b * ms_per_day))
      (iso_slice (c * ms_per_day)) (iso_slice (d * ms_per_day)) \<longleftrightarrow> {a..b} \<inter> {c..d} \<noteq> {}"
    using datesOverlap_days[OF u] by simp
qed

theorem days_and_overlap_count_days_witness:
  "calculateDaysRequested (iso_slice (19782 * ms_per_day)) (iso_slice (19786 * ms_per_day))
     = Fin (of_nat (card {19782..19786 :: int}))
   \<and> (datesOverlap (iso_slice (19782 * ms_per_day)) (iso_slice (19786 * ms_per_day))
        (iso_slice (19786 * ms_per_day)) (iso_slice (19790 * ms_per_day))
        \<longleftrightarrow> {19782..19786 :: int} \<inter> {19786..19790} \<noteq> {})"
proof -
  have d: "iso_day 19782" "iso_day 19786" "iso_day 19790" by code_simp+
  show ?thesis
    by (rule days_and_overlap_count_days[OF d(1) d(2) _ d(2) d(3)]) simp_all
qed

text \<open>
  C19: for two dates written as YYYY-MM-DD, \<open>calculateWorkingDays\<close> terminates with the number of
  days of the range whose weekday is not listed as a weekend and whose date is not a holiday.
\<close>

theorem working_days_count:
  assumes "iso_day a" and "iso_day b"
  shows "calculateWorkingDays (iso_slice (a * ms_per_day)) (iso_slice (b * ms_per_day)) weekend holidays
     = card {n \<in> {a..b}. (n + 4) mod 7 \<notin> set weekend \<and> iso_slice (n * ms_per_day) \<notin> set holidays}"
  using assms by (simp add: calculateWorkingDays_def utc_of_iso_date count_days_days)

theorem working_days_count_witness:
  "calculateWorkingDays (iso_slice (19782 * ms_per_day)) (iso_slice (19786 * ms_per_day)) [0, 6] []
     = card {n \<in> {19782..19786}. (n + 4) mod 7 \<notin> set [0, 6] \<and> iso_slice (n * ms_per_day) \<notin> set []}"
proof -
  have "iso_day 19782" "iso_day 19786" by code_simp+
  then show ?thesis by (rule working_days_count)
qed

end
