(* ===== verification/Constants.thy ===== *)
theory Constants
  imports Js_String
begin

text \<open>
  The enumerations and tables of \<open>src/src/common/constants/index.js\<close>. The strings of an
  enumeration that only the program writes become constructors; \<open>LeaveType\<close> stays a list of
  strings, because the balance endpoints accept any leave type.
\<close>

definition LeaveType :: "string list" where
  "LeaveType = [''VACATION'', ''SICK'', ''PERSONAL'', ''MATERNITY'', ''PATERNITY'', ''BEREAVEMENT'']"

datatype request_status = PENDING | APPROVED | REJECTED | CANCELLED

datatype hcm_sync_status = SyncPENDING | SyncSUCCESS | SyncFAILED | SyncSKIPPED

datatype sync_type = REALTIME | BATCH

datatype sync_log_status = LogSTARTED | LogCOMPLETED | LogFAILED | LogPARTIAL

datatype circuit_state = CLOSED | OPEN | HALF_OPEN

text \<open>The error codes, with the two that the service writes as literals.\<close>

datatype error_code =
    INSUFFICIENT_BALANCE | BALANCE_CONFLICT | OVERLAPPING_REQUEST | IDEMPOTENCY_CONFLICT
  | INVALID_STATUS_TRANSITION | HCM_UNAVAILABLE | REQUEST_NOT_FOUND | BALANCE_NOT_FOUND
  | MISSING_IDEMPOTENCY_KEY | INVALID_DATE_RANGE

fun VALID_TRANSITIONS :: "request_status \<Rightarrow> request_status list" where
  "VALID_TRANSITIONS PENDING = [APPROVED, REJECTED, CANCELLED]"
| "VALID_TRANSITIONS APPROVED = []"
| "VALID_TRANSITIONS REJECTED = []"
| "VALID_TRANSITIONS CANCELLED = []"

text \<open>
  The transitions order the statuses: one status is below another when the table leads from it
  there in at most one transition. A second transition is never possible, so the relation is an
  order already, with the initial status at its bottom.
\<close>

instantiation request_status :: order_bot
begin

definition less_eq_request_status :: "request_status \<Rightarrow> request_status \<Rightarrow> bool" where
  "a \<le> b \<longleftrightarrow> b = a \<or> b \<in> set (VALID_TRANSITIONS a)"

definition less_request_status :: "request_status \<Rightarrow> request_status \<Rightarrow> bool" where
  "(a :: request_status) < b \<longleftrightarrow> a \<le> b \<and> \<not> b \<le> a"

definition bot_request_status :: request_status where
  "bot = PENDING"

instance
proof
  fix a b c :: request_status
  show "a < b \<longleftrightarrow> a \<le> b \<and> \<not> b \<le> a" by (rule less_request_status_def)
  show "a \<le> a" by (simp add: less_eq_request_status_def)
  show "a \<le> b \<Longrightarrow> b \<le> c \<Longrightarrow> a \<le> c" by (cases a) (auto simp: less_eq_request_status_def)
  show "a \<le> b \<Longrightarrow> b \<le> a \<Longrightarrow> a = b" by (cases a) (auto simp: less_eq_request_status_def)
  show "bot \<le> a" by (cases a) (simp_all add: less_eq_request_status_def bot_request_status_def)
qed

end

lemma decided_maximal: "a \<noteq> PENDING \<Longrightarrow> a \<le> b \<longleftrightarrow> b = a"
  by (cases a) (auto simp: less_eq_request_status_def)

lemma PENDING_least [simp]: "PENDING \<le> a"
  using bot_least[of a] by (simp add: bot_request_status_def)

text \<open>
  \<open>parseInt(process.env.X || '6') * 60 * 60 * 1000\<close>: an unset or empty variable takes the
  default, and text that is no number gives \<open>NaN\<close> (\<open>None\<close>).
\<close>

definition hours_ms :: "string \<Rightarrow> string option \<Rightarrow> int option" where
  "hours_ms dflt env =
     map_option (\<lambda>h. h * 60 * 60 * 1000)
       (js_parseInt (case env of None \<Rightarrow> dflt | Some v \<Rightarrow> if v = [] then dflt else v))"

definition STALE_BALANCE_THRESHOLD_MS :: "string option \<Rightarrow> int option" where
  "STALE_BALANCE_THRESHOLD_MS env = hours_ms ''6'' env"

definition IDEMPOTENCY_TTL_MS :: "string option \<Rightarrow> int option" where
  "IDEMPOTENCY_TTL_MS env = hours_ms ''24'' env"

lemma IDEMPOTENCY_TTL_default: "IDEMPOTENCY_TTL_MS None = Some 86400000"
  by (simp add: IDEMPOTENCY_TTL_MS_def hours_ms_def js_parseInt_def parse_int_def radix_digit_def is_digit_def is_space_def
      code_def dec_val_def digit_val_def)

lemma VALID_TRANSITIONS_PENDING: "t \<in> set (VALID_TRANSITIONS s) \<Longrightarrow> s = PENDING \<and> t \<noteq> PENDING"
  by (cases s) auto

end
