(* ===== verification/Hash_Util.thy ===== *)
theory Hash_Util
  imports Js_String "HOL-Library.Char_ord" "HOL-Library.List_Lexorder" "HOL-Library.Multiset"
begin

text \<open>
  \<open>src/src/common/utils/hash.util.js\<close>: the canonical form of a JSON value and its hash. An object
  is its own enumerable properties in their enumeration order, which for the objects the function
  builds puts the array-index keys first, in numeric order. SHA-256 and the decimal printing of a
  finite number come from the platform and are arguments.
\<close>

datatype json =
    JUndef
  | JNull
  | JBool bool
  | JNum js_num
  | JStr string
  | JArr "json list"
  | JObj "(string \<times> json) list"

record platform =
  sha256 :: "string \<Rightarrow> string"
  show_number :: "rat \<Rightarrow> string"

fun json_truthy :: "json \<Rightarrow> bool" where
  "json_truthy JUndef = False"
| "json_truthy JNull = False"
| "json_truthy (JBool b) = b"
| "json_truthy (JNum x) = js_truthy x"
| "json_truthy (JStr s) = (s \<noteq> [])"
| "json_truthy _ = True"

section \<open>Property order\<close>

text \<open>An array index: the canonical decimal form of an integer below \<open>2 ^ 32 - 1\<close>.\<close>

definition is_index :: "string \<Rightarrow> bool" where
  "is_index k \<longleftrightarrow> k \<noteq> [] \<and> list_all is_digit k \<and> (hd k = CHR ''0'' \<longrightarrow> length k = 1)
     \<and> dec_val k < 4294967295"

text \<open>
  The properties of \<open>acc\<close> after \<open>acc[key] = v\<close> for the sorted keys: index keys come first by
  value, the other keys in the order of the assignments. An assignment to \<open>__proto__\<close> sets the
  prototype and creates no property.
\<close>

definition arrange :: "(string \<times> 'v) list \<Rightarrow> (string \<times> 'v) list" where
  "arrange ps =
     (let qs = sort_key fst (filter (\<lambda>p. fst p \<noteq> ''__proto__'') ps)
      in sort_key (\<lambda>p. dec_val (fst p)) (filter (\<lambda>p. is_index (fst p)) qs)
         @ filter (\<lambda>p. \<not> is_index (fst p)) qs)"

primrec sortObjectKeys :: "json \<Rightarrow> json" where
  "sortObjectKeys JUndef = JUndef"
| "sortObjectKeys JNull = JNull"
| "sortObjectKeys (JBool b) = JBool b"
| "sortObjectKeys (JNum x) = JNum x"
| "sortObjectKeys (JStr s) = JStr s"
| "sortObjectKeys (JArr xs) = JArr (map sortObjectKeys xs)"
| "sortObjectKeys (JObj ps) = JObj (arrange (map (map_prod id sortObjectKeys) ps))"

section \<open>JSON.stringify\<close>

definition hex_digit :: "nat \<Rightarrow> char" where
  "hex_digit n = (if n < 10 then char_of (48 + n) else char_of (87 + n))"

definition json_escape :: "char \<Rightarrow> string" where
  "json_escape c =
     (let n = code c in
      if n = 34 then [char_of (92::nat), CHR 0x22]
      else if n = 92 then [char_of (92::nat), char_of (92::nat)]
      else if n = 8 then [char_of (92::nat), CHR ''b'']
      else if n = 12 then [char_of (92::nat), CHR ''f'']
      else if n = 10 then [char_of (92::nat), CHR ''n'']
      else if n = 13 then [char_of (92::nat), CHR ''r'']
      else if n = 9 then [char_of (92::nat), CHR ''t'']
      else if n < 32 then [char_of (92::nat)] @ ''u00'' @ [hex_digit (n div 16), hex_digit (n mod 16)]
      else [c])"

definition json_quote :: "string \<Rightarrow> string" where
  "json_quote s = [CHR 0x22] @ concat (map json_escape s) @ [CHR 0x22]"

fun join :: "string \<Rightarrow> string list \<Rightarrow> string" where
  "join sep [] = []"
| "join sep [w] = w"
| "join sep (w # v # ws) = w @ sep @ join sep (v # ws)"

text \<open>\<open>String(x)\<close> and template literals; an object has no \<open>toString\<close> of its own.\<close>

fun js_String :: "platform \<Rightarrow> json \<Rightarrow> string" where
  "js_String P JUndef = ''undefined''"
| "js_String P JNull = ''null''"
| "js_String P (JBool b) = (if b then ''true'' else ''false'')"
| "js_String P (JNum x) = (case x of
      Fin q \<Rightarrow> show_number P q | PInf \<Rightarrow> ''Infinity'' | NInf \<Rightarrow> ''-Infinity'' | NaN \<Rightarrow> ''NaN'')"
| "js_String P (JStr s) = s"
| "js_String P (JArr xs) = join '','' (map (\<lambda>j. if j = JNull \<or> j = JUndef then [] else js_String P j) xs)"
| "js_String P (JObj ps) = ''[object Object]''"

text \<open>\<open>None\<close> is \<open>undefined\<close>: skipped as a property, printed as \<open>null\<close> in an array.\<close>

primrec stringify :: "platform \<Rightarrow> json \<Rightarrow> string option" where
  "stringify P JUndef = None"
| "stringify P JNull = Some ''null''"
| "stringify P (JBool b) = Some (if b then ''true'' else ''false'')"
| "stringify P (JNum x) = Some (case x of Fin q \<Rightarrow> show_number P q | _ \<Rightarrow> ''null'')"
| "stringify P (JStr s) = Some (json_quote s)"
| "stringify P (JArr xs) =
     Some (''['' @ join '','' (map (\<lambda>o'. case o' of None \<Rightarrow> ''null'' | Some t \<Rightarrow> t) (map (stringify P) xs)) @ '']'')"
| "stringify P (JObj ps) =
     Some (''{'' @ join '','' (map (\<lambda>(k, o'). json_quote k @ '':'' @ the o')
        (filter (\<lambda>(k, o'). o' \<noteq> None) (map (map_prod id (stringify P)) ps))) @ ''}'')"

text \<open>Hashing \<open>undefined\<close> makes \<open>update(undefined)\<close> throw: \<open>None\<close>.\<close>

definition hashObject :: "platform \<Rightarrow> json \<Rightarrow> string option" where
  "hashObject P obj = map_option (sha256 P) (stringify P (sortObjectKeys obj))"

section \<open>The canonical form does not depend on the order of properties\<close>

text \<open>Two JSON values that differ in the enumeration order of properties only, at any depth.\<close>

inductive same_json :: "json \<Rightarrow> json \<Rightarrow> bool" where
  same_undef: "same_json JUndef JUndef"
| same_null: "same_json JNull JNull"
| same_bool: "same_json (JBool b) (JBool b)"
| same_num: "same_json (JNum x) (JNum x)"
| same_str: "same_json (JStr s) (JStr s)"
| same_arr: "list_all2 same_json xs ys \<Longrightarrow> same_json (JArr xs) (JArr ys)"
| same_obj: "distinct (map fst ps) \<Longrightarrow> list_all2 (\<lambda>p q. fst p = fst q \<and> same_json (snd p) (snd q)) ps rs
     \<Longrightarrow> mset qs = mset rs \<Longrightarrow> same_json (JObj ps) (JObj qs)"

lemma sort_key_perm:
  assumes "mset ps = mset qs" and "distinct (map fst ps)"
  shows "sort_key fst ps = sort_key fst (qs :: (string \<times> 'v) list)"
proof -
  have d: "distinct (map fst qs)" using assms by (metis mset_eq_imp_distinct_iff mset_map)
  have "set ps = set qs" using assms(1) by (metis set_mset_mset)
  then show ?thesis
    using assms(2) d
    by (intro map_sorted_distinct_set_unique[of fst])
       (auto simp: distinct_map sort_key_simps inj_on_def)
qed

lemma arrange_perm:
  assumes "mset ps = mset qs" and "distinct (map fst ps)"
  shows "arrange ps = arrange qs"
proof -
  let ?f = "filter (\<lambda>p. fst p \<noteq> ''__proto__'')"
  have "mset (?f ps) = mset (?f qs)" using assms(1) by (simp add: mset_filter)
  moreover have "distinct (map fst (?f ps))" using assms(2) by (rule distinct_map_filter)
  ultimately have "sort_key fst (?f ps) = sort_key fst (?f qs)" by (rule sort_key_perm)
  then show ?thesis by (simp add: arrange_def)
qed

lemma sortObjectKeys_same: "same_json a b \<Longrightarrow> sortObjectKeys a = sortObjectKeys b"
proof (induction rule: same_json.induct)
  case (same_arr xs ys)
  then show ?case by (auto simp: list_all2_conv_all_nth intro!: nth_equalityI)
next
  case (same_obj ps rs qs)
  let ?m = "map (map_prod id sortObjectKeys)"
  have "?m ps = ?m rs"
    using same_obj.IH by (intro nth_equalityI) (auto simp: list_all2_conv_all_nth prod_eq_iff)
  moreover have "mset (?m rs) = mset (?m qs)" using same_obj.hyps by simp
  moreover have "distinct (map fst (?m ps))" using same_obj.hyps by (simp add: comp_def)
  ultimately show ?case using arrange_perm[of "?m ps" "?m qs"] by simp
qed auto

text \<open>
  C20: hashing is canonical: JSON values that differ only in the order in which the properties of
  their objects were written, at any depth, have the same hash.
\<close>

theorem hashObject_canonical:
  assumes "same_json a b"
  shows "hashObject P a = hashObject P b"
  using sortObjectKeys_same[OF assms] by (simp add: hashObject_def)

definition sample_platform :: platform where
  "sample_platform = \<lparr>sha256 = (\<lambda>s. s), show_number = (\<lambda>_. ''0'')\<rparr>"

theorem hashObject_canonical_witness:
  "same_json (JObj [(''b'', JNull), (''a'', JObj [(''y'', JBool True), (''x'', JNull)])])
             (JObj [(''a'', JObj [(''x'', JNull), (''y'', JBool True)]), (''b'', JNull)])
   \<and> hashObject sample_platform (JObj [(''b'', JNull), (''a'', JObj [(''y'', JBool True), (''x'', JNull)])])
     = hashObject sample_platform (JObj [(''a'', JObj [(''x'', JNull), (''y'', JBool True)]), (''b'', JNull)])"
proof -
  let ?i = "JObj [(''y'', JBool True), (''x'', JNull)]" and ?j = "JObj [(''x'', JNull), (''y'', JBool True)]"
  have ij: "same_json ?i ?j"
    by (rule same_obj[where rs = "[(''y'', JBool True), (''x'', JNull)]"]) (auto intro: same_json.intros)
  have "same_json (JObj [(''b'', JNull), (''a'', ?i)]) (JObj [(''a'', ?j), (''b'', JNull)])"
    by (rule same_obj[where rs = "[(''b'', JNull), (''a'', ?j)]"]) (auto intro: same_json.intros ij)
  from hashObject_canonical[OF this, of sample_platform] this show ?thesis by blast
qed

end
