(* ===== verification/Store.thy ===== *)
theory Store
  imports Date_Util Constants Hash_Util "HOL-Library.Multiset"
begin

text \<open>
  The entities (\<open>employee-balance.entity.js\<close>, \<open>timeoff-request.entity.js\<close>,
  \<open>idempotency-record.entity.js\<close>, \<open>sync-log.entity.js\<close>) as records, the state of a running
  service (the four tables, the hidden state of the database connection, the callbacks handed to
  \<open>setImmediate\<close>, the flag of a running batch), and the TypeORM operations the services call, as a record of functions that is
  an argument of every service operation. What the services rely on of TypeORM and SQLite is
  stated by the locales \<open>repository_laws\<close> and \<open>orm_laws\<close>: a statement either takes effect as
  documented or fails with a driver error and no effect, writes that succeed satisfy the column and
  uniqueness constraints the entities declare, and a transaction that does not commit leaves the
  tables as they were. \<open>mem_orm\<close> is an in-memory instance of these laws.
\<close>

section \<open>Entities\<close>

record employee_balance =
  b_id :: "string option"
  b_employeeId :: string
  b_locationId :: string
  b_leaveType :: string
  totalBalance :: js_num
  availableBalance :: js_num
  pendingBalance :: js_num
  usedBalance :: js_num
  carryOverBalance :: js_num
  hcmTotalBalance :: js_num
  hcmLastSync :: "int option"
  hcmVersion :: "string option"
  hasDiscrepancy :: bool
  discrepancyAmount :: "js_num option"
  b_version :: nat
  b_createdAt :: int
  b_updatedAt :: int

record timeoff_request =
  r_id :: "string option"
  r_idempotencyKey :: string
  r_employeeId :: string
  r_locationId :: string
  r_leaveType :: string
  startDate :: string
  endDate :: string
  daysRequested :: js_num
  r_status :: request_status
  requestedBy :: string
  approvedBy :: "string option"
  approvedAt :: "int option"
  rejectionReason :: "string option"
  r_notes :: "string option"
  hcmValidated :: bool
  hcmSyncStatus :: hcm_sync_status
  hcmSyncAttempts :: nat
  hcmLastSyncAt :: "int option"
  r_version :: nat
  r_createdAt :: int
  r_updatedAt :: int

text \<open>The response body of a request: \<open>TimeOffService._serializeRequest\<close>.\<close>

record request_view =
  v_id :: "string option"
  v_idempotencyKey :: string
  v_employeeId :: string
  v_locationId :: string
  v_leaveType :: string
  v_startDate :: string
  v_endDate :: string
  v_daysRequested :: js_num
  v_status :: request_status
  v_requestedBy :: string
  v_approvedBy :: "string option"
  v_approvedAt :: "int option"
  v_rejectionReason :: "string option"
  v_notes :: "string option"
  v_hcmValidated :: bool
  v_hcmSyncStatus :: hcm_sync_status
  v_version :: nat
  v_createdAt :: int
  v_updatedAt :: int

record idempotency_record =
  i_id :: "string option"
  i_idempotencyKey :: string
  i_employeeId :: string
  requestHash :: string
  responseStatus :: nat
  responseBody :: request_view
  expiresAt :: "int option"
  i_createdAt :: int

text \<open>A per-record error of a batch; the catch-all error has a message only.\<close>

record sync_error =
  e_employeeId :: "string option"
  e_locationId :: "string option"
  e_leaveType :: "string option"
  e_message :: string

record sync_log =
  l_id :: "string option"
  syncType :: sync_type
  l_status :: sync_log_status
  l_employeeId :: "string option"
  l_locationId :: "string option"
  recordsProcessed :: nat
  recordsUpdated :: nat
  recordsFailed :: nat
  errorDetails :: "sync_error list option"
  startedAt :: int
  completedAt :: "int option"

section \<open>State and exceptions\<close>

record tables =
  balances :: "employee_balance list"
  requests :: "timeoff_request list"
  idempotency :: "idempotency_record list"
  sync_logs :: "sync_log list"

text \<open>Work handed to \<open>setImmediate\<close>: it runs after the handler, in its own turn.\<close>

datatype job =
    NotifyHcm "string option" string string string js_num
  | NotifyApproval timeoff_request string
  | RunBatchSync

record 'h node =
  tables :: tables
  conn :: 'h
  jobs :: "job list"
  batchRunning :: bool

text \<open>
  What is thrown: a Nest HTTP exception with its status and error code, an error of the database
  driver with its \<open>code\<close> and \<open>message\<close>, or another JavaScript error with its message.
\<close>

datatype exc = HttpException nat error_code | DriverError "string option" string | JsError string

fun orm_error :: "exc \<Rightarrow> bool" where
  "orm_error (HttpException st c) = False"
| "orm_error _ = True"

type_synonym ('h, 'a) service = "('h node, exc, 'a) sem"

section \<open>The TypeORM operations\<close>

record 'r find_options =
  q_where :: "'r \<Rightarrow> bool"
  q_order :: "'r \<Rightarrow> 'r \<Rightarrow> bool"
  q_take :: "js_num option"
  q_skip :: "js_num option"
  q_lock :: "string option"

text \<open>
  The page of the ordered rows that a query asks for. \<open>None\<close> for a \<open>take\<close> or \<open>skip\<close> that is not a
  positive or natural number, where the documentation promises nothing.
\<close>

fun js_nat :: "js_num \<Rightarrow> nat option" where
  "js_nat (Fin x) = (if 0 \<le> x \<and> of_int \<lfloor>x\<rfloor> = x then Some (nat \<lfloor>x\<rfloor>) else None)"
| "js_nat _ = None"

definition page :: "'r find_options \<Rightarrow> 'r list \<Rightarrow> 'r list option" where
  "page q ys = (case (case q_skip q of None \<Rightarrow> Some 0 | Some x \<Rightarrow> js_nat x) of
      None \<Rightarrow> None
    | Some m \<Rightarrow> (case q_take q of
        None \<Rightarrow> Some (drop m ys)
      | Some x \<Rightarrow> (case js_nat x of
          None \<Rightarrow> None
        | Some n \<Rightarrow> if n = 0 then None else Some (take n (drop m ys)))))"

record ('h, 'r) repository =
  repo_find :: "'r find_options \<Rightarrow> ('h, 'r list) service"
  repo_count :: "('r \<Rightarrow> bool) \<Rightarrow> ('h, nat) service"
  repo_save :: "'r \<Rightarrow> ('h, 'r) service"
  repo_update :: "string \<Rightarrow> ('r \<Rightarrow> 'r) \<Rightarrow> ('h, unit) service"

text \<open>\<open>findAndCount\<close>: the page and the number of matching rows.\<close>

definition findAndCount :: "('h, 'r) repository \<Rightarrow> 'r find_options \<Rightarrow> ('h, 'r list \<times> nat) service" where
  "findAndCount R q =
     bindM (repo_find R q) (\<lambda>xs. bindM (repo_count R (q_where q)) (\<lambda>n. returnM (xs, n)))"

record 'h orm =
  db_type :: "string option"
  balanceRepository :: "('h, employee_balance) repository"
  requestRepository :: "('h, timeoff_request) repository"
  idempotencyRepository :: "('h, idempotency_record) repository"
  syncLogRepository :: "('h, sync_log) repository"
  tx_begin :: "('h, unit) service"
  tx_commit :: "('h, unit) service"
  tx_rollback :: "'h node \<Rightarrow> 'h node"

definition where_all :: "('r \<Rightarrow> bool) \<Rightarrow> 'r find_options" where
  "where_all p = \<lparr>q_where = p, q_order = (\<lambda>_ _. True), q_take = None, q_skip = None, q_lock = None\<rparr>"

definition findOne :: "('h, 'r) repository \<Rightarrow> 'r find_options \<Rightarrow> ('h, 'r option) service" where
  "findOne R q =
     bindM (repo_find R (q\<lparr>q_take := Some (Fin 1)\<rparr>))
       (\<lambda>xs. returnM (case xs of [] \<Rightarrow> None | x # _ \<Rightarrow> Some x))"

text \<open>
  \<open>_getWriteLock\<close> of both services: no lock clause on SQLite, whose connection serialises the
  transactions.
\<close>

definition getWriteLock :: "'h orm \<Rightarrow> string option" where
  "getWriteLock D = (if db_type D = Some ''sqlite'' then None else Some ''pessimistic_write'')"

text \<open>
  \<open>dataSource.transaction(body)\<close>: begin, run the body, commit; an exception of the body or of the
  commit rolls back and is thrown again.
\<close>

definition transaction :: "'h orm \<Rightarrow> ('h, 'a) service \<Rightarrow> ('h, 'a) service" where
  "transaction D body = (\<lambda>s. case tx_begin D s of
      (Inl e, s1) \<Rightarrow> (Inl e, s1)
    | (Inr _, s1) \<Rightarrow> (case body s1 of
        (Inl e, s2) \<Rightarrow> (Inl e, tx_rollback D s2)
      | (Inr x, s2) \<Rightarrow> (case tx_commit D s2 of
          (Inl e, s3) \<Rightarrow> (Inl e, tx_rollback D s3)
        | (Inr _, s3) \<Rightarrow> (Inr x, s3))))"

lemma transaction_cases:
  assumes "transaction D body s = (r, t)"
  obtains (begin_fails) e where "tx_begin D s = (Inl e, t)" and "r = Inl e"
  | (body_fails) u s1 e s2 where "tx_begin D s = (Inr u, s1)" and "body s1 = (Inl e, s2)"
      and "r = Inl e" and "t = tx_rollback D s2"
  | (commit_fails) u s1 x s2 e s3 where "tx_begin D s = (Inr u, s1)" and "body s1 = (Inr x, s2)"
      and "tx_commit D s2 = (Inl e, s3)" and "r = Inl e" and "t = tx_rollback D s3"
  | (commits) u s1 x s2 v where "tx_begin D s = (Inr u, s1)" and "body s1 = (Inr x, s2)"
      and "tx_commit D s2 = (Inr v, t)" and "r = Inr x"
  using assms by (auto simp: transaction_def split: prod.splits sum.splits)

text \<open>\<open>setImmediate\<close> appends a callback to the queue of the event loop.\<close>

definition setImmediate :: "job \<Rightarrow> ('h, unit) service" where
  "setImmediate j = (\<lambda>s. (Inr (), s\<lparr>jobs := jobs s @ [j]\<rparr>))"

section \<open>Columns and constraints\<close>

text \<open>
  The columns the database manages (\<open>PrimaryGeneratedColumn\<close>, \<open>VersionColumn\<close>,
  \<open>CreateDateColumn\<close>, \<open>UpdateDateColumn\<close>) are blanked by the \<open>core\<close> of a row; two rows with the
  same core agree on every column the program writes. The constraints are those the entities
  declare: the primary key, \<open>unique\<close> columns, and \<open>NOT NULL\<close> decimals (a \<open>NaN\<close> is bound as
  \<open>NULL\<close>).
\<close>

definition core_balance :: "employee_balance \<Rightarrow> employee_balance" where
  "core_balance b = b\<lparr>b_id := None, b_version := 0, b_createdAt := 0, b_updatedAt := 0\<rparr>"

definition core_request :: "timeoff_request \<Rightarrow> timeoff_request" where
  "core_request r = r\<lparr>r_id := None, r_version := 0, r_createdAt := 0, r_updatedAt := 0\<rparr>"

definition core_idempotency :: "idempotency_record \<Rightarrow> idempotency_record" where
  "core_idempotency i = i\<lparr>i_id := None, i_createdAt := 0\<rparr>"

definition core_log :: "sync_log \<Rightarrow> sync_log" where
  "core_log l = l\<lparr>l_id := None\<rparr>"

definition balance_key :: "employee_balance \<Rightarrow> string \<times> string \<times> string" where
  "balance_key b = (b_employeeId b, b_locationId b, b_leaveType b)"

definition balances_ok :: "employee_balance list \<Rightarrow> bool" where
  "balances_ok bs \<longleftrightarrow> distinct (map balance_key bs) \<and>
     list_all (\<lambda>b. NaN \<notin> {totalBalance b, availableBalance b, pendingBalance b, usedBalance b,
       carryOverBalance b, hcmTotalBalance b}) bs"

definition requests_ok :: "timeoff_request list \<Rightarrow> bool" where
  "requests_ok rs \<longleftrightarrow> distinct (map r_idempotencyKey rs) \<and> list_all (\<lambda>r. daysRequested r \<noteq> NaN) rs"

definition idempotency_ok :: "idempotency_record list \<Rightarrow> bool" where
  "idempotency_ok is \<longleftrightarrow> distinct (map i_idempotencyKey is)"

definition ids_ok :: "('r \<Rightarrow> string option) \<Rightarrow> 'r list \<Rightarrow> bool" where
  "ids_ok ident rs \<longleftrightarrow> distinct (map ident rs) \<and> None \<notin> set (map ident rs)"

definition wf_tables :: "tables \<Rightarrow> bool" where
  "wf_tables T \<longleftrightarrow> ids_ok b_id (balances T) \<and> ids_ok r_id (requests T) \<and> ids_ok i_id (idempotency T) \<and>
     ids_ok l_id (sync_logs T) \<and> balances_ok (balances T) \<and> requests_ok (requests T) \<and>
     idempotency_ok (idempotency T)"

text \<open>The row set after a row has been saved: it replaces the row with its id or is added.\<close>

definition upsert :: "('r \<Rightarrow> string option) \<Rightarrow> 'r \<Rightarrow> 'r list \<Rightarrow> 'r list" where
  "upsert ident r rs =
     (if ident r \<in> ident ` set rs then map (\<lambda>x. if ident x = ident r then r else x) rs else rs @ [r])"

definition total_order :: "('r \<Rightarrow> 'r \<Rightarrow> bool) \<Rightarrow> bool" where
  "total_order le \<longleftrightarrow> transp le \<and> (\<forall>x y. le x y \<or> le y x)"

section \<open>What the services rely on\<close>

text \<open>
  \<open>keeps undo s t\<close>: the statement left the in-process state alone (event queue, batch flag) and
  what a rollback of the open transaction would restore.
\<close>

definition keeps :: "('h \<Rightarrow> tables) \<Rightarrow> 'h node \<Rightarrow> 'h node \<Rightarrow> bool" where
  "keeps undo s t \<longleftrightarrow> jobs t = jobs s \<and> batchRunning t = batchRunning s \<and> undo (conn t) = undo (conn s)"

lemma keeps_refl [simp]: "keeps undo s s"
  by (simp add: keeps_def)

lemma keeps_trans [trans]: "keeps undo s t \<Longrightarrow> keeps undo t u \<Longrightarrow> keeps undo s u"
  by (simp add: keeps_def)

locale repository_laws =
  fixes R :: "('h, 'r) repository"
    and rows :: "tables \<Rightarrow> 'r list"
    and put :: "'r list \<Rightarrow> tables \<Rightarrow> tables"
    and ident :: "'r \<Rightarrow> string option"
    and core :: "'r \<Rightarrow> 'r"
    and constraints :: "'r list \<Rightarrow> bool"
    and undo :: "'h \<Rightarrow> tables"
  assumes find_ok: "repo_find R q s = (Inr xs, t) \<Longrightarrow>
      tables t = tables s \<and> keeps undo s t \<and>
      (\<exists>ys. mset ys = mset (filter (q_where q) (rows (tables s))) \<and>
            (total_order (q_order q) \<longrightarrow> sorted_wrt (q_order q) ys) \<and>
            (\<forall>zs. page q ys = Some zs \<longrightarrow> xs = zs))"
    and find_err: "repo_find R q s = (Inl e, t) \<Longrightarrow> tables t = tables s \<and> keeps undo s t \<and> orm_error e"
    and count_ok: "repo_count R p s = (Inr n, t) \<Longrightarrow>
      tables t = tables s \<and> keeps undo s t \<and> n = length (filter p (rows (tables s)))"
    and count_err: "repo_count R p s = (Inl e, t) \<Longrightarrow> tables t = tables s \<and> keeps undo s t \<and> orm_error e"
    and save_ok: "repo_save R r s = (Inr r', t) \<Longrightarrow>
      tables t = put (upsert ident r' (rows (tables s))) (tables s) \<and> keeps undo s t \<and>
      core r' = core r \<and> ident r' \<noteq> None \<and> (ident r \<noteq> None \<longrightarrow> ident r' = ident r) \<and>
      (ident r = None \<longrightarrow> ident r' \<notin> ident ` set (rows (tables s))) \<and>
      constraints (upsert ident r' (rows (tables s)))"
    and save_err: "repo_save R r s = (Inl e, t) \<Longrightarrow> tables t = tables s \<and> keeps undo s t \<and> orm_error e"
    and update_ok: "repo_update R i f s = (Inr u, t) \<Longrightarrow> keeps undo s t \<and>
      (\<exists>rs. tables t = put rs (tables s) \<and> constraints rs \<and>
            list_all2 (\<lambda>x y. if ident x = Some i then core y = core (f x) \<and> ident y = ident x else y = x)
              (rows (tables s)) rs)"
    and update_err: "repo_update R i f s = (Inl e, t) \<Longrightarrow> tables t = tables s \<and> keeps undo s t \<and> orm_error e"
begin

lemma findOne_ok:
  assumes "findOne R q s = (Inr x, t)" and "q_skip q = None"
  shows "tables t = tables s \<and> keeps undo s t \<and>
    (case x of None \<Rightarrow> \<forall>r\<in>set (rows (tables s)). \<not> q_where q r
     | Some r \<Rightarrow> r \<in> set (rows (tables s)) \<and> q_where q r)"
proof -
  obtain xs where f: "repo_find R (q\<lparr>q_take := Some (Fin 1)\<rparr>) s = (Inr xs, t)"
    and x: "x = (case xs of [] \<Rightarrow> None | y # _ \<Rightarrow> Some y)"
    using assms by (auto simp: findOne_def elim!: bindM_Inr_E)
  from find_ok[OF f] assms(2) obtain ys
    where ys: "mset ys = mset (filter (q_where q) (rows (tables s)))" "xs = take 1 ys"
    by (auto simp: page_def)
  have "set ys = {r \<in> set (rows (tables s)). q_where q r}"
    using arg_cong[OF ys(1), of set_mset] by auto
  then show ?thesis
    using find_ok[OF f] ys(2) x by (cases ys) auto
qed

lemma findOne_err: "findOne R q s = (Inl e, t) \<Longrightarrow> tables t = tables s \<and> keeps undo s t \<and> orm_error e"
  by (auto simp: findOne_def dest: find_err elim!: bindM_Inl_E)

end

locale orm_laws =
  bal: repository_laws "balanceRepository D" balances "\<lambda>xs t. t\<lparr>balances := xs\<rparr>" b_id core_balance
    balances_ok undo +
  req: repository_laws "requestRepository D" requests "\<lambda>xs t. t\<lparr>requests := xs\<rparr>" r_id core_request
    requests_ok undo +
  idem: repository_laws "idempotencyRepository D" idempotency "\<lambda>xs t. t\<lparr>idempotency := xs\<rparr>" i_id
    core_idempotency idempotency_ok undo +
  log: repository_laws "syncLogRepository D" sync_logs "\<lambda>xs t. t\<lparr>sync_logs := xs\<rparr>" l_id core_log
    "\<lambda>_. True" undo
  for D :: "'h orm" and undo :: "'h \<Rightarrow> tables" +
  assumes begin_ok: "tx_begin D s = (Inr u, t) \<Longrightarrow>
      tables t = tables s \<and> jobs t = jobs s \<and> undo (conn t) = tables s"
    and begin_err: "tx_begin D s = (Inl e, t) \<Longrightarrow> tables t = tables s \<and> jobs t = jobs s \<and> orm_error e"
    and commit_ok: "tx_commit D s = (Inr u, t) \<Longrightarrow> tables t = tables s \<and> jobs t = jobs s"
    and commit_err: "tx_commit D s = (Inl e, t) \<Longrightarrow> keeps undo s t \<and> orm_error e"
    and rollback_ok: "tables (tx_rollback D s) = undo (conn s) \<and> jobs (tx_rollback D s) = jobs s"
begin

text \<open>A transaction that returns ran its body to the end; one that throws leaves the tables alone.\<close>

lemma transaction_Inr:
  assumes "transaction D body s = (Inr x, t)"
  obtains s1 s2 where "tables s1 = tables s" and "jobs s1 = jobs s" and "undo (conn s1) = tables s"
    and "body s1 = (Inr x, s2)" and "tables t = tables s2" and "jobs t = jobs s2"
  using assms
proof (cases rule: transaction_cases)
  case (commits u s1 y s2 v)
  with begin_ok[OF commits(1)] commit_ok[OF commits(3)] show ?thesis
    by (auto intro: that)
qed auto

lemma transaction_Inl:
  assumes tx: "transaction D body s = (Inl e, t)"
    and body: "\<And>s1 r s2. body s1 = (r, s2) \<Longrightarrow> undo (conn s2) = undo (conn s1)"
  shows "tables t = tables s \<and>
    (orm_error e \<or> (\<exists>s1 s2. tables s1 = tables s \<and> jobs s1 = jobs s \<and> body s1 = (Inl e, s2)))"
  using tx
proof (cases rule: transaction_cases)
  case (begin_fails e')
  then show ?thesis using begin_err[OF begin_fails(1)] by auto
next
  case (body_fails u s1 e' s2)
  then show ?thesis
    using begin_ok[OF body_fails(1)] body[OF body_fails(2)] rollback_ok[of s2] by auto
next
  case (commit_fails u s1 y s2 e' s3)
  then show ?thesis
    using begin_ok[OF commit_fails(1)] body[OF commit_fails(2)] commit_err[OF commit_fails(3)]
      rollback_ok[of s3]
    by (auto simp: keeps_def)
qed auto

end

section \<open>Saved rows\<close>

lemma set_upsert: "set (upsert ident r rs) = insert r {x \<in> set rs. ident x \<noteq> ident r}"
  by (auto simp: upsert_def rev_image_eqI)

lemma upsert_new: "ident r \<notin> ident ` set rs \<Longrightarrow> upsert ident r rs = rs @ [r]"
  by (simp add: upsert_def)

lemma upsert_old:
  "x \<in> set rs \<Longrightarrow> ident r = ident x \<Longrightarrow>
     upsert ident r rs = map (\<lambda>y. if ident y = ident x then r else y) rs"
  by (auto simp: upsert_def)

lemma ids_ok_Some: "ids_ok ident rs \<Longrightarrow> x \<in> set rs \<Longrightarrow> ident x \<noteq> None"
  by (force simp: ids_ok_def)

lemma ids_ok_upsert:
  assumes "ids_ok ident rs" and "ident r \<noteq> None"
  shows "ids_ok ident (upsert ident r rs)"
proof (cases "ident r \<in> ident ` set rs")
  case True
  then have "map ident (upsert ident r rs) = map ident rs"
    by (auto simp: upsert_def)
  with assms show ?thesis
    by (simp add: ids_ok_def)
next
  case False
  with assms show ?thesis
    by (auto simp: ids_ok_def upsert_new)
qed

text \<open>Replacing one row of a table changes a sum over the rows by the difference of its terms.\<close>

lemma sum_list_upsert_old:
  fixes f :: "'r \<Rightarrow> 'n::ab_group_add"
  assumes "distinct (map ident rs)" and "x \<in> set rs" and "ident r = ident x"
  shows "sum_list (map f (upsert ident r rs)) = sum_list (map f rs) - f x + f r"
  unfolding upsert_old[of x rs ident r, OF assms(2,3)] using assms(1,2)
proof (induction rs)
  case (Cons y rs)
  show ?case
  proof (cases "x = y")
    case True
    with Cons.prems have "map (\<lambda>y. if ident y = ident x then r else y) rs = rs"
      by (intro map_idI) (auto simp: rev_image_eqI)
    with True show ?thesis by (simp add: algebra_simps)
  next
    case False
    with Cons.prems have "ident y \<noteq> ident x" by auto
    with Cons False show ?thesis by (simp add: algebra_simps)
  qed
qed simp

section \<open>An in-memory instance\<close>

text \<open>
  Tables in memory, the snapshot of the open transaction as the first part of the connection state
  (the second is whatever else the connection part of a node holds), generated ids
  longer than any in use. It satisfies the laws, which shows that they can hold together, and
  evaluates, which the concrete runs of the development use.
\<close>

fun insort_by :: "('r \<Rightarrow> 'r \<Rightarrow> bool) \<Rightarrow> 'r \<Rightarrow> 'r list \<Rightarrow> 'r list" where
  "insort_by le x [] = [x]"
| "insort_by le x (y # ys) = (if le x y then x # y # ys else y # insort_by le x ys)"

definition sort_by :: "('r \<Rightarrow> 'r \<Rightarrow> bool) \<Rightarrow> 'r list \<Rightarrow> 'r list" where
  "sort_by le xs = foldr (insort_by le) xs []"

lemma mset_insort_by [simp]: "mset (insort_by le x ys) = add_mset x (mset ys)"
  by (induction ys) auto

lemma mset_sort_by [simp]: "mset (sort_by le xs) = mset xs"
  by (induction xs) (auto simp: sort_by_def)

lemma set_insort_by [simp]: "set (insort_by le x ys) = insert x (set ys)"
  by (induction ys) auto

lemma sorted_insort_by:
  "total_order le \<Longrightarrow> sorted_wrt le ys \<Longrightarrow> sorted_wrt le (insort_by le x ys)"
  by (induction ys) (auto simp: total_order_def dest: transpD)

lemma sorted_sort_by: "total_order le \<Longrightarrow> sorted_wrt le (sort_by le xs)"
  by (induction xs) (auto simp: sort_by_def sorted_insort_by)

definition fresh_id :: "string option list \<Rightarrow> string" where
  "fresh_id is = replicate (Suc (sum_list (map (\<lambda>i. case i of None \<Rightarrow> 0 | Some s \<Rightarrow> length s) is))) CHR ''a''"

lemma fresh_id: "Some (fresh_id is) \<notin> set is"
proof
  assume "Some (fresh_id is) \<in> set is"
  then have "length (fresh_id is) \<le> sum_list (map (\<lambda>i. case i of None \<Rightarrow> 0 | Some s \<Rightarrow> length s) is)"
    by (intro member_le_sum_list) (force simp: image_iff, simp)
  then show False
    by (simp add: fresh_id_def)
qed

definition mem_repo ::
  "(tables \<Rightarrow> 'r list) \<Rightarrow> ('r list \<Rightarrow> tables \<Rightarrow> tables) \<Rightarrow> ('r \<Rightarrow> string option) \<Rightarrow>
   (string option \<Rightarrow> 'r \<Rightarrow> 'r) \<Rightarrow> ('r \<Rightarrow> 'r) \<Rightarrow> ('r list \<Rightarrow> bool) \<Rightarrow> (tables \<times> 'x, 'r) repository" where
  "mem_repo rows put ident set_ident touch constraints =
    \<lparr>repo_find = (\<lambda>q s. (Inr (let ys = sort_by (q_order q) (filter (q_where q) (rows (tables s)))
        in case page q ys of None \<Rightarrow> ys | Some zs \<Rightarrow> zs), s)),
     repo_count = (\<lambda>p s. (Inr (length (filter p (rows (tables s)))), s)),
     repo_save = (\<lambda>r s.
       let r' = touch (if ident r = None then set_ident (Some (fresh_id (map ident (rows (tables s))))) r else r);
           rs = upsert ident r' (rows (tables s))
       in if constraints rs then (Inr r', s\<lparr>tables := put rs (tables s)\<rparr>)
          else (Inl (DriverError (Some ''SQLITE_CONSTRAINT'') ''SQLITE_CONSTRAINT: constraint failed''), s)),
     repo_update = (\<lambda>i f s.
       let rs = map (\<lambda>x. if ident x = Some i then touch (set_ident (Some i) (f x)) else x) (rows (tables s))
       in if constraints rs then (Inr (), s\<lparr>tables := put rs (tables s)\<rparr>)
          else (Inl (DriverError (Some ''SQLITE_CONSTRAINT'') ''SQLITE_CONSTRAINT: constraint failed''), s))\<rparr>"

lemma mem_repository_laws:
  assumes "\<And>i r. ident (set_ident i r) = i" and "\<And>i r. core (set_ident i r) = core r"
    and "\<And>r. ident (touch r) = ident r" and "\<And>r. core (touch r) = core r"
  shows "repository_laws (mem_repo rows put ident set_ident touch constraints) rows put ident core constraints fst"
proof (unfold_locales, goal_cases)
  case (1 q s xs t)
  then show ?case
    by (auto simp: mem_repo_def Let_def sorted_sort_by split: option.splits
        intro!: exI[of _ "sort_by (q_order q) (filter (q_where q) (rows (tables s)))"])
next
  case (5 r s r' t)
  then show ?case
    using fresh_id[of "map ident (rows (tables s))"]
    by (auto simp: mem_repo_def Let_def keeps_def assms split: if_splits)
next
  case (7 i f s u t)
  then show ?case
    by (auto simp: mem_repo_def Let_def keeps_def assms list_all2_map2 list.rel_refl_strong
        split: if_splits intro!: list_all2_refl)
qed (auto simp: mem_repo_def Let_def split: if_splits)

definition mem_orm :: "(tables \<times> 'x) orm" where
  "mem_orm =
    \<lparr>db_type = Some ''sqlite'',
     balanceRepository = mem_repo balances (\<lambda>xs t. t\<lparr>balances := xs\<rparr>) b_id (\<lambda>i b. b\<lparr>b_id := i\<rparr>)
       (\<lambda>b. b\<lparr>b_version := Suc (b_version b)\<rparr>) balances_ok,
     requestRepository = mem_repo requests (\<lambda>xs t. t\<lparr>requests := xs\<rparr>) r_id (\<lambda>i r. r\<lparr>r_id := i\<rparr>)
       (\<lambda>r. r\<lparr>r_version := Suc (r_version r)\<rparr>) requests_ok,
     idempotencyRepository = mem_repo idempotency (\<lambda>xs t. t\<lparr>idempotency := xs\<rparr>) i_id
       (\<lambda>i r. r\<lparr>i_id := i\<rparr>) (\<lambda>r. r) idempotency_ok,
     syncLogRepository = mem_repo sync_logs (\<lambda>xs t. t\<lparr>sync_logs := xs\<rparr>) l_id (\<lambda>i l. l\<lparr>l_id := i\<rparr>)
       (\<lambda>l. l) (\<lambda>_. True),
     tx_begin = (\<lambda>s. (Inr (), s\<lparr>conn := (tables s, snd (conn s))\<rparr>)),
     tx_commit = (\<lambda>s. (Inr (), s)),
     tx_rollback = (\<lambda>s. s\<lparr>tables := fst (conn s)\<rparr>)\<rparr>"

interpretation mem: orm_laws mem_orm fst
proof (rule orm_laws.intro)
  show "repository_laws (balanceRepository mem_orm) balances (\<lambda>xs t. t\<lparr>balances := xs\<rparr>) b_id core_balance
      balances_ok fst"
    by (simp add: mem_orm_def, rule mem_repository_laws) (simp_all add: core_balance_def)
  show "repository_laws (requestRepository mem_orm) requests (\<lambda>xs t. t\<lparr>requests := xs\<rparr>) r_id core_request
      requests_ok fst"
    by (simp add: mem_orm_def, rule mem_repository_laws) (simp_all add: core_request_def)
  show "repository_laws (idempotencyRepository mem_orm) idempotency (\<lambda>xs t. t\<lparr>idempotency := xs\<rparr>) i_id
      core_idempotency idempotency_ok fst"
    by (simp add: mem_orm_def, rule mem_repository_laws) (simp_all add: core_idempotency_def)
  show "repository_laws (syncLogRepository mem_orm) sync_logs (\<lambda>xs t. t\<lparr>sync_logs := xs\<rparr>) l_id core_log
      (\<lambda>_. True) fst"
    by (simp add: mem_orm_def, rule mem_repository_laws) (simp_all add: core_log_def)
qed (unfold_locales, auto simp: mem_orm_def keeps_def)

end
