(* ===== verification/Balance_Service.thy ===== *)
theory Balance_Service
  imports Store
begin

text \<open>
  \<open>src/src/modules/balance/balance.service.js\<close> and its controller. The operations inside a
  transaction read a row, guard it and save it; the row each writes is a function of the row it read
  (\<open>deducted\<close>, \<open>released\<close>, \<open>finalized\<close>, \<open>hcm_updated\<close>). An abstract account over exact amounts is what
  these functions implement, as long as the amounts are on the grid where the arithmetic of doubles
  is exact. Every read of the clock is an argument.
\<close>

section \<open>The service\<close>

record balance_view =
  bv_id :: "string option"
  bv_employeeId :: string
  bv_locationId :: string
  bv_leaveType :: string
  bv_totalBalance :: js_num
  bv_availableBalance :: js_num
  bv_pendingBalance :: js_num
  bv_usedBalance :: js_num
  bv_carryOverBalance :: js_num
  bv_hcmLastSync :: "int option"
  bv_hcmVersion :: "string option"
  bv_hasDiscrepancy :: bool
  bv_discrepancyAmount :: "js_num option"
  stale :: bool
  bv_version :: nat
  bv_updatedAt :: int

definition serialize_balance :: "int option \<Rightarrow> int \<Rightarrow> employee_balance \<Rightarrow> balance_view" where
  "serialize_balance threshold now balance =
    \<lparr>bv_id = b_id balance,
     bv_employeeId = b_employeeId balance,
     bv_locationId = b_locationId balance,
     bv_leaveType = b_leaveType balance,
     bv_totalBalance = totalBalance balance,
     bv_availableBalance = availableBalance balance,
     bv_pendingBalance = pendingBalance balance,
     bv_usedBalance = usedBalance balance,
     bv_carryOverBalance = (if js_truthy (carryOverBalance balance) then carryOverBalance balance else Fin 0),
     bv_hcmLastSync = hcmLastSync balance,
     bv_hcmVersion = hcmVersion balance,
     bv_hasDiscrepancy = hasDiscrepancy balance,
     bv_discrepancyAmount = (case discrepancyAmount balance of
        Some a \<Rightarrow> if js_truthy a then Some a else None | None \<Rightarrow> None),
     stale = isStale now (hcmLastSync balance) threshold,
     bv_version = b_version balance,
     bv_updatedAt = b_updatedAt balance\<rparr>"

definition has_key :: "string \<Rightarrow> string \<Rightarrow> string \<Rightarrow> employee_balance \<Rightarrow> bool" where
  "has_key employeeId locationId leaveType b \<longleftrightarrow>
     b_employeeId b = employeeId \<and> b_locationId b = locationId \<and> b_leaveType b = leaveType"

definition getBalance ::
  "'h orm \<Rightarrow> int option \<Rightarrow> int \<Rightarrow> string \<Rightarrow> string \<Rightarrow> string \<Rightarrow> ('h, balance_view) service" where
  "getBalance D threshold now employeeId locationId leaveType =
     bindM (findOne (balanceRepository D) (where_all (has_key employeeId locationId leaveType)))
       (\<lambda>balance. case balance of
          None \<Rightarrow> throwM (HttpException 404 BALANCE_NOT_FOUND)
        | Some b \<Rightarrow> returnM (serialize_balance threshold now b))"

definition getBalancesForEmployee ::
  "'h orm \<Rightarrow> int option \<Rightarrow> int \<Rightarrow> string \<Rightarrow> string \<Rightarrow> ('h, balance_view list) service" where
  "getBalancesForEmployee D threshold now employeeId locationId =
     bindM (repo_find (balanceRepository D)
         (where_all (\<lambda>b. b_employeeId b = employeeId \<and> b_locationId b = locationId)
            \<lparr>q_order := (\<lambda>x y. b_leaveType x \<le> b_leaveType y)\<rparr>))
       (\<lambda>bs. returnM (map (serialize_balance threshold now) bs))"

definition deducted :: "js_num \<Rightarrow> employee_balance \<Rightarrow> employee_balance" where
  "deducted days b = b\<lparr>availableBalance := js_sub (availableBalance b) days,
                        pendingBalance := js_add (pendingBalance b) days\<rparr>"

definition released :: "js_num \<Rightarrow> employee_balance \<Rightarrow> employee_balance" where
  "released days b = b\<lparr>pendingBalance := js_sub (pendingBalance b) days,
                        availableBalance := js_add (availableBalance b) days\<rparr>"

definition finalized :: "js_num \<Rightarrow> employee_balance \<Rightarrow> employee_balance" where
  "finalized days b = b\<lparr>pendingBalance := js_sub (pendingBalance b) days,
                         usedBalance := js_add (usedBalance b) days\<rparr>"

definition atomicDeduct ::
  "'h orm \<Rightarrow> string \<Rightarrow> string \<Rightarrow> string \<Rightarrow> js_num \<Rightarrow> ('h, employee_balance) service" where
  "atomicDeduct D employeeId locationId leaveType days =
     bindM (findOne (balanceRepository D)
         (where_all (has_key employeeId locationId leaveType)\<lparr>q_lock := getWriteLock D\<rparr>))
       (\<lambda>balance. case balance of
          None \<Rightarrow> throwM (HttpException 404 BALANCE_NOT_FOUND)
        | Some b \<Rightarrow>
            if js_lt (availableBalance b) days then throwM (HttpException 422 INSUFFICIENT_BALANCE)
            else repo_save (balanceRepository D) (deducted days b))"

definition releaseFromPending ::
  "'h orm \<Rightarrow> string \<Rightarrow> string \<Rightarrow> string \<Rightarrow> js_num \<Rightarrow> ('h, unit) service" where
  "releaseFromPending D employeeId locationId leaveType days =
     bindM (findOne (balanceRepository D)
         (where_all (has_key employeeId locationId leaveType)\<lparr>q_lock := getWriteLock D\<rparr>))
       (\<lambda>balance. case balance of
          None \<Rightarrow> throwM (HttpException 404 BALANCE_NOT_FOUND)
        | Some b \<Rightarrow>
            if js_lt (pendingBalance b) days then throwM (HttpException 409 BALANCE_CONFLICT)
            else bindM (repo_save (balanceRepository D) (released days b)) (\<lambda>_. returnM ()))"

definition finalizeUsed ::
  "'h orm \<Rightarrow> string \<Rightarrow> string \<Rightarrow> string \<Rightarrow> js_num \<Rightarrow> ('h, unit) service" where
  "finalizeUsed D employeeId locationId leaveType days =
     bindM (findOne (balanceRepository D)
         (where_all (has_key employeeId locationId leaveType)\<lparr>q_lock := getWriteLock D\<rparr>))
       (\<lambda>balance. case balance of
          None \<Rightarrow> throwM (HttpException 404 BALANCE_NOT_FOUND)
        | Some b \<Rightarrow>
            if js_lt (pendingBalance b) days then throwM (HttpException 409 BALANCE_CONFLICT)
            else bindM (repo_save (balanceRepository D) (finalized days b)) (\<lambda>_. returnM ()))"

text \<open>
  \<open>balanceRepository.create({...})\<close>: the given columns over the defaults of the entity's class
  fields.
\<close>

definition new_balance :: "int \<Rightarrow> string \<Rightarrow> string \<Rightarrow> string \<Rightarrow> js_num \<Rightarrow> employee_balance" where
  "new_balance now employeeId locationId leaveType tot =
    \<lparr>b_id = None, b_employeeId = employeeId, b_locationId = locationId, b_leaveType = leaveType,
     totalBalance = tot, availableBalance = tot, pendingBalance = Fin 0, usedBalance = Fin 0,
     carryOverBalance = Fin 0, hcmTotalBalance = tot, hcmLastSync = Some now, hcmVersion = None,
     hasDiscrepancy = False, discrepancyAmount = None, b_version = 1, b_createdAt = 0, b_updatedAt = 0\<rparr>"

definition upsertBalance ::
  "'h orm \<Rightarrow> int option \<Rightarrow> int \<Rightarrow> string \<Rightarrow> string \<Rightarrow> string \<Rightarrow> js_num \<Rightarrow> ('h, balance_view) service" where
  "upsertBalance D threshold now employeeId locationId leaveType tot =
     bindM (findOne (balanceRepository D) (where_all (has_key employeeId locationId leaveType)))
       (\<lambda>existing. case existing of
          Some b \<Rightarrow> returnM (serialize_balance threshold now b)
        | None \<Rightarrow>
            bindM (repo_save (balanceRepository D) (new_balance now employeeId locationId leaveType tot))
              (\<lambda>saved. returnM (serialize_balance threshold now saved)))"

text \<open>
  The drift of an HCM total against the local one; the thresholds are the doubles nearest to
  \<open>0.001\<close> and \<open>-0.001\<close>.
\<close>

record hcm_data =
  hd_totalBalance :: js_num
  hd_version :: "string option"

definition local_total :: "employee_balance \<Rightarrow> js_num" where
  "local_total b = js_add (js_add (usedBalance b) (pendingBalance b)) (availableBalance b)"

definition hcm_updated :: "int \<Rightarrow> hcm_data \<Rightarrow> employee_balance \<Rightarrow> employee_balance" where
  "hcm_updated now hcmData b =
     (let hcmTotal = hd_totalBalance hcmData;
          drift = js_sub hcmTotal (local_total b);
          b1 = (if js_lt (js_of (1 / 1000)) drift
                then b\<lparr>availableBalance := js_add (availableBalance b) drift, totalBalance := hcmTotal\<rparr>
                else b);
          short = \<not> js_lt (js_of (1 / 1000)) drift \<and> js_lt drift (js_of (- (1 / 1000)))
      in b1\<lparr>hcmTotalBalance := hcmTotal,
            hcmLastSync := Some now,
            hcmVersion := (case hd_version hcmData of Some v \<Rightarrow> if v = [] then None else Some v | None \<Rightarrow> None),
            hasDiscrepancy := short,
            discrepancyAmount := (if short then Some (js_abs drift) else None)\<rparr>)"

definition applyHcmRealTimeUpdate ::
  "'h orm \<Rightarrow> int \<Rightarrow> string \<Rightarrow> string \<Rightarrow> string \<Rightarrow> hcm_data \<Rightarrow> ('h, employee_balance option) service" where
  "applyHcmRealTimeUpdate D now employeeId locationId leaveType hcmData =
     bindM (findOne (balanceRepository D)
         (where_all (has_key employeeId locationId leaveType)\<lparr>q_lock := getWriteLock D\<rparr>))
       (\<lambda>balance. case balance of
          None \<Rightarrow> returnM None
        | Some b \<Rightarrow> bindM (repo_save (balanceRepository D) (hcm_updated now hcmData b)) (\<lambda>r. returnM (Some r)))"

definition isBalanceStale ::
  "'h orm \<Rightarrow> int option \<Rightarrow> int \<Rightarrow> string \<Rightarrow> string \<Rightarrow> string \<Rightarrow> ('h, bool) service" where
  "isBalanceStale D threshold now employeeId locationId leaveType =
     bindM (findOne (balanceRepository D) (where_all (has_key employeeId locationId leaveType)))
       (\<lambda>balance. case balance of
          None \<Rightarrow> returnM True
        | Some b \<Rightarrow> returnM (isStale now (hcmLastSync b) threshold))"

text \<open>The admin endpoint parses the path parameter, and the service parses the number again.\<close>

definition seedBalance ::
  "'h orm \<Rightarrow> int option \<Rightarrow> int \<Rightarrow> string \<Rightarrow> string \<Rightarrow> string \<Rightarrow> string \<Rightarrow> ('h, balance_view) service" where
  "seedBalance D threshold now employeeId locationId leaveType tot =
     upsertBalance D threshold now employeeId locationId leaveType (js_parseFloat tot)"

section \<open>Accounts\<close>

text \<open>
  What a balance row stands for: an account of exact amounts with four operations. \<open>sound\<close> is the
  contract of \<open>BalanceService\<close>: nothing is negative and available, pending and used add up to the
  total.
\<close>

record account =
  acc_available :: rat
  acc_pending :: rat
  acc_used :: rat
  acc_total :: rat

definition sound :: "account \<Rightarrow> bool" where
  "sound a \<longleftrightarrow> 0 \<le> acc_available a \<and> 0 \<le> acc_pending a \<and> 0 \<le> acc_used a \<and>
     acc_available a + acc_pending a + acc_used a = acc_total a"

definition acc_reserve :: "rat \<Rightarrow> account \<Rightarrow> account" where
  "acc_reserve d a = a\<lparr>acc_available := acc_available a - d, acc_pending := acc_pending a + d\<rparr>"

definition acc_release :: "rat \<Rightarrow> account \<Rightarrow> account" where
  "acc_release d a = a\<lparr>acc_available := acc_available a + d, acc_pending := acc_pending a - d\<rparr>"

definition acc_finalize :: "rat \<Rightarrow> account \<Rightarrow> account" where
  "acc_finalize d a = a\<lparr>acc_used := acc_used a + d, acc_pending := acc_pending a - d\<rparr>"

definition acc_accrue :: "rat \<Rightarrow> account \<Rightarrow> account" where
  "acc_accrue x a = a\<lparr>acc_available := acc_available a + (x - acc_total a), acc_total := x\<rparr>"

fun amount :: "js_num \<Rightarrow> rat" where
  "amount (Fin x) = x"
| "amount _ = 0"

definition account_of :: "employee_balance \<Rightarrow> account" where
  "account_of b = \<lparr>acc_available = amount (availableBalance b), acc_pending = amount (pendingBalance b),
     acc_used = amount (usedBalance b), acc_total = amount (totalBalance b)\<rparr>"

text \<open>A row is exact when its amounts are finite and on the grid, and its account is sound.\<close>

definition on_grid :: "js_num \<Rightarrow> bool" where
  "on_grid x = (case x of Fin q \<Rightarrow> grid q | _ \<Rightarrow> False)"

definition exact :: "employee_balance \<Rightarrow> bool" where
  "exact b \<longleftrightarrow> on_grid (totalBalance b) \<and> on_grid (availableBalance b) \<and> on_grid (pendingBalance b) \<and>
     on_grid (usedBalance b) \<and> sound (account_of b)"

lemma on_gridE: "on_grid x \<Longrightarrow> (\<And>q. x = Fin q \<Longrightarrow> grid q \<Longrightarrow> P) \<Longrightarrow> P"
  by (auto simp: on_grid_def split: js_num.splits)

lemma on_grid_Fin [simp]: "on_grid (Fin q) = grid q"
  by (simp add: on_grid_def)

lemma exactE:
  assumes "exact b"
  obtains t a p u where "totalBalance b = Fin t" and "availableBalance b = Fin a"
    and "pendingBalance b = Fin p" and "usedBalance b = Fin u"
    and "grid t" and "grid a" and "grid p" and "grid u"
    and "0 \<le> a" and "0 \<le> p" and "0 \<le> u" and "a + p + u = t"
  using assms by (auto simp: exact_def sound_def account_of_def elim!: on_gridE)

lemma grid_bounded: "grid x \<Longrightarrow> grid y \<Longrightarrow> 0 \<le> x + y \<Longrightarrow> x + y \<le> t \<Longrightarrow> grid t \<Longrightarrow> grid (x + y)"
  by (rule grid_add) (auto simp: grid_def)

lemma grid_move:
  assumes "grid x" and "grid y" and "grid t" and "0 \<le> y" and "x + y \<le> t" and "grid d" and "0 \<le> d"
    and "\<not> js_lt (Fin x) (Fin d)"
  shows "d \<le> x" and "grid (x - d)" and "grid (y + d)"
    and "js_sub (Fin x) (Fin d) = Fin (x - d)" and "js_add (Fin y) (Fin d) = Fin (y + d)"
proof -
  show le: "d \<le> x" using assms(8) by simp
  then show g: "grid (x - d)" using assms by (intro grid_diff) (auto simp: grid_def)
  from le show h: "grid (y + d)" using assms by (intro grid_bounded[where t = t]) auto
  show "js_sub (Fin x) (Fin d) = Fin (x - d)" and "js_add (Fin y) (Fin d) = Fin (y + d)"
    using g h by (simp_all add: js_sub_def js_of_grid)
qed

subsection \<open>The rows implement the account\<close>

lemma deducted_refines:
  assumes "exact b" and "grid d" and "0 \<le> d" and "\<not> js_lt (availableBalance b) (Fin d)"
  shows "exact (deducted (Fin d) b) \<and> account_of (deducted (Fin d) b) = acc_reserve d (account_of b)"
proof -
  obtain t a p u where b: "totalBalance b = Fin t" "availableBalance b = Fin a"
    "pendingBalance b = Fin p" "usedBalance b = Fin u" "grid t" "grid a" "grid p" "grid u"
    "0 \<le> a" "0 \<le> p" "0 \<le> u" "a + p + u = t"
    using assms(1) by (rule exactE)
  then show ?thesis
    using grid_move[of a p t d] assms(2-4)
    by (simp add: deducted_def exact_def sound_def account_of_def acc_reserve_def)
qed

lemma released_refines:
  assumes "exact b" and "grid d" and "0 \<le> d" and "\<not> js_lt (pendingBalance b) (Fin d)"
  shows "exact (released (Fin d) b) \<and> account_of (released (Fin d) b) = acc_release d (account_of b)"
proof -
  obtain t a p u where b: "totalBalance b = Fin t" "availableBalance b = Fin a"
    "pendingBalance b = Fin p" "usedBalance b = Fin u" "grid t" "grid a" "grid p" "grid u"
    "0 \<le> a" "0 \<le> p" "0 \<le> u" "a + p + u = t"
    using assms(1) by (rule exactE)
  then show ?thesis
    using grid_move[of p a t d] assms(2-4)
    by (simp add: released_def exact_def sound_def account_of_def acc_release_def)
qed

lemma finalized_refines:
  assumes "exact b" and "grid d" and "0 \<le> d" and "\<not> js_lt (pendingBalance b) (Fin d)"
  shows "exact (finalized (Fin d) b) \<and> account_of (finalized (Fin d) b) = acc_finalize d (account_of b)"
proof -
  obtain t a p u where b: "totalBalance b = Fin t" "availableBalance b = Fin a"
    "pendingBalance b = Fin p" "usedBalance b = Fin u" "grid t" "grid a" "grid p" "grid u"
    "0 \<le> a" "0 \<le> p" "0 \<le> u" "a + p + u = t"
    using assms(1) by (rule exactE)
  then show ?thesis
    using grid_move[of p u t d] assms(2-4)
    by (simp add: finalized_def exact_def sound_def account_of_def acc_finalize_def)
qed

text \<open>On the grid the local total is the total, and the drift threshold separates whole steps.\<close>

lemma local_total_exact: "exact b \<Longrightarrow> local_total b = totalBalance b"
proof -
  assume "exact b"
  then obtain t a p u where b: "totalBalance b = Fin t" "availableBalance b = Fin a"
    "pendingBalance b = Fin p" "usedBalance b = Fin u" "grid t" "grid a" "grid p" "grid u"
    "0 \<le> a" "0 \<le> p" "0 \<le> u" "a + p + u = t"
    by (rule exactE)
  moreover have "grid (u + p)" using b by (intro grid_bounded[where t = t]) auto
  moreover have "u + p + a = t" using b by simp
  ultimately show ?thesis by (simp add: local_total_def js_simps)
qed

lemma fl_thousandth: "1 / 1024 < fl (1 / 1000)" "fl (1 / 1000) < 2 / 1024" "fl (- (1 / 1000)) = - fl (1 / 1000)"
  by code_simp+

lemma grid_step: "grid x \<Longrightarrow> y / 1024 < x \<Longrightarrow> (y + 1) / 1024 \<le> x" if "y = of_int k"
proof -
  assume "grid x" "y / 1024 < x"
  then obtain j where "x = of_int j / 1024" by (auto elim: gridE)
  with that \<open>y / 1024 < x\<close> show ?thesis
    by simp
qed

lemma drift_up: "grid x \<Longrightarrow> fl (1 / 1000) < x \<longleftrightarrow> 1 / 1000 < x"
  using fl_thousandth(1,2) grid_step[of 1 1 x] by (auto simp: field_simps)

lemma drift_down: "grid x \<Longrightarrow> x < fl (- (1 / 1000)) \<longleftrightarrow> x < - (1 / 1000)"
  using drift_up[of "- x"] fl_thousandth(3) by (auto simp: field_simps)

lemma js_of_thousandth: "js_of (1 / 1000) = Fin (fl (1 / 1000))" "js_of (- (1 / 1000)) = Fin (fl (- (1 / 1000)))"
  by code_simp+

lemma hcm_updated_refines:
  assumes "exact b" and "grid h" and "0 \<le> h" and "hd_totalBalance d = Fin h"
  shows "exact (hcm_updated now d b) \<and>
    account_of (hcm_updated now d b) =
      (if acc_total (account_of b) + 1 / 1000 < h then acc_accrue h (account_of b) else account_of b) \<and>
    hasDiscrepancy (hcm_updated now d b) = (h < acc_total (account_of b) - (1 / 1000))"
proof -
  obtain t a p u where b: "totalBalance b = Fin t" "availableBalance b = Fin a"
    "pendingBalance b = Fin p" "usedBalance b = Fin u" "grid t" "grid a" "grid p" "grid u"
    "0 \<le> a" "0 \<le> p" "0 \<le> u" "a + p + u = t"
    using assms(1) by (rule exactE)
  have g: "grid (h - t)"
    using b assms(2,3) by (intro grid_diff) (auto simp: grid_def)
  then have drift: "js_sub (hd_totalBalance d) (local_total b) = Fin (h - t)"
    using b local_total_exact[OF assms(1)] assms(4) by (simp add: js_sub_def js_of_grid)
  have up: "1 / 1000 < h - t \<Longrightarrow> grid (a + (h - t))"
    using g b assms(2,3) by (intro grid_bounded[where t = h]) auto
  have row: "hcm_updated now d b =
      (if 1 / 1000 < h - t then b\<lparr>availableBalance := js_add (Fin a) (Fin (h - t)), totalBalance := Fin h\<rparr> else b)
        \<lparr>hcmTotalBalance := Fin h, hcmLastSync := Some now,
         hcmVersion := (case hd_version d of Some v \<Rightarrow> if v = [] then None else Some v | None \<Rightarrow> None),
         hasDiscrepancy := h - t < - (1 / 1000),
         discrepancyAmount := (if h - t < - (1 / 1000) then Some (Fin \<bar>h - t\<bar>) else None)\<rparr>"
    unfolding hcm_updated_def drift Let_def js_of_thousandth
    by (cases "1 / 1000 < h - t") (simp_all add: drift_up[OF g] drift_down[OF g] b assms(4))
  show ?thesis
  proof (cases "1 / 1000 < h - t")
    case True
    with row up b assms(2,3) show ?thesis
      by (simp add: js_of_grid exact_def sound_def account_of_def acc_accrue_def)
  next
    case False
    with row b assms(1) show ?thesis
      by (auto simp: exact_def sound_def account_of_def)
  qed
qed

section \<open>What the operations do to the tables\<close>

text \<open>
  \<open>moved undo f k s t b b'\<close>: the one row \<open>b\<close> with key \<open>k\<close> was replaced by \<open>b'\<close>, which is \<open>f b\<close> up to
  the columns the database manages, and nothing else changed.
\<close>

definition moved ::
  "('h \<Rightarrow> tables) \<Rightarrow> (employee_balance \<Rightarrow> employee_balance) \<Rightarrow> string \<times> string \<times> string \<Rightarrow>
   'h node \<Rightarrow> 'h node \<Rightarrow> employee_balance \<Rightarrow> employee_balance \<Rightarrow> bool" where
  "moved undo f k s t b b' \<longleftrightarrow>
     b \<in> set (balances (tables s)) \<and> balance_key b = k \<and>
     core_balance b' = core_balance (f b) \<and> b_id b' = b_id b \<and>
     tables t = (tables s)\<lparr>balances := upsert b_id b' (balances (tables s))\<rparr> \<and>
     balances_ok (upsert b_id b' (balances (tables s))) \<and> keeps undo s t"

text \<open>The read, guard and save that the operations share.\<close>

definition guarded_save ::
  "'h orm \<Rightarrow> string \<times> string \<times> string \<Rightarrow> (employee_balance \<Rightarrow> exc option) \<Rightarrow>
   (employee_balance \<Rightarrow> employee_balance) \<Rightarrow> ('h, employee_balance) service" where
  "guarded_save D k guard f = (case k of (employeeId, locationId, leaveType) \<Rightarrow>
     bindM (findOne (balanceRepository D)
         (where_all (has_key employeeId locationId leaveType)\<lparr>q_lock := getWriteLock D\<rparr>))
       (\<lambda>balance. case balance of
          None \<Rightarrow> throwM (HttpException 404 BALANCE_NOT_FOUND)
        | Some b \<Rightarrow> (case guard b of Some e \<Rightarrow> throwM e | None \<Rightarrow> repo_save (balanceRepository D) (f b))))"

lemma atomicDeduct_guarded:
  "atomicDeduct D e l lt d = guarded_save D (e, l, lt)
     (\<lambda>b. if js_lt (availableBalance b) d then Some (HttpException 422 INSUFFICIENT_BALANCE) else None) (deducted d)"
  by (simp add: atomicDeduct_def guarded_save_def if_distrib cong: option.case_cong if_cong)

lemma releaseFromPending_guarded:
  "releaseFromPending D e l lt d = bindM (guarded_save D (e, l, lt)
     (\<lambda>b. if js_lt (pendingBalance b) d then Some (HttpException 409 BALANCE_CONFLICT) else None) (released d)) (\<lambda>_. returnM ())"
  by (rule ext) (simp add: releaseFromPending_def guarded_save_def bindM_def split: prod.split sum.split option.split)

lemma finalizeUsed_guarded:
  "finalizeUsed D e l lt d = bindM (guarded_save D (e, l, lt)
     (\<lambda>b. if js_lt (pendingBalance b) d then Some (HttpException 409 BALANCE_CONFLICT) else None) (finalized d)) (\<lambda>_. returnM ())"
  by (rule ext) (simp add: finalizeUsed_def guarded_save_def bindM_def split: prod.split sum.split option.split)

lemma has_key_iff: "has_key e l lt b \<longleftrightarrow> balance_key b = (e, l, lt)"
  by (auto simp: has_key_def balance_key_def)

lemma where_all_sel [simp]:
  "q_where (where_all p) = p" "q_skip (where_all p) = None" "q_take (where_all p) = None"
  by (simp_all add: where_all_def)

context orm_laws
begin

lemma guarded_save_ok:
  assumes "guarded_save D k guard f s = (Inr b', t)" and "ids_ok b_id (balances (tables s))"
    and "\<And>b. b_id (f b) = b_id b"
  obtains b where "moved undo f k s t b b'" and "guard b = None"
proof -
  obtain e l lt where k: "k = (e, l, lt)" by (cases k) auto
  from assms(1) obtain x u where
    f: "findOne (balanceRepository D) (where_all (has_key e l lt)\<lparr>q_lock := getWriteLock D\<rparr>) s = (Inr x, u)"
    and r: "(case x of None \<Rightarrow> throwM (HttpException 404 BALANCE_NOT_FOUND)
        | Some b \<Rightarrow> (case guard b of Some e \<Rightarrow> throwM e | None \<Rightarrow> repo_save (balanceRepository D) (f b))) u = (Inr b', t)"
    by (auto simp: guarded_save_def k elim!: bindM_Inr_E)
  then obtain b where x: "x = Some b" "guard b = None" "repo_save (balanceRepository D) (f b) u = (Inr b', t)"
    by (auto split: option.splits)
  from bal.findOne_ok[OF f] x have u: "tables u = tables s" "keeps undo s u"
    "b \<in> set (balances (tables s))" "balance_key b = k"
    by (auto simp: has_key_iff k)
  with assms(2) have "b_id b \<noteq> None"
    by (blast dest: ids_ok_Some)
  with bal.save_ok[OF x(3)] u assms(3) have "moved undo f k s t b b'"
    by (auto simp: moved_def intro: keeps_trans)
  with x(2) show ?thesis by (rule that[rotated])
qed

lemma guarded_save_err:
  assumes "guarded_save D (e', l, lt) guard f s = (Inl e, t)"
  shows "tables t = tables s \<and> keeps undo s t \<and>
    (orm_error e \<or>
     e = HttpException 404 BALANCE_NOT_FOUND \<and> (e', l, lt) \<notin> balance_key ` set (balances (tables s)) \<or>
     (\<exists>b\<in>set (balances (tables s)). balance_key b = (e', l, lt) \<and> guard b = Some e))"
proof -
  from assms show ?thesis
    unfolding guarded_save_def prod.case
  proof (cases rule: bindM_Inl_E)
    case head
    with bal.findOne_err[OF head] show ?thesis by blast
  next
    case (rest x u)
    note f = bal.findOne_ok[OF rest(1)]
    show ?thesis
    proof (cases x)
      case None
      with rest f show ?thesis by (auto simp: has_key_iff)
    next
      case (Some b)
      show ?thesis
      proof (cases "guard b")
        case None
        with rest Some f bal.save_err[of "f b" u e t] show ?thesis by (auto intro: keeps_trans)
      next
        case (Some e2)
        with rest \<open>x = Some b\<close> f show ?thesis by (auto simp: has_key_iff)
      qed
    qed
  qed
qed

end

section \<open>Correctness\<close>

text \<open>An employee with ten days, three of them pending, for the concrete runs.\<close>

definition sample_balance :: employee_balance where
  "sample_balance = (new_balance 0 ''E1'' ''L1'' ''VACATION'' (Fin 10))
     \<lparr>b_id := Some ''b1'', availableBalance := Fin 7, pendingBalance := Fin 3\<rparr>"

definition sample_node :: "(tables \<times> unit) node" where
  "sample_node = (let T = \<lparr>balances = [sample_balance], requests = [], idempotency = [], sync_logs = []\<rparr>
     in \<lparr>tables = T, conn = (T, ()), jobs = [], batchRunning = False\<rparr>)"

lemma sample_node_ok:
  "wf_tables (tables sample_node)" "\<forall>b\<in>set (balances (tables sample_node)). exact b"
  by code_simp+

lemma core_balanceD:
  assumes "core_balance x = core_balance y"
  shows "account_of x = account_of y" and "exact x = exact y" and "balance_key x = balance_key y"
    and "availableBalance x = availableBalance y" and "pendingBalance x = pendingBalance y"
    and "usedBalance x = usedBalance y" and "totalBalance x = totalBalance y"
    and "hasDiscrepancy x = hasDiscrepancy y"
proof -
  have *: "availableBalance x = availableBalance y" "pendingBalance x = pendingBalance y"
    "usedBalance x = usedBalance y" "totalBalance x = totalBalance y"
    "b_employeeId x = b_employeeId y" "b_locationId x = b_locationId y" "b_leaveType x = b_leaveType y"
    "hasDiscrepancy x = hasDiscrepancy y"
    using assms by (cases x; cases y; simp add: core_balance_def)+
  then show "account_of x = account_of y" and "exact x = exact y" and "balance_key x = balance_key y"
    and "availableBalance x = availableBalance y" and "pendingBalance x = pendingBalance y"
    and "usedBalance x = usedBalance y" and "totalBalance x = totalBalance y"
    and "hasDiscrepancy x = hasDiscrepancy y"
    by (simp_all add: account_of_def exact_def balance_key_def)
qed

lemma balance_key_rows [simp]:
  "balance_key (deducted d b) = balance_key b" "balance_key (released d b) = balance_key b"
  "balance_key (finalized d b) = balance_key b" "balance_key (hcm_updated now h b) = balance_key b"
  "b_id (deducted d b) = b_id b" "b_id (released d b) = b_id b" "b_id (finalized d b) = b_id b"
  "b_id (hcm_updated now h b) = b_id b"
  by (simp_all add: balance_key_def deducted_def released_def finalized_def hcm_updated_def Let_def)

lemma key_unique:
  "balances_ok bs \<Longrightarrow> x \<in> set bs \<Longrightarrow> y \<in> set bs \<Longrightarrow> balance_key x = balance_key y \<Longrightarrow> x = y"
  by (auto simp: balances_ok_def distinct_map inj_on_def)

lemma exact_not_lt:
  "exact b \<Longrightarrow> js_lt (availableBalance b) (Fin d) \<longleftrightarrow> acc_available (account_of b) < d"
  "exact b \<Longrightarrow> js_lt (pendingBalance b) (Fin d) \<longleftrightarrow> acc_pending (account_of b) < d"
  by (auto elim!: exactE simp: account_of_def)

text \<open>
  The contract of a guarded move of \<open>d\<close> days on an account: what is returned and what changes, on
  success, when the row is missing, when the guard refuses, and when the database fails.
\<close>

definition account_step ::
  "(account \<Rightarrow> rat) \<Rightarrow> (rat \<Rightarrow> account \<Rightarrow> account) \<Rightarrow> exc \<Rightarrow> string \<times> string \<times> string \<Rightarrow> rat \<Rightarrow>
   'h node \<Rightarrow> exc option \<Rightarrow> 'h node \<Rightarrow> bool" where
  "account_step src move refusal k d s r t \<longleftrightarrow> (case r of
     None \<Rightarrow> \<exists>b\<in>set (balances (tables s)). \<exists>b'. balance_key b = k \<and> d \<le> src (account_of b) \<and>
       exact b' \<and> account_of b' = move d (account_of b) \<and> balance_key b' = k \<and> b_id b' = b_id b \<and>
       tables t = (tables s)\<lparr>balances := upsert b_id b' (balances (tables s))\<rparr>
   | Some e \<Rightarrow> tables t = tables s \<and>
       (orm_error e \<or> e = HttpException 404 BALANCE_NOT_FOUND \<and> k \<notin> balance_key ` set (balances (tables s))
        \<or> e = refusal \<and> (\<exists>b\<in>set (balances (tables s)). balance_key b = k \<and> src (account_of b) < d)))"

fun thrown :: "'e + 'a \<Rightarrow> 'e option" where
  "thrown (Inl e) = Some e"
| "thrown (Inr x) = None"

context orm_laws
begin

lemma guarded_save_account:
  assumes run: "guarded_save D (e, l, lt) guard f s = (r, t)"
    and wf: "wf_tables (tables s)" and ex: "\<forall>b\<in>set (balances (tables s)). exact b"
    and id: "\<And>b. b_id (f b) = b_id b" "\<And>b. balance_key (f b) = balance_key b"
    and guard: "\<And>b. exact b \<Longrightarrow> guard b = (if src (account_of b) < d then Some refusal else None)"
    and f: "\<And>b. exact b \<Longrightarrow> guard b = None \<Longrightarrow> exact (f b) \<and> account_of (f b) = move d (account_of b)"
  shows "account_step src move refusal (e, l, lt) d s (thrown r) t"
proof (cases r)
  case (Inr b')
  from run[unfolded Inr] obtain b where m: "moved undo f (e, l, lt) s t b b'" and g: "guard b = None"
    using wf id(1) by (auto simp: wf_tables_def elim!: guarded_save_ok)
  from m ex have b: "exact b" "b \<in> set (balances (tables s))" "balance_key b = (e, l, lt)"
    by (auto simp: moved_def)
  from m have "core_balance b' = core_balance (f b)" by (simp add: moved_def)
  note c = core_balanceD[OF this]
  show ?thesis
    using Inr m b g guard[OF b(1)] f[OF b(1) g] c id(2)[of b]
    by (auto simp: account_step_def moved_def split: if_splits intro!: bexI[of _ b] exI[of _ b'])
next
  case (Inl err)
  from guarded_save_err[OF run[unfolded Inl]] ex guard show ?thesis
    by (fastforce simp: account_step_def Inl split: if_splits)
qed

end

lemma thrown_bind_unit: "bindM m (\<lambda>_. returnM ()) s = (r, t) \<Longrightarrow> \<exists>r'. m s = (r', t) \<and> thrown r = thrown r'"
  by (auto simp: bindM_def split: prod.splits sum.splits)

text \<open>
  C14: \<open>atomicDeduct\<close> implements the reservation of days on an account: when it returns, the
  employee's row had at least that many available days and is replaced by one whose account has them
  moved to pending, still sound; it answers 404 when there is no such row and 422 when fewer days are
  available, and whenever it throws no table has changed.
\<close>

theorem atomicDeduct_reserves:
  assumes "orm_laws D undo" and "wf_tables (tables s)" and "\<forall>b\<in>set (balances (tables s)). exact b"
    and "grid d" and "0 \<le> d" and "atomicDeduct D e l lt (Fin d) s = (r, t)"
  shows "account_step acc_available acc_reserve (HttpException 422 INSUFFICIENT_BALANCE) (e, l, lt) d s (thrown r) t"
  using assms(6) unfolding atomicDeduct_guarded
  by (rule orm_laws.guarded_save_account[OF assms(1) _ assms(2,3)])
    (use assms(4,5) deducted_refines in \<open>auto simp: exact_not_lt split: if_splits\<close>)

theorem atomicDeduct_reserves_witness:
  "account_step acc_available acc_reserve (HttpException 422 INSUFFICIENT_BALANCE)
     (''E1'', ''L1'', ''VACATION'') 5 sample_node
     (thrown (fst (atomicDeduct mem_orm ''E1'' ''L1'' ''VACATION'' (Fin 5) sample_node)))
     (snd (atomicDeduct mem_orm ''E1'' ''L1'' ''VACATION'' (Fin 5) sample_node))
   \<and> thrown (fst (atomicDeduct mem_orm ''E1'' ''L1'' ''VACATION'' (Fin 5) sample_node)) = None"
proof
  show "account_step acc_available acc_reserve (HttpException 422 INSUFFICIENT_BALANCE)
     (''E1'', ''L1'', ''VACATION'') 5 sample_node
     (thrown (fst (atomicDeduct mem_orm ''E1'' ''L1'' ''VACATION'' (Fin 5) sample_node)))
     (snd (atomicDeduct mem_orm ''E1'' ''L1'' ''VACATION'' (Fin 5) sample_node))"
    by (rule atomicDeduct_reserves[OF mem.orm_laws_axioms sample_node_ok _ _ prod.collapse[symmetric]]) simp_all
  show "thrown (fst (atomicDeduct mem_orm ''E1'' ''L1'' ''VACATION'' (Fin 5) sample_node)) = None"
    by code_simp
qed

text \<open>
  C15: \<open>releaseFromPending\<close> and \<open>finalizeUsed\<close> implement the two ways a reservation ends: the days
  go from pending back to available, or from pending to used. Both refuse with 409 when fewer days
  are pending, answer 404 when the row is missing, and leave the tables alone when they throw.
\<close>

theorem pending_days_settle:
  assumes "orm_laws D undo" and "wf_tables (tables s)" and "\<forall>b\<in>set (balances (tables s)). exact b"
    and "grid d" and "0 \<le> d"
    and "releaseFromPending D e l lt (Fin d) s = (r1, t1)" and "finalizeUsed D e l lt (Fin d) s = (r2, t2)"
  shows "account_step acc_pending acc_release (HttpException 409 BALANCE_CONFLICT) (e, l, lt) d s (thrown r1) t1
    \<and> account_step acc_pending acc_finalize (HttpException 409 BALANCE_CONFLICT) (e, l, lt) d s (thrown r2) t2"
proof -
  obtain r1' r2' where m: "guarded_save D (e, l, lt)
      (\<lambda>b. if js_lt (pendingBalance b) (Fin d) then Some (HttpException 409 BALANCE_CONFLICT) else None)
      (released (Fin d)) s = (r1', t1)" "thrown r1 = thrown r1'"
    "guarded_save D (e, l, lt)
      (\<lambda>b. if js_lt (pendingBalance b) (Fin d) then Some (HttpException 409 BALANCE_CONFLICT) else None)
      (finalized (Fin d)) s = (r2', t2)" "thrown r2 = thrown r2'"
    using thrown_bind_unit[OF assms(6)[unfolded releaseFromPending_guarded]]
      thrown_bind_unit[OF assms(7)[unfolded finalizeUsed_guarded]] by blast
  have "account_step acc_pending acc_release (HttpException 409 BALANCE_CONFLICT) (e, l, lt) d s (thrown r1') t1"
    by (rule orm_laws.guarded_save_account[OF assms(1) m(1) assms(2,3)])
      (use assms(4,5) released_refines in \<open>auto simp: exact_not_lt split: if_splits\<close>)
  moreover have "account_step acc_pending acc_finalize (HttpException 409 BALANCE_CONFLICT) (e, l, lt) d s (thrown r2') t2"
    by (rule orm_laws.guarded_save_account[OF assms(1) m(3) assms(2,3)])
      (use assms(4,5) finalized_refines in \<open>auto simp: exact_not_lt split: if_splits\<close>)
  ultimately show ?thesis by (simp add: m)
qed

theorem pending_days_settle_witness:
  "account_step acc_pending acc_release (HttpException 409 BALANCE_CONFLICT)
     (''E1'', ''L1'', ''VACATION'') 3 sample_node
     (thrown (fst (releaseFromPending mem_orm ''E1'' ''L1'' ''VACATION'' (Fin 3) sample_node)))
     (snd (releaseFromPending mem_orm ''E1'' ''L1'' ''VACATION'' (Fin 3) sample_node))
   \<and> account_step acc_pending acc_finalize (HttpException 409 BALANCE_CONFLICT)
     (''E1'', ''L1'', ''VACATION'') 3 sample_node
     (thrown (fst (finalizeUsed mem_orm ''E1'' ''L1'' ''VACATION'' (Fin 3) sample_node)))
     (snd (finalizeUsed mem_orm ''E1'' ''L1'' ''VACATION'' (Fin 3) sample_node))"
  by (rule pending_days_settle[OF mem.orm_laws_axioms sample_node_ok _ _
        prod.collapse[symmetric] prod.collapse[symmetric]]) simp_all

context orm_laws
begin

lemma applyHcmRealTimeUpdate_ok:
  assumes "applyHcmRealTimeUpdate D now e l lt h s = (Inr r, t)" and "ids_ok b_id (balances (tables s))"
  shows "case r of None \<Rightarrow> (e, l, lt) \<notin> balance_key ` set (balances (tables s)) \<and> tables t = tables s
    | Some b' \<Rightarrow> \<exists>b. moved undo (hcm_updated now h) (e, l, lt) s t b b'"
proof -
  from assms(1) obtain x u where
    f: "findOne (balanceRepository D) (where_all (has_key e l lt)\<lparr>q_lock := getWriteLock D\<rparr>) s = (Inr x, u)"
    and k: "(case x of None \<Rightarrow> returnM None
        | Some b \<Rightarrow> bindM (repo_save (balanceRepository D) (hcm_updated now h b)) (\<lambda>r. returnM (Some r))) u = (Inr r, t)"
    by (auto simp: applyHcmRealTimeUpdate_def elim!: bindM_Inr_E)
  note u = bal.findOne_ok[OF f]
  show ?thesis
  proof (cases x)
    case None
    with k u show ?thesis by (auto simp: has_key_iff)
  next
    case (Some b)
    with k obtain b' where b': "repo_save (balanceRepository D) (hcm_updated now h b) u = (Inr b', t)" "r = Some b'"
      by (auto elim!: bindM_Inr_E)
    from u Some assms(2) have "b_id b \<noteq> None" by (auto dest: ids_ok_Some)
    with bal.save_ok[OF b'(1)] u Some b'(2) show ?thesis
      by (auto simp: moved_def has_key_iff intro: keeps_trans)
  qed
qed

end

text \<open>
  C16: \<open>applyHcmRealTimeUpdate\<close> never takes days away: it answers \<open>null\<close> without a row; else the
  saved row's account is unchanged or, when the HCM total is more than a thousandth above the local
  total, has the difference added to available and the HCM total as its total. A lower HCM total
  only raises the discrepancy flag.
\<close>

theorem hcm_update_never_reduces:
  assumes "orm_laws D undo" and "wf_tables (tables s)" and "\<forall>b\<in>set (balances (tables s)). exact b"
    and "grid h" and "0 \<le> h" and "hd_totalBalance hcmData = Fin h"
    and "applyHcmRealTimeUpdate D now e l lt hcmData s = (Inr r, t)"
  shows "(case r of
      None \<Rightarrow> (e, l, lt) \<notin> balance_key ` set (balances (tables s)) \<and> tables t = tables s
    | Some b' \<Rightarrow> \<exists>b\<in>set (balances (tables s)). balance_key b = (e, l, lt) \<and> exact b' \<and>
        account_of b' = (if acc_total (account_of b) + 1 / 1000 < h then acc_accrue h (account_of b) else account_of b) \<and>
        acc_available (account_of b) \<le> acc_available (account_of b') \<and>
        hasDiscrepancy b' = (h < acc_total (account_of b) - 1 / 1000) \<and>
        tables t = (tables s)\<lparr>balances := upsert b_id b' (balances (tables s))\<rparr>)"
proof (cases r)
  case None
  with orm_laws.applyHcmRealTimeUpdate_ok[OF assms(1,7)] assms(2) show ?thesis
    by (simp add: wf_tables_def)
next
  case (Some b')
  with orm_laws.applyHcmRealTimeUpdate_ok[OF assms(1,7)] assms(2)
  obtain b where m: "moved undo (hcm_updated now hcmData) (e, l, lt) s t b b'"
    by (auto simp: wf_tables_def)
  then have b: "exact b" "core_balance b' = core_balance (hcm_updated now hcmData b)"
    using assms(3) by (simp_all add: moved_def)
  show ?thesis
    using m Some hcm_updated_refines[OF b(1) assms(4-6), of now] core_balanceD[OF b(2)]
    by (auto simp: moved_def acc_accrue_def intro!: bexI[of _ b])
qed

theorem hcm_update_never_reduces_witness:
  "\<exists>b' t. applyHcmRealTimeUpdate mem_orm 0 ''E1'' ''L1'' ''VACATION''
      \<lparr>hd_totalBalance = Fin 12, hd_version = None\<rparr> sample_node = (Inr (Some b'), t)
    \<and> (\<exists>b\<in>set (balances (tables sample_node)). account_of b' = acc_accrue 12 (account_of b))"
proof -
  let ?m = "applyHcmRealTimeUpdate mem_orm 0 ''E1'' ''L1'' ''VACATION''
      \<lparr>hd_totalBalance = Fin 12, hd_version = None\<rparr> sample_node"
  have row: "hcm_updated 0 \<lparr>hd_totalBalance = Fin 12, hd_version = None\<rparr> sample_balance =
      sample_balance\<lparr>availableBalance := Fin 9, totalBalance := Fin 12, hcmTotalBalance := Fin 12\<rparr>"
    by (simp add: hcm_updated_def Let_def local_total_def sample_balance_def new_balance_def js_simps
        js_of_thousandth drift_up drift_down)
  have key: "has_key ''E1'' ''L1'' ''VACATION'' sample_balance"
    by (simp add: has_key_def sample_balance_def new_balance_def)
  have "case fst ?m of Inr x \<Rightarrow> (case x of None \<Rightarrow> False | Some _ \<Rightarrow> True) | Inl e \<Rightarrow> False"
    by (simp add: applyHcmRealTimeUpdate_def findOne_def mem_orm_def mem_repo_def sample_node_def Let_def
        where_all_def sem_simps sort_by_def page_def key row upsert_def balances_ok_def)
      (simp add: sample_balance_def new_balance_def)
  then obtain b' t where m: "?m = (Inr (Some b'), t)"
    by (elim run_InrE) (auto split: option.splits)
  have total: "acc_total (account_of b) = 10" if "b \<in> set (balances (tables sample_node))" for b
    using that by (simp add: sample_node_def Let_def sample_balance_def account_of_def new_balance_def)
  show ?thesis
    using hcm_update_never_reduces[OF mem.orm_laws_axioms sample_node_ok _ _ _ m, of 12] m
    by (auto simp: total)
qed

end
