(* ===== verification/Hcm_Interface.thy ===== *)
theory Hcm_Interface
  imports Store
begin

text \<open>
  What the services see of \<open>HcmService\<close> (\<open>src/src/modules/hcm/hcm.service.js\<close>): five calls that
  answer with the HCM's JSON, or \<open>null\<close> when it cannot be reached. The calls run on the state of the
  node, whose connection part also holds the circuit breaker and the remote system; the law of the
  interface is that they leave the tables, the event queue and the open transaction alone.
\<close>

section \<open>Reading answers\<close>

text \<open>\<open>answer.key\<close>: reading a property of \<open>null\<close> or \<open>undefined\<close> throws; other primitives have none.\<close>

definition json_prop :: "json \<Rightarrow> string \<Rightarrow> ('h, json) service" where
  "json_prop j k = (case j of
      JUndef \<Rightarrow> throwM (JsError ''TypeError'')
    | JNull \<Rightarrow> throwM (JsError ''TypeError'')
    | JObj ps \<Rightarrow> returnM (case map_of ps k of Some v \<Rightarrow> v | None \<Rightarrow> JUndef)
    | _ \<Rightarrow> returnM JUndef)"

lemma json_prop_pure: "json_prop j k s = (r, t) \<Longrightarrow> t = s"
  by (auto simp: json_prop_def split: json.splits)

section \<open>The interface\<close>

record 'h hcm_client =
  validateRequest :: "string \<Rightarrow> string \<Rightarrow> string \<Rightarrow> js_num \<Rightarrow> ('h, json) service"
  notifyApproval :: "string \<Rightarrow> string \<Rightarrow> string \<Rightarrow> js_num \<Rightarrow> string \<Rightarrow> ('h, json) service"
  notifyRejection :: "string \<Rightarrow> string \<Rightarrow> string \<Rightarrow> js_num \<Rightarrow> string \<Rightarrow> ('h, json) service"
  getBatchBalances :: "('h, json) service"

definition stateless :: "('h \<Rightarrow> tables) \<Rightarrow> ('h, 'a) service \<Rightarrow> bool" where
  "stateless undo m \<longleftrightarrow> (\<forall>s r t. m s = (r, t) \<longrightarrow> tables t = tables s \<and> keeps undo s t)"

lemma statelessD: "stateless undo m \<Longrightarrow> m s = (r, t) \<Longrightarrow> tables t = tables s \<and> keeps undo s t"
  by (simp add: stateless_def)

lemma stateless_returnM [simp]: "stateless undo (returnM x)"
  by (simp add: stateless_def)

lemma stateless_throwM [simp]: "stateless undo (throwM x)"
  by (simp add: stateless_def)

lemma stateless_json_prop [simp]: "stateless undo (json_prop j k)"
  by (auto simp: stateless_def dest: json_prop_pure)

lemma stateless_bindM:
  "stateless undo m \<Longrightarrow> (\<And>x. stateless undo (k x)) \<Longrightarrow> stateless undo (bindM m k)"
  by (auto simp: stateless_def bindM_def keeps_def split: prod.splits sum.splits)

locale hcm_client_laws =
  fixes H :: "'h hcm_client" and undo :: "'h \<Rightarrow> tables"
  assumes validateRequest_stateless: "stateless undo (validateRequest H e l lt d)"
    and notifyApproval_stateless: "stateless undo (notifyApproval H e l lt d i)"
    and notifyRejection_stateless: "stateless undo (notifyRejection H e l lt d i)"
    and getBatchBalances_stateless: "stateless undo (getBatchBalances H)"
begin

lemmas calls_stateless = validateRequest_stateless notifyApproval_stateless notifyRejection_stateless
  getBatchBalances_stateless

end

end
