(* ===== verification/TimeOff_Service.thy ===== *)
theory TimeOff_Service
  imports Balance_Service Hcm_Interface
begin

text \<open>
  \<open>src/src/modules/timeoff/timeoff.service.js\<close>: the life of a time-off request. The body of each
  database transaction is a definition of its own, so that the steps that other handlers may
  interleave with are visible; the handlers compose them as the code does. What the process reads
  from its surroundings (the clock at each reading, SHA-256, the reading of unusual date texts, the
  configured lifetime of idempotency records) is the record \<open>env\<close>. The in-process lock around the
  creation of requests is the subject of the theory \<open>Create_Lock\<close>. Error bodies are their status and
  code; messages and log lines are left out.
\<close>

section \<open>Inputs and views\<close>

text \<open>\<open>CreateTimeOffRequestDto\<close>; \<open>notes\<close> may be absent, \<open>null\<close> or a string.\<close>

record create_dto =
  d_employeeId :: string
  d_locationId :: string
  d_leaveType :: string
  d_startDate :: string
  d_endDate :: string
  d_notes :: "string option option"

definition dto_json :: "create_dto \<Rightarrow> json" where
  "dto_json dto = JObj
     [(''employeeId'', JStr (d_employeeId dto)), (''locationId'', JStr (d_locationId dto)),
      (''leaveType'', JStr (d_leaveType dto)), (''startDate'', JStr (d_startDate dto)),
      (''endDate'', JStr (d_endDate dto)),
      (''notes'', case d_notes dto of None \<Rightarrow> JUndef | Some None \<Rightarrow> JNull | Some (Some n) \<Rightarrow> JStr n)]"

record env =
  plat :: platform
  ttl :: "int option"
  engine_date :: "string \<Rightarrow> time_value"
  clk :: "nat \<Rightarrow> int"

definition serializeRequest :: "timeoff_request \<Rightarrow> request_view" where
  "serializeRequest r =
    \<lparr>v_id = r_id r,
     v_idempotencyKey = r_idempotencyKey r,
     v_employeeId = r_employeeId r,
     v_locationId = r_locationId r,
     v_leaveType = r_leaveType r,
     v_startDate = startDate r,
     v_endDate = endDate r,
     v_daysRequested = daysRequested r,
     v_status = r_status r,
     v_requestedBy = requestedBy r,
     v_approvedBy = approvedBy r,
     v_approvedAt = approvedAt r,
     v_rejectionReason = rejectionReason r,
     v_notes = r_notes r,
     v_hcmValidated = hcmValidated r,
     v_hcmSyncStatus = hcmSyncStatus r,
     v_version = r_version r,
     v_createdAt = r_createdAt r,
     v_updatedAt = r_updatedAt r\<rparr>"

section \<open>Private helpers\<close>

definition checkIdempotency :: "'h orm \<Rightarrow> int \<Rightarrow> string \<Rightarrow> string \<Rightarrow> ('h, request_view option) service" where
  "checkIdempotency D now idempotencyKey hash =
     bindM (findOne (idempotencyRepository D) (where_all (\<lambda>i. i_idempotencyKey i = idempotencyKey)))
       (\<lambda>existing. case existing of
          None \<Rightarrow> returnM None
        | Some i \<Rightarrow>
            if time_lt (expiresAt i) (Some now) then returnM None
            else if requestHash i \<noteq> hash then throwM (HttpException 409 IDEMPOTENCY_CONFLICT)
            else returnM (Some (responseBody i)))"

definition active :: "timeoff_request \<Rightarrow> bool" where
  "active r \<longleftrightarrow> r_status r = PENDING \<or> r_status r = APPROVED"

definition assertNoOverlap :: "'h orm \<Rightarrow> string \<Rightarrow> string \<Rightarrow> string \<Rightarrow> string \<Rightarrow> ('h, unit) service" where
  "assertNoOverlap D employeeId locationId start end' =
     bindM (repo_find (requestRepository D)
         (where_all (\<lambda>r. r_employeeId r = employeeId \<and> r_locationId r = locationId \<and> active r)))
       (\<lambda>activeRequests. forM activeRequests
          (\<lambda>existing. if datesOverlap start end' (startDate existing) (endDate existing)
             then throwM (HttpException 409 OVERLAPPING_REQUEST) else returnM ()))"

definition lockEmployeeBalances :: "'h orm \<Rightarrow> string \<Rightarrow> string \<Rightarrow> ('h, unit) service" where
  "lockEmployeeBalances D employeeId locationId =
     bindM (repo_find (balanceRepository D)
         (where_all (\<lambda>b. b_employeeId b = employeeId \<and> b_locationId b = locationId)\<lparr>q_lock := getWriteLock D\<rparr>))
       (\<lambda>_. returnM ())"

definition getRequestLockedOrThrow :: "'h orm \<Rightarrow> string \<Rightarrow> ('h, timeoff_request) service" where
  "getRequestLockedOrThrow D requestId =
     bindM (findOne (requestRepository D) (where_all (\<lambda>r. r_id r = Some requestId)\<lparr>q_lock := getWriteLock D\<rparr>))
       (\<lambda>request. case request of
          None \<Rightarrow> throwM (HttpException 404 REQUEST_NOT_FOUND)
        | Some r \<Rightarrow> returnM r)"

definition assertValidTransition :: "request_status \<Rightarrow> request_status \<Rightarrow> ('h, unit) service" where
  "assertValidTransition currentStatus targetStatus =
     (if targetStatus \<in> set (VALID_TRANSITIONS currentStatus) then returnM ()
      else throwM (HttpException 409 INVALID_STATUS_TRANSITION))"

text \<open>An exception of the framework has no driver code, and none of its messages mentions a lock.\<close>

fun isSqliteConstraintError :: "exc \<Rightarrow> bool" where
  "isSqliteConstraintError (DriverError c m) =
     (c = Some ''SQLITE_CONSTRAINT'' \<or> c = Some ''SQLITE_CONSTRAINT_UNIQUE'')"
| "isSqliteConstraintError _ = False"

definition transient_message :: "string \<Rightarrow> bool" where
  "transient_message m =
     (js_includes (toLowerCase m) ''cannot start a transaction within a transaction''
      \<or> js_includes (toLowerCase m) ''database is locked'')"

fun isSqliteTransientTxError :: "exc \<Rightarrow> bool" where
  "isSqliteTransientTxError (DriverError c m) =
     (c = Some ''SQLITE_BUSY'' \<or> c = Some ''SQLITE_LOCKED'' \<or> transient_message m)"
| "isSqliteTransientTxError (JsError m) = transient_message m"
| "isSqliteTransientTxError (HttpException st c) = False"

text \<open>The attempts from \<open>attempt\<close> on; the pause of \<open>5 * attempt\<close> milliseconds has no effect of its own.\<close>

definition maxAttempts :: nat where
  "maxAttempts = 3"

function retry_attempts :: "(nat \<Rightarrow> ('h, 'a) service) \<Rightarrow> nat \<Rightarrow> ('h, 'a) service" where
  "retry_attempts runTx attempt =
     catchM (runTx attempt)
       (\<lambda>err. if \<not> isSqliteTransientTxError err \<or> maxAttempts \<le> attempt then throwM err
              else retry_attempts runTx (attempt + 1))"
  by pat_completeness auto
termination
  by (relation "measure (\<lambda>(f, n). maxAttempts - n)") auto

declare retry_attempts.simps [simp del]

definition runCreateTransactionWithRetry :: "(nat \<Rightarrow> ('h, 'a) service) \<Rightarrow> ('h, 'a) service" where
  "runCreateTransactionWithRetry runTx = retry_attempts runTx 1"

definition recoverAfterConstraint :: "'h orm \<Rightarrow> int \<Rightarrow> string \<Rightarrow> string \<Rightarrow> ('h, request_view option) service" where
  "recoverAfterConstraint D now idempotencyKey hash =
     bindM (checkIdempotency D now idempotencyKey hash)
       (\<lambda>cached. case cached of
          Some v \<Rightarrow> returnM (Some v)
        | None \<Rightarrow>
            bindM (findOne (requestRepository D) (where_all (\<lambda>r. r_idempotencyKey r = idempotencyKey)))
              (\<lambda>existingRequest. returnM (map_option serializeRequest existingRequest)))"

section \<open>Creating a request\<close>

definition new_request :: "create_dto \<Rightarrow> string \<Rightarrow> js_num \<Rightarrow> timeoff_request" where
  "new_request dto idempotencyKey days =
    \<lparr>r_id = None, r_idempotencyKey = idempotencyKey, r_employeeId = d_employeeId dto,
     r_locationId = d_locationId dto, r_leaveType = d_leaveType dto,
     startDate = d_startDate dto, endDate = d_endDate dto, daysRequested = days,
     r_status = PENDING, requestedBy = d_employeeId dto, approvedBy = None, approvedAt = None,
     rejectionReason = None,
     r_notes = (case d_notes dto of Some (Some n) \<Rightarrow> if n = [] then None else Some n | _ \<Rightarrow> None),
     hcmValidated = False, hcmSyncStatus = SyncPENDING, hcmSyncAttempts = 0, hcmLastSyncAt = None,
     r_version = 1, r_createdAt = 0, r_updatedAt = 0\<rparr>"

text \<open>The body of the \<open>SERIALIZABLE\<close> transaction: steps 4 to 8.\<close>

definition create_tx ::
  "'h orm \<Rightarrow> int option \<Rightarrow> int \<Rightarrow> create_dto \<Rightarrow> string \<Rightarrow> js_num \<Rightarrow> string \<Rightarrow> ('h, timeoff_request) service" where
  "create_tx D lifetime now dto idempotencyKey days hash =
     bindM (lockEmployeeBalances D (d_employeeId dto) (d_locationId dto)) (\<lambda>_.
     bindM (assertNoOverlap D (d_employeeId dto) (d_locationId dto) (d_startDate dto) (d_endDate dto)) (\<lambda>_.
     bindM (atomicDeduct D (d_employeeId dto) (d_locationId dto) (d_leaveType dto) days) (\<lambda>_.
     bindM (repo_save (requestRepository D) (new_request dto idempotencyKey days)) (\<lambda>saved.
     bindM (repo_save (idempotencyRepository D)
       \<lparr>i_id = None, i_idempotencyKey = idempotencyKey, i_employeeId = d_employeeId dto,
        requestHash = hash, responseStatus = 201, responseBody = serializeRequest saved,
        expiresAt = (case lifetime of None \<Rightarrow> None | Some l \<Rightarrow> time_clip (now + l)), i_createdAt = 0\<rparr>) (\<lambda>_.
     returnM saved)))))"

definition create_failed ::
  "'h orm \<Rightarrow> env \<Rightarrow> string \<Rightarrow> string \<Rightarrow> exc \<Rightarrow> ('h, request_view) service" where
  "create_failed D E idempotencyKey hash err =
     bindM (if isSqliteConstraintError err then recoverAfterConstraint D (clk E 6) idempotencyKey hash
            else returnM None)
       (\<lambda>recovered. case recovered of
          Some v \<Rightarrow> returnM v
        | None \<Rightarrow>
            if isSqliteTransientTxError err
            then bindM (recoverAfterConstraint D (clk E 7) idempotencyKey hash)
                   (\<lambda>recovered. case recovered of
                      Some v \<Rightarrow> returnM v
                    | None \<Rightarrow> throwM (HttpException 409 BALANCE_CONFLICT))
            else throwM err)"

text \<open>The function run under the lock of the employee and location.\<close>

definition create_locked ::
  "'h orm \<Rightarrow> env \<Rightarrow> create_dto \<Rightarrow> string \<Rightarrow> js_num \<Rightarrow> string \<Rightarrow> ('h, request_view) service" where
  "create_locked D E dto idempotencyKey days hash =
     bindM (checkIdempotency D (clk E 2) idempotencyKey hash)
       (\<lambda>lockedIdempotencyCheck. case lockedIdempotencyCheck of
          Some v \<Rightarrow> returnM v
        | None \<Rightarrow>
            catchM
              (bindM (runCreateTransactionWithRetry (\<lambda>attempt.
                 transaction D (create_tx D (ttl E) (clk E (2 + attempt)) dto idempotencyKey days hash)))
                 (\<lambda>createdRequest.
                    bindM (setImmediate (NotifyHcm (r_id createdRequest) (d_employeeId dto) (d_locationId dto)
                             (d_leaveType dto) days))
                      (\<lambda>_. returnM (serializeRequest createdRequest))))
              (create_failed D E idempotencyKey hash))"

definition createRequest :: "'h orm \<Rightarrow> env \<Rightarrow> create_dto \<Rightarrow> string option \<Rightarrow> ('h, request_view) service" where
  "createRequest D E dto header =
     (case header of
        None \<Rightarrow> throwM (HttpException 400 MISSING_IDEMPOTENCY_KEY)
      | Some idempotencyKey \<Rightarrow>
          if idempotencyKey = [] then throwM (HttpException 400 MISSING_IDEMPOTENCY_KEY)
          else if \<not> isNotInPast (clk E 0) (d_startDate dto) then throwM (HttpException 422 INVALID_DATE_RANGE)
          else if time_lt (midnight (engine_date E) (d_endDate dto)) (midnight (engine_date E) (d_startDate dto))
          then throwM (HttpException 422 INVALID_DATE_RANGE)
          else let days = calculateDaysRequested (d_startDate dto) (d_endDate dto) in
            (case hashObject (plat E) (dto_json dto) of
               None \<Rightarrow> throwM (JsError ''TypeError'')
             | Some hash \<Rightarrow>
                 bindM (checkIdempotency D (clk E 1) idempotencyKey hash)
                   (\<lambda>idempotencyCheck. case idempotencyCheck of
                      Some v \<Rightarrow> returnM v
                    | None \<Rightarrow> create_locked D E dto idempotencyKey days hash)))"

section \<open>Settling a request\<close>

definition approve_tx :: "'h orm \<Rightarrow> int \<Rightarrow> string \<Rightarrow> string \<Rightarrow> ('h, request_view) service" where
  "approve_tx D now requestId approverId =
     bindM (getRequestLockedOrThrow D requestId) (\<lambda>request.
     bindM (assertValidTransition (r_status request) APPROVED) (\<lambda>_.
     bindM (repo_save (requestRepository D)
       (request\<lparr>r_status := APPROVED, approvedBy := Some approverId, approvedAt := Some now\<rparr>)) (\<lambda>request.
     bindM (finalizeUsed D (r_employeeId request) (r_locationId request) (r_leaveType request)
              (daysRequested request)) (\<lambda>_.
     bindM (setImmediate (NotifyApproval request requestId)) (\<lambda>_.
     returnM (serializeRequest request))))))"

definition approveRequest :: "'h orm \<Rightarrow> int \<Rightarrow> string \<Rightarrow> string \<Rightarrow> ('h, request_view) service" where
  "approveRequest D now requestId approverId = transaction D (approve_tx D now requestId approverId)"

definition reject_tx :: "'h orm \<Rightarrow> int \<Rightarrow> string \<Rightarrow> string \<Rightarrow> string \<Rightarrow> ('h, request_view) service" where
  "reject_tx D now requestId approverId reason =
     bindM (getRequestLockedOrThrow D requestId) (\<lambda>request.
     bindM (assertValidTransition (r_status request) REJECTED) (\<lambda>_.
     bindM (repo_save (requestRepository D)
       (request\<lparr>r_status := REJECTED, approvedBy := Some approverId, approvedAt := Some now,
                rejectionReason := Some reason\<rparr>)) (\<lambda>request.
     bindM (releaseFromPending D (r_employeeId request) (r_locationId request) (r_leaveType request)
              (daysRequested request)) (\<lambda>_.
     returnM (serializeRequest request)))))"

definition rejectRequest :: "'h orm \<Rightarrow> int \<Rightarrow> string \<Rightarrow> string \<Rightarrow> string \<Rightarrow> ('h, request_view) service" where
  "rejectRequest D now requestId approverId reason = transaction D (reject_tx D now requestId approverId reason)"

definition cancel_tx :: "'h orm \<Rightarrow> string \<Rightarrow> string option \<Rightarrow> ('h, request_view) service" where
  "cancel_tx D requestId reason =
     bindM (getRequestLockedOrThrow D requestId) (\<lambda>request.
     bindM (assertValidTransition (r_status request) CANCELLED) (\<lambda>_.
     bindM (repo_save (requestRepository D)
       (request\<lparr>r_status := CANCELLED, rejectionReason := reason\<rparr>)) (\<lambda>request.
     bindM (releaseFromPending D (r_employeeId request) (r_locationId request) (r_leaveType request)
              (daysRequested request)) (\<lambda>_.
     returnM (serializeRequest request)))))"

definition cancelRequest :: "'h orm \<Rightarrow> string \<Rightarrow> string option \<Rightarrow> ('h, request_view) service" where
  "cancelRequest D requestId reason = transaction D (cancel_tx D requestId reason)"

section \<open>Reading\<close>

definition getRequest :: "'h orm \<Rightarrow> string \<Rightarrow> ('h, request_view) service" where
  "getRequest D requestId =
     bindM (findOne (requestRepository D) (where_all (\<lambda>r. r_id r = Some requestId)))
       (\<lambda>request. case request of
          None \<Rightarrow> throwM (HttpException 404 REQUEST_NOT_FOUND)
        | Some r \<Rightarrow> returnM (serializeRequest r))"

text \<open>Query parameters are strings; an absent one takes the default, an empty filter none.\<close>

record list_filters =
  f_employeeId :: "string option"
  f_locationId :: "string option"
  f_status :: "request_status option"
  f_limit :: "string option"
  f_offset :: "string option"

record list_result =
  res_data :: "request_view list"
  res_total :: nat
  res_limit :: js_num
  res_offset :: js_num

definition parse_count :: "int \<Rightarrow> string option \<Rightarrow> js_num" where
  "parse_count dflt v = (case v of
      None \<Rightarrow> Fin (of_int dflt)
    | Some s \<Rightarrow> (case js_parseInt s of None \<Rightarrow> NaN | Some n \<Rightarrow> js_of (of_int n)))"

definition given :: "string option \<Rightarrow> string \<Rightarrow> bool" where
  "given f x \<longleftrightarrow> (case f of None \<Rightarrow> True | Some v \<Rightarrow> v = [] \<or> x = v)"

definition listRequests :: "'h orm \<Rightarrow> list_filters \<Rightarrow> ('h, list_result) service" where
  "listRequests D filters =
     (let limit = parse_count 50 (f_limit filters); offset = parse_count 0 (f_offset filters)
      in bindM (findAndCount (requestRepository D)
           \<lparr>q_where = (\<lambda>r. given (f_employeeId filters) (r_employeeId r) \<and>
               given (f_locationId filters) (r_locationId r) \<and>
               (case f_status filters of None \<Rightarrow> True | Some st \<Rightarrow> r_status r = st)),
            q_order = (\<lambda>x y. r_createdAt y \<le> r_createdAt x),
            q_take = Some (js_min limit (Fin 100)), q_skip = Some offset, q_lock = None\<rparr>)
           (\<lambda>(requests, n). returnM
             \<lparr>res_data = map serializeRequest requests, res_total = n, res_limit = limit, res_offset = offset\<rparr>))"

section \<open>Telling the HCM\<close>

text \<open>\<open>requestRepository.update(id, ...)\<close>; without an id TypeORM refuses the criteria.\<close>

definition update_request ::
  "'h orm \<Rightarrow> string option \<Rightarrow> (timeoff_request \<Rightarrow> timeoff_request) \<Rightarrow> ('h, unit) service" where
  "update_request D i f = (case i of
      None \<Rightarrow> throwM (JsError ''Empty criteria(s) are not allowed for the update method.'')
    | Some requestId \<Rightarrow> repo_update (requestRepository D) requestId f)"

definition notifyHcmAsync ::
  "'h orm \<Rightarrow> 'h hcm_client \<Rightarrow> int \<Rightarrow> string option \<Rightarrow> string \<Rightarrow> string \<Rightarrow> string \<Rightarrow> js_num \<Rightarrow> ('h, unit) service" where
  "notifyHcmAsync D H now requestId employeeId locationId leaveType days =
     catchM
       (bindM (validateRequest H employeeId locationId leaveType days) (\<lambda>result.
          if result \<noteq> JNull
          then bindM (json_prop result ''valid'') (\<lambda>valid.
            if valid = JBool False
            then update_request D requestId (\<lambda>r. r\<lparr>hcmSyncStatus := SyncFAILED, hcmValidated := False,
                   hcmSyncAttempts := 1, hcmLastSyncAt := Some now\<rparr>)
            else update_request D requestId (\<lambda>r. r\<lparr>hcmSyncStatus := SyncSUCCESS, hcmValidated := True,
                   hcmSyncAttempts := 1, hcmLastSyncAt := Some now\<rparr>))
          else update_request D requestId (\<lambda>r. r\<lparr>hcmSyncStatus := SyncPENDING,
                 hcmSyncAttempts := 1, hcmLastSyncAt := Some now\<rparr>)))
       (\<lambda>_. update_request D requestId (\<lambda>r. r\<lparr>hcmSyncStatus := SyncPENDING, hcmSyncAttempts := 1\<rparr>))"

text \<open>The approval is sent once the request is validated, by an earlier answer or by this one.\<close>

definition send_approval ::
  "'h orm \<Rightarrow> 'h hcm_client \<Rightarrow> int \<Rightarrow> timeoff_request \<Rightarrow> string \<Rightarrow> ('h, unit) service" where
  "send_approval D H now request requestId =
     bindM (notifyApproval H (r_employeeId request) (r_locationId request) (r_leaveType request)
              (daysRequested request) requestId) (\<lambda>res.
     bindM (if res = JNull then returnM False
            else bindM (json_prop res ''success'') (\<lambda>ok. returnM (ok \<noteq> JBool False))) (\<lambda>accepted.
     update_request D (Some requestId) (\<lambda>r.
       r\<lparr>hcmSyncStatus := (if accepted then SyncSUCCESS else SyncPENDING), hcmValidated := True,
         hcmSyncAttempts := hcmSyncAttempts request + 1, hcmLastSyncAt := Some now\<rparr>)))"

definition notifyApprovalToHcmAsync ::
  "'h orm \<Rightarrow> 'h hcm_client \<Rightarrow> int \<Rightarrow> timeoff_request \<Rightarrow> string \<Rightarrow> ('h, unit) service" where
  "notifyApprovalToHcmAsync D H now request requestId =
     catchM
       (if hcmValidated request then send_approval D H now request requestId
        else bindM (validateRequest H (r_employeeId request) (r_locationId request) (r_leaveType request)
                      (daysRequested request)) (\<lambda>validation.
          if validation = JNull
          then update_request D (Some requestId) (\<lambda>r. r\<lparr>hcmSyncStatus := SyncPENDING,
                 hcmSyncAttempts := hcmSyncAttempts request + 1, hcmLastSyncAt := Some now\<rparr>)
          else bindM (json_prop validation ''valid'') (\<lambda>valid.
            if valid \<noteq> JBool True
            then update_request D (Some requestId) (\<lambda>r. r\<lparr>hcmSyncStatus := SyncFAILED, hcmValidated := False,
                   hcmSyncAttempts := hcmSyncAttempts request + 1, hcmLastSyncAt := Some now\<rparr>)
            else send_approval D H now request requestId)))
       (\<lambda>_. update_request D (Some requestId) (\<lambda>r. r\<lparr>hcmSyncStatus := SyncPENDING,
              hcmSyncAttempts := hcmSyncAttempts request + 1, hcmLastSyncAt := Some now\<rparr>))"

end
