(* ===== verification/Ledger.thy ===== *)
theory Ledger
  imports TimeOff_Service
begin

text \<open>
  The invariant that ties the balance rows to the requests, and that the transactions of
  \<open>TimeOffService\<close> keep it: every row's account is sound, its pending days are those of the pending
  requests and its used days those of the approved ones, every active request has its row, and the
  active requests of an employee at a location do not overlap. The first part is about tables alone;
  the second shows what each transaction does to them.
\<close>

section \<open>The invariant\<close>

definition request_key :: "timeoff_request \<Rightarrow> string \<times> string \<times> string" where
  "request_key r = (r_employeeId r, r_locationId r, r_leaveType r)"

definition days_in :: "request_status \<Rightarrow> string \<times> string \<times> string \<Rightarrow> timeoff_request \<Rightarrow> rat" where
  "days_in st k r = (if request_key r = k \<and> r_status r = st then amount (daysRequested r) else 0)"

definition held :: "request_status \<Rightarrow> string \<times> string \<times> string \<Rightarrow> timeoff_request list \<Rightarrow> rat" where
  "held st k rs = sum_list (map (days_in st k) rs)"

definition clash :: "timeoff_request \<Rightarrow> timeoff_request \<Rightarrow> bool" where
  "clash x y \<longleftrightarrow> active x \<and> active y \<and> r_employeeId x = r_employeeId y \<and> r_locationId x = r_locationId y \<and>
     datesOverlap (startDate x) (endDate x) (startDate y) (endDate y)"

definition balance_inv :: "timeoff_request list \<Rightarrow> employee_balance \<Rightarrow> bool" where
  "balance_inv rs b \<longleftrightarrow> exact b \<and> acc_pending (account_of b) = held PENDING (balance_key b) rs \<and>
     acc_used (account_of b) = held APPROVED (balance_key b) rs"

definition request_inv :: "employee_balance list \<Rightarrow> timeoff_request \<Rightarrow> bool" where
  "request_inv bs r \<longleftrightarrow> on_grid (daysRequested r) \<and> 1 \<le> amount (daysRequested r) \<and>
     (active r \<longrightarrow> request_key r \<in> balance_key ` set bs)"

definition ledger_inv :: "tables \<Rightarrow> bool" where
  "ledger_inv T \<longleftrightarrow> wf_tables T \<and> (\<forall>b\<in>set (balances T). balance_inv (requests T) b) \<and>
     (\<forall>r\<in>set (requests T). request_inv (balances T) r) \<and>
     (\<forall>x\<in>set (requests T). \<forall>y\<in>set (requests T). r_id x \<noteq> r_id y \<longrightarrow> \<not> clash x y)"

text \<open>The part of the invariant that does not depend on the amounts in the balance rows.\<close>

definition tables_inv :: "tables \<Rightarrow> bool" where
  "tables_inv T \<longleftrightarrow> wf_tables T \<and> (\<forall>r\<in>set (requests T). request_inv (balances T) r) \<and>
     (\<forall>x\<in>set (requests T). \<forall>y\<in>set (requests T). r_id x \<noteq> r_id y \<longrightarrow> \<not> clash x y)"

lemma ledger_inv_iff: "ledger_inv T \<longleftrightarrow> tables_inv T \<and> (\<forall>b\<in>set (balances T). balance_inv (requests T) b)"
  by (auto simp: ledger_inv_def tables_inv_def)

lemma ledger_inv_wf: "ledger_inv T \<Longrightarrow> wf_tables T"
  by (simp add: ledger_inv_def)

lemma ledger_inv_exact: "ledger_inv T \<Longrightarrow> \<forall>b\<in>set (balances T). exact b"
  by (simp add: ledger_inv_def balance_inv_def)

lemma ledger_inv_empty:
  "ledger_inv \<lparr>balances = [], requests = [], idempotency = [], sync_logs = []\<rparr>"
  by (simp add: ledger_inv_def wf_tables_def ids_ok_def balances_ok_def requests_ok_def idempotency_ok_def)

text \<open>The invariant reads the balances and requests up to the columns that carry no days.\<close>

lemma held_append [simp]: "held st k (rs @ [r]) = held st k rs + days_in st k r"
  by (simp add: held_def)

lemma held_upsert:
  "distinct (map r_id rs) \<Longrightarrow> x \<in> set rs \<Longrightarrow> r_id r = r_id x \<Longrightarrow>
     held st k (upsert r_id r rs) = held st k rs - days_in st k x + days_in st k r"
  unfolding held_def by (rule sum_list_upsert_old)

lemma held_pending_ge:
  assumes "\<forall>r\<in>set rs. request_inv bs r" and "r \<in> set rs" and "r_status r = PENDING"
  shows "amount (daysRequested r) \<le> held PENDING (request_key r) rs"
proof -
  have "days_in PENDING (request_key r) r \<le> held PENDING (request_key r) rs"
    unfolding held_def
    using assms(1,2) by (intro member_le_sum_list) (auto simp: days_in_def request_inv_def)
  with assms(3) show ?thesis by (simp add: days_in_def)
qed

lemma balance_keys_upsert:
  assumes "b \<in> set bs" and "b_id b' = b_id b" and "balance_key b' = balance_key b"
    and "ids_ok b_id bs"
  shows "balance_key ` set (upsert b_id b' bs) = balance_key ` set bs"
proof -
  have "x = b" if "x \<in> set bs" "b_id x = b_id b" for x
    using that assms(1,4) by (auto simp: ids_ok_def distinct_map inj_on_def)
  with assms(1-3) show ?thesis
    by (auto simp: set_upsert image_iff)
qed

lemma balance_inv_others:
  assumes "balances_ok bs" and "ids_ok b_id bs" and "b \<in> set bs" and "x \<in> set bs" and "b_id x \<noteq> b_id b"
  shows "balance_key x \<noteq> balance_key b"
  using assms key_unique by blast

section \<open>Creating and settling, on tables\<close>

text \<open>A row after one row has been saved: it is that row, or an old one with another key.\<close>

lemma upserted_row:
  assumes "balances_ok bs" and "ids_ok b_id bs" and "b \<in> set bs" and "b_id b' = b_id b" and "x \<in> set (upsert b_id b' bs)"
  obtains "x = b'" | "x \<in> set bs" "balance_key x \<noteq> balance_key b"
proof (cases "x = b'")
  case False
  with assms(4,5) have "x \<in> set bs" "b_id x \<noteq> b_id b" by (auto simp: set_upsert)
  with balance_inv_others[OF assms(1-3)] show ?thesis by (intro that(2))
qed (rule that(1))

lemma tables_inv_create:
  assumes inv: "tables_inv T"
    and b: "b \<in> set (balances T)" "balance_key b = request_key r"
    and b': "balance_key b' = balance_key b" "b_id b' = b_id b"
    and r: "daysRequested r = Fin d" "grid d" "1 \<le> d" "r_id r \<noteq> None"
      "r_id r \<notin> r_id ` set (requests T)" "\<forall>x\<in>set (requests T). \<not> clash r x"
    and ok: "balances_ok (upsert b_id b' (balances T))" "requests_ok (requests T @ [r])"
    and ii: "ids_ok i_id is" "idempotency_ok is"
  shows "tables_inv (T\<lparr>balances := upsert b_id b' (balances T), requests := requests T @ [r], idempotency := is\<rparr>)"
proof -
  from inv have wf: "ids_ok b_id (balances T)" "ids_ok r_id (requests T)" "ids_ok l_id (sync_logs T)"
    by (auto simp: tables_inv_def wf_tables_def)
  have keys: "balance_key ` set (upsert b_id b' (balances T)) = balance_key ` set (balances T)"
    using b(1) b'(2,1) wf(1) by (rule balance_keys_upsert)
  have ri: "request_inv (upsert b_id b' (balances T)) x" if "x \<in> set (requests T @ [r])" for x
    using that inv r imageI[OF b(1), of balance_key]
    by (auto simp: tables_inv_def request_inv_def keys b(2))
  have "ids_ok b_id (upsert b_id b' (balances T))"
    using wf(1) b'(2) b(1) by (auto intro!: ids_ok_upsert dest: ids_ok_Some)
  moreover have "ids_ok r_id (requests T @ [r])"
    using wf(2) r(4,5) by (auto simp: ids_ok_def)
  moreover have "\<not> clash x y" if "x \<in> set (requests T @ [r])" "y \<in> set (requests T @ [r])" "r_id x \<noteq> r_id y" for x y
    using that inv r(6) by (auto simp: tables_inv_def clash_def datesOverlap_sym)
  ultimately show ?thesis
    using ri wf ok ii by (simp add: tables_inv_def wf_tables_def)
qed

lemma ledger_inv_create:
  assumes inv: "ledger_inv T"
    and b: "b \<in> set (balances T)" "balance_key b = request_key r"
    and b': "exact b'" "account_of b' = acc_reserve d (account_of b)" "balance_key b' = balance_key b"
      "b_id b' = b_id b"
    and r: "r_status r = PENDING" "daysRequested r = Fin d" "grid d" "1 \<le> d" "r_id r \<noteq> None"
      "r_id r \<notin> r_id ` set (requests T)" "\<forall>x\<in>set (requests T). \<not> clash r x"
    and ok: "balances_ok (upsert b_id b' (balances T))" "requests_ok (requests T @ [r])"
    and ii: "ids_ok i_id is" "idempotency_ok is"
  shows "ledger_inv (T\<lparr>balances := upsert b_id b' (balances T), requests := requests T @ [r], idempotency := is\<rparr>)"
proof -
  have T: "tables_inv T" using inv by (simp add: ledger_inv_iff)
  then have wf: "balances_ok (balances T)" "ids_ok b_id (balances T)" by (auto simp: tables_inv_def wf_tables_def)
  have "balance_inv (requests T @ [r]) x" if "x \<in> set (upsert b_id b' (balances T))" for x
    using wf b(1) b'(4) that
  proof (cases rule: upserted_row)
    case 1
    moreover have "balance_inv (requests T) b" using inv b(1) by (simp add: ledger_inv_def)
    ultimately show ?thesis
      using b' b(2) r(1,2) by (auto simp: balance_inv_def acc_reserve_def days_in_def)
  next
    case 2
    then show ?thesis using inv b(2) by (auto simp: ledger_inv_def balance_inv_def days_in_def)
  qed
  with tables_inv_create[OF T b b'(3,4) r(2-7) ok ii] show ?thesis
    by (simp add: ledger_inv_iff)
qed

lemma tables_inv_settle:
  assumes inv: "tables_inv T"
    and r: "r \<in> set (requests T)" "r_status r = PENDING"
    and r': "r_id r' = r_id r" "request_key r' = request_key r" "daysRequested r' = daysRequested r"
      "startDate r' = startDate r" "endDate r' = endDate r"
    and b: "b \<in> set (balances T)" "balance_key b = request_key r"
    and b': "balance_key b' = balance_key b" "b_id b' = b_id b"
    and ok: "balances_ok (upsert b_id b' (balances T))" "requests_ok (upsert r_id r' (requests T))"
  shows "tables_inv (T\<lparr>balances := upsert b_id b' (balances T), requests := upsert r_id r' (requests T)\<rparr>)"
proof -
  let ?rs = "upsert r_id r' (requests T)" and ?bs = "upsert b_id b' (balances T)"
  from inv have wf: "ids_ok b_id (balances T)" "ids_ok r_id (requests T)"
    "ids_ok l_id (sync_logs T)" "ids_ok i_id (idempotency T)" "idempotency_ok (idempotency T)"
    by (auto simp: tables_inv_def wf_tables_def)
  have keys: "balance_key ` set ?bs = balance_key ` set (balances T)"
    using b(1) b'(2,1) wf(1) by (rule balance_keys_upsert)
  have act: "active r" using r(2) by (simp add: active_def)
  have ri: "request_inv ?bs x" if "x \<in> set ?rs" for x
  proof -
    have "x = r' \<or> x \<in> set (requests T)" using that by (auto simp: set_upsert)
    then show ?thesis
      using inv r r' act imageI[OF b(1), of balance_key]
      by (auto simp: tables_inv_def request_inv_def keys b(2))
  qed
  have cl: "\<not> clash x y" if xy: "x \<in> set ?rs" "y \<in> set ?rs" "r_id x \<noteq> r_id y" for x y
  proof -
    have same: "\<exists>x'\<in>set (requests T). r_id x' = r_id x \<and> (active x \<longrightarrow> active x') \<and> request_key x' = request_key x \<and>
        startDate x' = startDate x \<and> endDate x' = endDate x" if "x \<in> set ?rs" for x
      using that r r' act by (auto simp: set_upsert)
    obtain x' y' where "x' \<in> set (requests T)" "y' \<in> set (requests T)" "r_id x' \<noteq> r_id y'"
      "active x \<longrightarrow> active x'" "active y \<longrightarrow> active y'" "request_key x' = request_key x" "request_key y' = request_key y"
      "startDate x' = startDate x" "endDate x' = endDate x" "startDate y' = startDate y" "endDate y' = endDate y"
      using same[OF xy(1)] same[OF xy(2)] xy(3) by auto
    moreover have "\<not> clash x' y'" using inv calculation by (simp add: tables_inv_def)
    ultimately show ?thesis by (auto simp: clash_def request_key_def)
  qed
  have "ids_ok b_id ?bs"
    using wf(1) b'(2) b(1) by (auto intro!: ids_ok_upsert dest: ids_ok_Some)
  moreover have "ids_ok r_id ?rs"
    using wf(2) r'(1) r(1) by (auto intro!: ids_ok_upsert dest: ids_ok_Some)
  ultimately show ?thesis
    using ri cl wf ok by (simp add: tables_inv_def wf_tables_def)
qed

lemma ledger_inv_settle:
  assumes inv: "ledger_inv T"
    and r: "r \<in> set (requests T)" "r_status r = PENDING"
    and r': "r_id r' = r_id r" "request_key r' = request_key r" "daysRequested r' = daysRequested r"
      "startDate r' = startDate r" "endDate r' = endDate r" "r_status r' \<noteq> PENDING"
    and b: "b \<in> set (balances T)" "balance_key b = request_key r"
    and b': "exact b'" "balance_key b' = balance_key b" "b_id b' = b_id b"
      "account_of b' = (if r_status r' = APPROVED then acc_finalize else acc_release) (amount (daysRequested r)) (account_of b)"
    and ok: "balances_ok (upsert b_id b' (balances T))" "requests_ok (upsert r_id r' (requests T))"
  shows "ledger_inv (T\<lparr>balances := upsert b_id b' (balances T), requests := upsert r_id r' (requests T)\<rparr>)"
proof -
  let ?rs = "upsert r_id r' (requests T)" and ?bs = "upsert b_id b' (balances T)"
  have T: "tables_inv T" using inv by (simp add: ledger_inv_iff)
  then have wf: "balances_ok (balances T)" "ids_ok b_id (balances T)" "ids_ok r_id (requests T)"
    by (auto simp: tables_inv_def wf_tables_def)
  have held: "held st k ?rs = held st k (requests T) - days_in st k r + days_in st k r'" for st k
    using wf(3) r(1) r'(1) by (intro held_upsert) (simp_all add: ids_ok_def)
  have "balance_inv ?rs x" if "x \<in> set ?bs" for x
    using wf(1,2) b(1) b'(3) that
  proof (cases rule: upserted_row)
    case 1
    moreover have "balance_inv (requests T) b" using inv b(1) by (simp add: ledger_inv_def)
    ultimately show ?thesis
      using b' b(2) r(2) r'
      by (auto simp: balance_inv_def held acc_finalize_def acc_release_def days_in_def)
  next
    case 2
    then show ?thesis using inv b(2) r'(2) by (auto simp: ledger_inv_def balance_inv_def held days_in_def)
  qed
  with tables_inv_settle[OF T r r'(1-5) b b'(2,3) ok] show ?thesis
    by (simp add: ledger_inv_iff)
qed

text \<open>Under the invariant the guard of a settlement never refuses a pending request.\<close>

lemma pending_covered:
  assumes "ledger_inv T" and "r \<in> set (requests T)" and "r_status r = PENDING"
    and "b \<in> set (balances T)" and "balance_key b = request_key r"
  shows "\<not> js_lt (pendingBalance b) (daysRequested r)"
proof -
  have "on_grid (daysRequested r)" and "amount (daysRequested r) \<le> acc_pending (account_of b)" and "exact b"
    using assms held_pending_ge[of "requests T" "balances T" r]
    by (auto simp: ledger_inv_def balance_inv_def request_inv_def)
  then show ?thesis
    by (auto elim!: on_gridE exactE simp: account_of_def)
qed

section \<open>What the transactions do\<close>

text \<open>A body that never changes the part \<open>g\<close> of the state, on any outcome.\<close>

definition frame_on :: "('s \<Rightarrow> 'g) \<Rightarrow> ('s, 'e, 'a) sem \<Rightarrow> bool" where
  "frame_on g m \<longleftrightarrow> (\<forall>s r t. m s = (r, t) \<longrightarrow> g t = g s)"

named_theorems frame_rules \<open>bodies that leave a part of the state alone\<close>

lemma frame_onD: "frame_on g m \<Longrightarrow> m s = (r, t) \<Longrightarrow> g t = g s"
  by (simp add: frame_on_def)

lemma frame_on_basic [frame_rules]:
  "frame_on g (returnM x)" "frame_on g (throwM e)" "frame_on (\<lambda>s. h (conn s)) (setImmediate j)"
  by (auto simp: frame_on_def setImmediate_def)

lemma frame_on_bindM [frame_rules]:
  assumes "frame_on g m" and "\<And>x. frame_on g (k x)"
  shows "frame_on g (bindM m k)"
proof -
  have "g t = g s" if "bindM m k s = (r, t)" for s r t
  proof (cases r)
    case (Inl e)
    from that[unfolded Inl] show ?thesis
      by (cases rule: bindM_Inl_E) (metis assms frame_onD)+
  next
    case (Inr y)
    from that[unfolded Inr] show ?thesis
      by (elim bindM_Inr_E) (metis assms frame_onD)
  qed
  then show ?thesis by (auto simp: frame_on_def)
qed

lemma frame_on_if [frame_rules]: "frame_on g m \<Longrightarrow> frame_on g n \<Longrightarrow> frame_on g (if c then m else n)"
  by simp

lemma frame_on_option [frame_rules]:
  "frame_on g m \<Longrightarrow> (\<And>x. frame_on g (n x)) \<Longrightarrow> frame_on g (case y of None \<Rightarrow> m | Some x \<Rightarrow> n x)"
  by (cases y) auto

lemma frame_on_forM [frame_rules]: "(\<And>x. frame_on g (f x)) \<Longrightarrow> frame_on g (forM xs f)"
  by (induction xs) (auto intro: frame_on_basic frame_on_bindM)

context repository_laws
begin

lemma repo_keeps:
  "repo_find R q s = (x, t) \<Longrightarrow> keeps undo s t"
  "repo_save R r s = (y, t) \<Longrightarrow> keeps undo s t"
proof -
  show "repo_find R q s = (x, t) \<Longrightarrow> keeps undo s t"
    by (cases x) (auto dest: find_ok find_err)
  show "repo_save R r s = (y, t) \<Longrightarrow> keeps undo s t"
    by (cases y) (auto dest: save_ok save_err)
qed

lemma repo_frame:
  "frame_on jobs (repo_find R q)" "frame_on jobs (repo_save R r)" "frame_on jobs (findOne R q)"
  "frame_on (\<lambda>s. undo (conn s)) (repo_find R q)" "frame_on (\<lambda>s. undo (conn s)) (repo_save R r)"
  "frame_on (\<lambda>s. undo (conn s)) (findOne R q)"
proof -
  show "frame_on jobs (repo_save R r)" "frame_on (\<lambda>s. undo (conn s)) (repo_save R r)"
    using repo_keeps(2) by (fastforce simp: frame_on_def keeps_def)+
  have f: "frame_on jobs (repo_find R q)" "frame_on (\<lambda>s. undo (conn s)) (repo_find R q)" for q
    using repo_keeps(1) by (fastforce simp: frame_on_def keeps_def)+
  show "frame_on jobs (repo_find R q)" "frame_on (\<lambda>s. undo (conn s)) (repo_find R q)"
    by (rule f)+
  show "frame_on jobs (findOne R q)" "frame_on (\<lambda>s. undo (conn s)) (findOne R q)"
    unfolding findOne_def by (intro frame_rules f)+
qed

lemma find_all_ok:
  assumes "repo_find R q s = (Inr xs, t)" and "q_skip q = None" and "q_take q = None"
  shows "tables t = tables s \<and> keeps undo s t \<and> set xs = {r \<in> set (rows (tables s)). q_where q r}"
proof -
  from find_ok[OF assms(1)] obtain ys where ys: "tables t = tables s" "keeps undo s t"
    "mset ys = mset (filter (q_where q) (rows (tables s)))" "page q ys = Some xs"
    by (auto simp: page_def assms(2,3))
  then show ?thesis
    using mset_eq_setD[OF ys(3)] by (auto simp: page_def assms(2,3))
qed

end

lemma forM_guard:
  assumes "forM xs (\<lambda>x. if P x then throwM e else returnM ()) s = (r, t)"
  shows "t = s \<and> (case r of Inl e' \<Rightarrow> e' = e \<and> (\<exists>x\<in>set xs. P x) | Inr _ \<Rightarrow> \<forall>x\<in>set xs. \<not> P x)"
  using assms by (induction xs) (auto simp: bindM_def split: if_splits sum.splits)

lemma assertValidTransition_pure:
  assumes "assertValidTransition a b s = (r, t)"
  shows "t = s \<and> (case r of Inl e \<Rightarrow> e = HttpException 409 INVALID_STATUS_TRANSITION \<and> b \<notin> set (VALID_TRANSITIONS a)
    | Inr _ \<Rightarrow> b \<in> set (VALID_TRANSITIONS a))"
  using assms by (auto simp: assertValidTransition_def split: if_splits)

context orm_laws
begin

lemmas op_frames = bal.repo_frame req.repo_frame idem.repo_frame

lemma guarded_save_frame:
  "frame_on jobs (guarded_save D k guard f)" "frame_on (\<lambda>s. undo (conn s)) (guarded_save D k guard f)"
  unfolding guarded_save_def by (cases k; auto intro!: frame_rules op_frames split: option.split)+

lemma tx_frames:
  "frame_on (\<lambda>s. undo (conn s)) (create_tx D lifetime now dto key days hash)"
  "frame_on jobs (create_tx D lifetime now dto key days hash)"
  "frame_on (\<lambda>s. undo (conn s)) (approve_tx D now requestId approverId)"
  "frame_on (\<lambda>s. undo (conn s)) (reject_tx D now requestId approverId reason)"
  "frame_on (\<lambda>s. undo (conn s)) (cancel_tx D requestId reason')"
  unfolding create_tx_def approve_tx_def reject_tx_def cancel_tx_def lockEmployeeBalances_def
    assertNoOverlap_def getRequestLockedOrThrow_def assertValidTransition_def atomicDeduct_guarded
    finalizeUsed_guarded releaseFromPending_guarded
  by (intro frame_rules op_frames guarded_save_frame)+

lemma transaction_jobs:
  assumes "transaction D body s = (r, t)" and "frame_on jobs body"
  shows "jobs t = jobs s"
  using assms(1)
proof (cases rule: transaction_cases)
  case (begin_fails e)
  then show ?thesis using begin_err by simp
next
  case (body_fails u s1 e s2)
  then show ?thesis
    using begin_ok[OF body_fails(1)] frame_onD[OF assms(2) body_fails(2)] rollback_ok[of s2] by simp
next
  case (commit_fails u s1 x s2 e s3)
  then show ?thesis
    using begin_ok[OF commit_fails(1)] frame_onD[OF assms(2) commit_fails(2)] commit_err[OF commit_fails(3)]
      rollback_ok[of s3] by (simp add: keeps_def)
next
  case (commits u s1 x s2 v)
  then show ?thesis
    using begin_ok[OF commits(1)] frame_onD[OF assms(2) commits(2)] commit_ok[OF commits(3)] by simp
qed

lemma assertNoOverlap_run:
  assumes "assertNoOverlap D e l a z s = (r, t)"
  shows "tables t = tables s \<and> keeps undo s t \<and>
    (case r of
       Inl err \<Rightarrow> orm_error err \<or> err = HttpException 409 OVERLAPPING_REQUEST \<and>
         (\<exists>x\<in>set (requests (tables s)). r_employeeId x = e \<and> r_locationId x = l \<and> active x \<and>
            datesOverlap a z (startDate x) (endDate x))
     | Inr _ \<Rightarrow> \<forall>x\<in>set (requests (tables s)). r_employeeId x = e \<and> r_locationId x = l \<and> active x \<longrightarrow>
         \<not> datesOverlap a z (startDate x) (endDate x))"
proof (cases "repo_find (requestRepository D)
      (where_all (\<lambda>r. r_employeeId r = e \<and> r_locationId r = l \<and> active r)) s")
  case (Pair x u)
  show ?thesis
  proof (cases x)
    case (Inl err)
    with Pair assms req.find_err[OF Pair[unfolded Inl]] show ?thesis
      by (auto simp: assertNoOverlap_def bindM_def)
  next
    case (Inr xs)
    have g: "forM xs (\<lambda>existing. if datesOverlap a z (startDate existing) (endDate existing)
        then throwM (HttpException 409 OVERLAPPING_REQUEST) else returnM ()) u = (r, t)"
      using assms Pair Inr by (simp add: assertNoOverlap_def bindM_def)
    show ?thesis
      using forM_guard[OF g] req.find_all_ok[OF Pair[unfolded Inr]]
      by (auto split: sum.splits)
  qed
qed

lemma lockEmployeeBalances_run:
  assumes "lockEmployeeBalances D e l s = (r, t)"
  shows "tables t = tables s \<and> keeps undo s t \<and> (case r of Inl err \<Rightarrow> orm_error err | Inr _ \<Rightarrow> True)"
proof (cases r)
  case (Inl err)
  from assms[unfolded Inl lockEmployeeBalances_def] show ?thesis
    by (cases rule: bindM_Inl_E) (auto simp: Inl dest: bal.find_err)
next
  case (Inr x)
  from assms[unfolded Inr lockEmployeeBalances_def] show ?thesis
    by (elim bindM_Inr_E) (auto simp: Inr dest: bal.find_ok)
qed

lemma getRequestLockedOrThrow_run:
  assumes "getRequestLockedOrThrow D i s = (r, t)"
  shows "tables t = tables s \<and> keeps undo s t \<and>
    (case r of
       Inl err \<Rightarrow> orm_error err \<or> err = HttpException 404 REQUEST_NOT_FOUND \<and> Some i \<notin> r_id ` set (requests (tables s))
     | Inr x \<Rightarrow> x \<in> set (requests (tables s)) \<and> r_id x = Some i)"
proof (cases r)
  case (Inl err)
  from assms[unfolded Inl getRequestLockedOrThrow_def] show ?thesis
  proof (cases rule: bindM_Inl_E)
    case head
    with req.findOne_err[OF head] show ?thesis by (simp add: Inl)
  next
    case (rest x u)
    with req.findOne_ok[OF rest(1)] show ?thesis by (force simp: Inl split: option.splits)
  qed
next
  case (Inr y)
  from assms[unfolded Inr getRequestLockedOrThrow_def] obtain x u where
    f: "findOne (requestRepository D) (where_all (\<lambda>r. r_id r = Some i)\<lparr>q_lock := getWriteLock D\<rparr>) s = (Inr x, u)"
    and k: "(case x of None \<Rightarrow> throwM (HttpException 404 REQUEST_NOT_FOUND) | Some r \<Rightarrow> returnM r) u = (Inr y, t)"
    by (elim bindM_Inr_E)
  with req.findOne_ok[OF f] show ?thesis by (auto simp: Inr split: option.splits)
qed

end

text \<open>
  \<open>created\<close> relates the tables before and after the creation of a request: the row of the employee
  pays for it, the request and its idempotency record are appended, and no active request of the
  employee at the location overlaps it.
\<close>

definition created ::
  "int option \<Rightarrow> int \<Rightarrow> create_dto \<Rightarrow> string \<Rightarrow> js_num \<Rightarrow> string \<Rightarrow> timeoff_request \<Rightarrow> tables \<Rightarrow> tables \<Rightarrow> bool" where
  "created lifetime now dto key days hash saved T T' \<longleftrightarrow>
     core_request saved = core_request (new_request dto key days) \<and> r_id saved \<noteq> None \<and>
     r_id saved \<notin> r_id ` set (requests T) \<and>
     (\<forall>x\<in>set (requests T). r_employeeId x = d_employeeId dto \<and> r_locationId x = d_locationId dto \<and> active x \<longrightarrow>
        \<not> datesOverlap (d_startDate dto) (d_endDate dto) (startDate x) (endDate x)) \<and>
     (\<exists>b\<in>set (balances T). \<exists>b' i.
        balance_key b = (d_employeeId dto, d_locationId dto, d_leaveType dto) \<and> \<not> js_lt (availableBalance b) days \<and>
        core_balance b' = core_balance (deducted days b) \<and> b_id b' = b_id b \<and>
        i_idempotencyKey i = key \<and> requestHash i = hash \<and> responseBody i = serializeRequest saved \<and>
        responseStatus i = 201 \<and> expiresAt i = (case lifetime of None \<Rightarrow> None | Some l \<Rightarrow> time_clip (now + l)) \<and>
        i_id i \<noteq> None \<and> i_id i \<notin> i_id ` set (idempotency T) \<and>
        balances_ok (upsert b_id b' (balances T)) \<and> requests_ok (requests T @ [saved]) \<and>
        idempotency_ok (idempotency T @ [i]) \<and>
        T' = T\<lparr>balances := upsert b_id b' (balances T), requests := requests T @ [saved],
               idempotency := idempotency T @ [i]\<rparr>)"

lemma core_idempotencyD:
  assumes "core_idempotency x = core_idempotency y"
  shows "i_idempotencyKey x = i_idempotencyKey y" "requestHash x = requestHash y" "responseBody x = responseBody y"
    "responseStatus x = responseStatus y" "expiresAt x = expiresAt y"
  using assms by (cases x; cases y; simp add: core_idempotency_def)+

lemma core_requestD:
  assumes "core_request x = core_request y"
  shows "request_key x = request_key y" "r_status x = r_status y" "daysRequested x = daysRequested y"
    "startDate x = startDate y" "endDate x = endDate y" "active x = active y" "hcmValidated x = hcmValidated y"
    "r_idempotencyKey x = r_idempotencyKey y" "hcmSyncStatus x = hcmSyncStatus y"
    "r_employeeId x = r_employeeId y" "r_locationId x = r_locationId y" "r_leaveType x = r_leaveType y"
  using assms by (cases x; cases y; simp add: core_request_def request_key_def active_def)+

context orm_laws
begin

lemma create_tx_ok:
  assumes "create_tx D lifetime now dto key days hash s = (Inr saved, t)" and "wf_tables (tables s)"
  shows "created lifetime now dto key days hash saved (tables s) (tables t) \<and> jobs t = jobs s"
proof -
  from assms(1) obtain x1 s1 x2 s2 b' s3 s4 i where
    run: "lockEmployeeBalances D (d_employeeId dto) (d_locationId dto) s = (Inr x1, s1)"
    "assertNoOverlap D (d_employeeId dto) (d_locationId dto) (d_startDate dto) (d_endDate dto) s1 = (Inr x2, s2)"
    "atomicDeduct D (d_employeeId dto) (d_locationId dto) (d_leaveType dto) days s2 = (Inr b', s3)"
    "repo_save (requestRepository D) (new_request dto key days) s3 = (Inr saved, s4)"
    "repo_save (idempotencyRepository D)
       \<lparr>i_id = None, i_idempotencyKey = key, i_employeeId = d_employeeId dto, requestHash = hash,
        responseStatus = 201, responseBody = serializeRequest saved,
        expiresAt = (case lifetime of None \<Rightarrow> None | Some l \<Rightarrow> time_clip (now + l)), i_createdAt = 0\<rparr> s4 = (Inr i, t)"
    unfolding create_tx_def by (elim bindM_Inr_E) auto
  note l = lockEmployeeBalances_run[OF run(1)] and o = assertNoOverlap_run[OF run(2)]
  have T: "tables s2 = tables s" and k: "keeps undo s s2"
    using l o by (auto intro: keeps_trans)
  obtain b where m: "moved undo (deducted days) (d_employeeId dto, d_locationId dto, d_leaveType dto) s2 s3 b b'"
    and g: "\<not> js_lt (availableBalance b) days"
    using run(3) assms(2) unfolding atomicDeduct_guarded
    by (auto simp: T wf_tables_def elim!: guarded_save_ok split: if_splits)
  from m have T3: "tables s3 = (tables s)\<lparr>balances := upsert b_id b' (balances (tables s))\<rparr>"
    by (simp add: moved_def T)
  have n: "r_id (new_request dto key days) = None" by (simp add: new_request_def)
  note r = req.save_ok[OF run(4), unfolded T3 n, simplified]
  have fr: "upsert r_id saved (requests (tables s)) = requests (tables s) @ [saved]"
    using r by (intro upsert_new) simp
  have T4: "tables s4 = (tables s)\<lparr>balances := upsert b_id b' (balances (tables s)), requests := requests (tables s) @ [saved]\<rparr>"
    using r by (simp add: fr)
  note i = idem.save_ok[OF run(5), unfolded T4, simplified]
  have fi: "upsert i_id i (idempotency (tables s)) = idempotency (tables s) @ [i]"
    using i by (intro upsert_new) simp
  from i have core: "core_idempotency i = core_idempotency
       \<lparr>i_id = None, i_idempotencyKey = key, i_employeeId = d_employeeId dto, requestHash = hash,
        responseStatus = 201, responseBody = serializeRequest saved,
        expiresAt = (case lifetime of None \<Rightarrow> None | Some l \<Rightarrow> time_clip (now + l)), i_createdAt = 0\<rparr>"
    by blast
  have "jobs t = jobs s"
    using k m r i by (simp add: keeps_def moved_def)
  moreover have "\<exists>b\<in>set (balances (tables s)). \<exists>b' i.
        balance_key b = (d_employeeId dto, d_locationId dto, d_leaveType dto) \<and> \<not> js_lt (availableBalance b) days \<and>
        core_balance b' = core_balance (deducted days b) \<and> b_id b' = b_id b \<and>
        i_idempotencyKey i = key \<and> requestHash i = hash \<and> responseBody i = serializeRequest saved \<and>
        responseStatus i = 201 \<and> expiresAt i = (case lifetime of None \<Rightarrow> None | Some l \<Rightarrow> time_clip (now + l)) \<and>
        i_id i \<noteq> None \<and> i_id i \<notin> i_id ` set (idempotency (tables s)) \<and>
        balances_ok (upsert b_id b' (balances (tables s))) \<and> requests_ok (requests (tables s) @ [saved]) \<and>
        idempotency_ok (idempotency (tables s) @ [i]) \<and>
        tables t = (tables s)\<lparr>balances := upsert b_id b' (balances (tables s)), requests := requests (tables s) @ [saved],
               idempotency := idempotency (tables s) @ [i]\<rparr>"
  proof (intro bexI[of _ b] exI[of _ b'] exI[of _ i] conjI)
    show "b \<in> set (balances (tables s))" "balance_key b = (d_employeeId dto, d_locationId dto, d_leaveType dto)"
      "core_balance b' = core_balance (deducted days b)" "b_id b' = b_id b"
      "balances_ok (upsert b_id b' (balances (tables s)))"
      using m by (simp_all add: moved_def T)
  qed (use g r i core_idempotencyD[OF core] in \<open>simp_all add: fr fi\<close>)
  moreover have "core_request saved = core_request (new_request dto key days) \<and> r_id saved \<noteq> None \<and>
     r_id saved \<notin> r_id ` set (requests (tables s))"
    using r by simp
  ultimately show ?thesis
    using o l by (simp add: created_def)
qed

lemma create_tx_err:
  assumes "create_tx D lifetime now dto key days hash s = (Inl err, t)"
  shows "orm_error err \<or>
    err = HttpException 409 OVERLAPPING_REQUEST \<and>
      (\<exists>x\<in>set (requests (tables s)). r_employeeId x = d_employeeId dto \<and> r_locationId x = d_locationId dto \<and> active x \<and>
         datesOverlap (d_startDate dto) (d_endDate dto) (startDate x) (endDate x)) \<or>
    err = HttpException 404 BALANCE_NOT_FOUND \<and>
      (d_employeeId dto, d_locationId dto, d_leaveType dto) \<notin> balance_key ` set (balances (tables s)) \<or>
    err = HttpException 422 INSUFFICIENT_BALANCE \<and>
      (\<exists>b\<in>set (balances (tables s)). balance_key b = (d_employeeId dto, d_locationId dto, d_leaveType dto) \<and>
         js_lt (availableBalance b) days)"
  using assms unfolding create_tx_def
proof (cases rule: bindM_Inl_E)
  case head
  with lockEmployeeBalances_run[OF head] show ?thesis by simp
next
  case (rest x1 s1)
  then have T1: "tables s1 = tables s" using lockEmployeeBalances_run by blast
  from rest(2) show ?thesis
  proof (cases rule: bindM_Inl_E)
    case head
    with assertNoOverlap_run[OF head] show ?thesis by (auto simp: T1)
  next
    case (rest x2 s2)
    then have T2: "tables s2 = tables s" using assertNoOverlap_run T1 by metis
    from rest(2) show ?thesis
    proof (cases rule: bindM_Inl_E)
      case head
      from guarded_save_err[OF head[unfolded atomicDeduct_guarded]] show ?thesis
        by (auto simp: T2 split: if_splits)
    next
      case (rest x3 s3)
      from rest(2) show ?thesis
        by (auto elim!: bindM_Inl_E dest: req.save_err idem.save_err)
    qed
  qed
qed

end

text \<open>What a creation saves, in the terms of the invariant.\<close>

lemma created_facts:
  assumes "created lifetime now dto key days hash saved T T'" and "wf_tables T"
    and "days = calculateDaysRequested (d_startDate dto) (d_endDate dto)"
  obtains b b' d recs where "b \<in> set (balances T)" and "balance_key b = request_key saved"
    and "\<not> js_lt (availableBalance b) (Fin d)" and "core_balance b' = core_balance (deducted (Fin d) b)" and "b_id b' = b_id b"
    and "r_status saved = PENDING" and "daysRequested saved = Fin d" and "grid d" and "1 \<le> d"
    and "r_id saved \<noteq> None" and "r_id saved \<notin> r_id ` set (requests T)" and "\<forall>x\<in>set (requests T). \<not> clash saved x"
    and "balances_ok (upsert b_id b' (balances T))" and "requests_ok (requests T @ [saved])"
    and "ids_ok i_id recs" and "idempotency_ok recs"
    and "T' = T\<lparr>balances := upsert b_id b' (balances T), requests := requests T @ [saved], idempotency := recs\<rparr>"
proof -
  from assms(1) obtain b b' i where
    c: "core_request saved = core_request (new_request dto key days)" "r_id saved \<noteq> None"
      "r_id saved \<notin> r_id ` set (requests T)"
    and nov: "\<forall>x\<in>set (requests T). r_employeeId x = d_employeeId dto \<and> r_locationId x = d_locationId dto \<and> active x \<longrightarrow>
        \<not> datesOverlap (d_startDate dto) (d_endDate dto) (startDate x) (endDate x)"
    and b: "b \<in> set (balances T)" "balance_key b = (d_employeeId dto, d_locationId dto, d_leaveType dto)"
      "\<not> js_lt (availableBalance b) days" "core_balance b' = core_balance (deducted days b)" "b_id b' = b_id b"
    and i: "i_id i \<noteq> None" "i_id i \<notin> i_id ` set (idempotency T)"
    and ok: "balances_ok (upsert b_id b' (balances T))" "requests_ok (requests T @ [saved])"
      "idempotency_ok (idempotency T @ [i])"
    and T': "T' = T\<lparr>balances := upsert b_id b' (balances T), requests := requests T @ [saved],
               idempotency := idempotency T @ [i]\<rparr>"
    unfolding created_def by (elim conjE bexE exE)
  note r = core_requestD[OF c(1)]
  have "daysRequested saved \<noteq> NaN" using ok(2) by (simp add: requests_ok_def)
  moreover have "daysRequested saved = days" using r by (simp add: new_request_def)
  ultimately obtain d where d: "days = Fin d" "daysRequested saved = Fin d"
    using assms(3) by (auto simp: calculateDaysRequested_def split: option.splits)
  from d(1) assms(3) obtain n where n: "d = of_int n" "1 \<le> n" "n \<le> 200000001"
    using calculateDaysRequested_Fin by metis
  then have g: "grid d" "1 \<le> d" by simp_all
  have key: "balance_key b = request_key saved"
    using b(2) r(1) by (simp add: request_key_def new_request_def)
  have st: "r_status saved = PENDING" using r(2) by (simp add: new_request_def)
  have cl: "\<forall>x\<in>set (requests T). \<not> clash saved x"
    using nov r by (auto simp: clash_def new_request_def)
  have ids: "ids_ok i_id (idempotency T @ [i])"
    using assms(2) i by (auto simp: wf_tables_def ids_ok_def)
  show ?thesis
    using b d st key g cl c(2,3) ok ids T'
    by (intro that[of b d b' "idempotency T @ [i]"]) simp_all
qed

lemma created_inv:
  assumes "ledger_inv T" and "created lifetime now dto key days hash saved T T'"
    and "days = calculateDaysRequested (d_startDate dto) (d_endDate dto)"
  shows "ledger_inv T'"
  using assms(2) ledger_inv_wf[OF assms(1)] assms(3)
proof (rule created_facts)
  fix b b' d recs
  assume b: "b \<in> set (balances T)" "balance_key b = request_key saved" "\<not> js_lt (availableBalance b) (Fin d)"
    and c: "core_balance b' = core_balance (deducted (Fin d) b)" "b_id b' = b_id b" and g: "grid d" "1 \<le> d"
    and rest: "r_status saved = PENDING" "daysRequested saved = Fin d" "r_id saved \<noteq> None"
      "r_id saved \<notin> r_id ` set (requests T)" "\<forall>x\<in>set (requests T). \<not> clash saved x"
      "balances_ok (upsert b_id b' (balances T))" "requests_ok (requests T @ [saved])" "ids_ok i_id recs" "idempotency_ok recs"
    and T': "T' = T\<lparr>balances := upsert b_id b' (balances T), requests := requests T @ [saved], idempotency := recs\<rparr>"
  have ex: "exact b" using assms(1) b(1) by (simp add: ledger_inv_def balance_inv_def)
  have "exact (deducted (Fin d) b) \<and> account_of (deducted (Fin d) b) = acc_reserve d (account_of b)"
    using b(3) g by (intro deducted_refines ex) auto
  with core_balanceD[OF c(1)] have "exact b'" "account_of b' = acc_reserve d (account_of b)"
    "balance_key b' = balance_key b" by simp_all
  with b c(2) g rest show ?thesis
    unfolding T' by (intro ledger_inv_create[OF assms(1), where b = b and d = d])
qed

text \<open>The transactions that settle a request share their shape.\<close>

definition settle_tx ::
  "'h orm \<Rightarrow> string \<Rightarrow> request_status \<Rightarrow> (timeoff_request \<Rightarrow> timeoff_request) \<Rightarrow>
   (js_num \<Rightarrow> employee_balance \<Rightarrow> employee_balance) \<Rightarrow> (timeoff_request \<Rightarrow> ('h, unit) service) \<Rightarrow> ('h, request_view) service" where
  "settle_tx D requestId st upd f after =
     bindM (getRequestLockedOrThrow D requestId) (\<lambda>request.
     bindM (assertValidTransition (r_status request) st) (\<lambda>_.
     bindM (repo_save (requestRepository D) (upd request)) (\<lambda>request.
     bindM (bindM (guarded_save D (r_employeeId request, r_locationId request, r_leaveType request)
              (\<lambda>b. if js_lt (pendingBalance b) (daysRequested request) then Some (HttpException 409 BALANCE_CONFLICT) else None)
              (f (daysRequested request))) (\<lambda>_. returnM ())) (\<lambda>_.
     bindM (after request) (\<lambda>_.
     returnM (serializeRequest request))))))"

lemma settle_txs:
  "approve_tx D now requestId approverId = settle_tx D requestId APPROVED
     (\<lambda>r. r\<lparr>r_status := APPROVED, approvedBy := Some approverId, approvedAt := Some now\<rparr>) finalized
     (\<lambda>r. setImmediate (NotifyApproval r requestId))"
  "reject_tx D now requestId approverId reason = settle_tx D requestId REJECTED
     (\<lambda>r. r\<lparr>r_status := REJECTED, approvedBy := Some approverId, approvedAt := Some now,
             rejectionReason := Some reason\<rparr>) released (\<lambda>_. returnM ())"
  "cancel_tx D requestId reason' = settle_tx D requestId CANCELLED
     (\<lambda>r. r\<lparr>r_status := CANCELLED, rejectionReason := reason'\<rparr>) released (\<lambda>_. returnM ())"
  by (simp_all add: approve_tx_def reject_tx_def cancel_tx_def settle_tx_def finalizeUsed_guarded
      releaseFromPending_guarded del: returnM_app)

definition settled ::
  "string \<Rightarrow> (timeoff_request \<Rightarrow> timeoff_request) \<Rightarrow> (js_num \<Rightarrow> employee_balance \<Rightarrow> employee_balance) \<Rightarrow>
   timeoff_request \<Rightarrow> tables \<Rightarrow> tables \<Rightarrow> bool" where
  "settled requestId upd f r' T T' \<longleftrightarrow>
     (\<exists>r\<in>set (requests T). \<exists>b\<in>set (balances T). \<exists>b'.
        r_id r = Some requestId \<and> r_status r = PENDING \<and> core_request r' = core_request (upd r) \<and> r_id r' = r_id r \<and>
        balance_key b = request_key r \<and> \<not> js_lt (pendingBalance b) (daysRequested r) \<and>
        core_balance b' = core_balance (f (daysRequested r) b) \<and> b_id b' = b_id b \<and>
        balances_ok (upsert b_id b' (balances T)) \<and> requests_ok (upsert r_id r' (requests T)) \<and>
        T' = T\<lparr>balances := upsert b_id b' (balances T), requests := upsert r_id r' (requests T)\<rparr>)"

text \<open>An update of a request that keeps what identifies it and what it asks for.\<close>

definition keeps_request :: "(timeoff_request \<Rightarrow> timeoff_request) \<Rightarrow> bool" where
  "keeps_request upd \<longleftrightarrow> (\<forall>r. r_id (upd r) = r_id r \<and> request_key (upd r) = request_key r \<and>
     daysRequested (upd r) = daysRequested r \<and> startDate (upd r) = startDate r \<and> endDate (upd r) = endDate r)"

context orm_laws
begin

lemma settle_tx_ok:
  assumes run: "settle_tx D requestId st upd f after s = (Inr v, t)" and wf: "wf_tables (tables s)"
    and upd: "keeps_request upd" and f: "\<And>d b. b_id (f d b) = b_id b"
    and after: "\<And>r s x t. after r s = (x, t) \<Longrightarrow> tables t = tables s"
  shows "\<exists>r'. v = serializeRequest r' \<and> settled requestId upd f r' (tables s) (tables t)"
proof -
  from run obtain r s1 u s2 r' s3 b' s4 where
    run: "getRequestLockedOrThrow D requestId s = (Inr r, s1)"
    "assertValidTransition (r_status r) st s1 = (Inr u, s2)"
    "repo_save (requestRepository D) (upd r) s2 = (Inr r', s3)"
    "guarded_save D (r_employeeId r', r_locationId r', r_leaveType r')
       (\<lambda>b. if js_lt (pendingBalance b) (daysRequested r') then Some (HttpException 409 BALANCE_CONFLICT) else None)
       (f (daysRequested r')) s3 = (Inr b', s4)"
    and fin: "tables t = tables s4" "v = serializeRequest r'"
    unfolding settle_tx_def by (elim bindM_Inr_E) (auto dest!: after)
  have r: "r \<in> set (requests (tables s))" "r_id r = Some requestId" "tables s1 = tables s"
    using getRequestLockedOrThrow_run[OF run(1)] by auto
  have p: "r_status r = PENDING" and T2: "tables s2 = tables s"
    using assertValidTransition_pure[OF run(2)] r(3) VALID_TRANSITIONS_PENDING by auto
  have id: "r_id (upd r) = r_id r" using upd by (simp add: keeps_request_def)
  note sv = req.save_ok[OF run(3), unfolded T2 id r(2), simplified]
  from sv have core: "core_request r' = core_request (upd r)" by blast
  note c = core_requestD[OF core]
  have key: "(r_employeeId r', r_locationId r', r_leaveType r') = request_key r" "daysRequested r' = daysRequested r"
    using c upd by (simp_all add: keeps_request_def flip: request_key_def)
  have B3: "balances (tables s3) = balances (tables s)" using sv by simp
  obtain b where m: "moved undo (f (daysRequested r)) (request_key r) s3 s4 b b'"
    and g: "\<not> js_lt (pendingBalance b) (daysRequested r)"
    using run(4) wf f unfolding key by (auto simp: B3 wf_tables_def elim!: guarded_save_ok split: if_splits)
  show ?thesis
    unfolding settled_def fin
    using r p core sv m g
    by (intro exI[of _ r'] conjI bexI[of _ r] bexI[of _ b] exI[of _ b']) (simp_all add: moved_def)
qed

lemma settle_tx_err:
  assumes run: "settle_tx D requestId st upd f after s = (Inl e, t)"
    and upd: "keeps_request upd" and after: "\<And>r s e t. after r s \<noteq> (Inl e, t)"
  shows "orm_error e \<or>
    e = HttpException 404 REQUEST_NOT_FOUND \<and> Some requestId \<notin> r_id ` set (requests (tables s)) \<or>
    (\<exists>r\<in>set (requests (tables s)). r_id r = Some requestId \<and>
       (e = HttpException 409 INVALID_STATUS_TRANSITION \<and> st \<notin> set (VALID_TRANSITIONS (r_status r)) \<or>
        e = HttpException 404 BALANCE_NOT_FOUND \<and> r_status r = PENDING \<and> request_key r \<notin> balance_key ` set (balances (tables s)) \<or>
        e = HttpException 409 BALANCE_CONFLICT \<and> r_status r = PENDING \<and>
          (\<exists>b\<in>set (balances (tables s)). balance_key b = request_key r \<and> js_lt (pendingBalance b) (daysRequested r))))"
  using run unfolding settle_tx_def
proof (cases rule: bindM_Inl_E)
  case head
  with getRequestLockedOrThrow_run[OF head] show ?thesis by auto
next
  case (rest r s1)
  have r: "r \<in> set (requests (tables s))" "r_id r = Some requestId" "tables s1 = tables s"
    using getRequestLockedOrThrow_run[OF rest(1)] by auto
  from rest(2) show ?thesis
  proof (cases rule: bindM_Inl_E)
    case head
    with assertValidTransition_pure[OF head] r show ?thesis by auto
  next
    case (rest u s2)
    have p: "r_status r = PENDING" and T2: "tables s2 = tables s"
      using assertValidTransition_pure[OF rest(1)] r(3) VALID_TRANSITIONS_PENDING by auto
    from rest(2) show ?thesis
    proof (cases rule: bindM_Inl_E)
      case head
      with req.save_err[OF head] show ?thesis by simp
    next
      case (rest r' s3)
      note sv = req.save_ok[OF rest(1)]
      from sv have core: "core_request r' = core_request (upd r)" by blast
      have key: "(r_employeeId r', r_locationId r', r_leaveType r') = request_key r" "daysRequested r' = daysRequested r"
        using core_requestD[OF core] upd by (simp_all add: keeps_request_def flip: request_key_def)
      have B3: "balances (tables s3) = balances (tables s)" using sv T2 by simp
      obtain t' where "guarded_save D (r_employeeId r', r_locationId r', r_leaveType r')
         (\<lambda>b. if js_lt (pendingBalance b) (daysRequested r') then Some (HttpException 409 BALANCE_CONFLICT) else None)
         (f (daysRequested r')) s3 = (Inl e, t')"
        using rest(2) after by (auto elim!: bindM_Inl_E)
      from guarded_save_err[OF this] r p show ?thesis
        unfolding key B3 by (auto split: if_splits)
    qed
  qed
qed

end

text \<open>A settlement keeps the invariant, and under the invariant it is never refused by the balance.\<close>

lemma settled_facts:
  assumes "settled requestId upd f r' T T'" and "keeps_request upd" "\<And>r. r_status (upd r) = target"
  obtains r b b' where "r \<in> set (requests T)" and "r_status r = PENDING" and "r_id r' = r_id r"
    and "request_key r' = request_key r" and "daysRequested r' = daysRequested r" and "startDate r' = startDate r"
    and "endDate r' = endDate r" and "r_status r' = target" and "b \<in> set (balances T)" and "balance_key b = request_key r"
    and "\<not> js_lt (pendingBalance b) (daysRequested r)"
    and "core_balance b' = core_balance (f (daysRequested r) b)" and "b_id b' = b_id b"
    and "balances_ok (upsert b_id b' (balances T))" and "requests_ok (upsert r_id r' (requests T))"
    and "T' = T\<lparr>balances := upsert b_id b' (balances T), requests := upsert r_id r' (requests T)\<rparr>"
proof -
  from assms(1) obtain r b b' where
    r: "r \<in> set (requests T)" "r_status r = PENDING" "core_request r' = core_request (upd r)" "r_id r' = r_id r"
    and b: "b \<in> set (balances T)" "balance_key b = request_key r" "\<not> js_lt (pendingBalance b) (daysRequested r)"
      "core_balance b' = core_balance (f (daysRequested r) b)" "b_id b' = b_id b"
    and ok: "balances_ok (upsert b_id b' (balances T))" "requests_ok (upsert r_id r' (requests T))"
    and T': "T' = T\<lparr>balances := upsert b_id b' (balances T), requests := upsert r_id r' (requests T)\<rparr>"
    unfolding settled_def by (elim bexE exE conjE)
  have "request_key r' = request_key r" "daysRequested r' = daysRequested r" "startDate r' = startDate r"
    "endDate r' = endDate r" "r_status r' = target"
    using core_requestD[OF r(3)] assms(2,3) by (simp_all add: keeps_request_def)
  then show ?thesis using r b ok T' by (intro that[of r b b'])
qed

lemma settled_inv:
  assumes inv: "ledger_inv T" and st: "settled requestId upd f r' T T'"
    and upd: "keeps_request upd" "\<And>r. r_status (upd r) = target" "target \<noteq> PENDING"
    and f: "f = (if target = APPROVED then finalized else released)"
  shows "ledger_inv T'"
  using st upd(1,2)
proof (rule settled_facts)
  fix r b b'
  assume r: "r \<in> set (requests T)" "r_status r = PENDING"
    and req: "r_id r' = r_id r" "request_key r' = request_key r" "daysRequested r' = daysRequested r" "startDate r' = startDate r"
      "endDate r' = endDate r" "r_status r' = target"
    and b: "b \<in> set (balances T)" "balance_key b = request_key r" "\<not> js_lt (pendingBalance b) (daysRequested r)"
      "core_balance b' = core_balance (f (daysRequested r) b)" "b_id b' = b_id b"
    and ok: "balances_ok (upsert b_id b' (balances T))" "requests_ok (upsert r_id r' (requests T))"
    and T': "T' = T\<lparr>balances := upsert b_id b' (balances T), requests := upsert r_id r' (requests T)\<rparr>"
  have "request_inv (balances T) r" and ex: "exact b"
    using inv r(1) b(1) by (simp_all add: ledger_inv_def balance_inv_def)
  then obtain d where d: "daysRequested r = Fin d" "grid d" "0 \<le> d"
    by (auto simp: request_inv_def elim!: on_gridE)
  have "exact (f (Fin d) b) \<and> account_of (f (Fin d) b) = (if target = APPROVED then acc_finalize else acc_release) d (account_of b)"
    using finalized_refines[OF ex d(2,3)] released_refines[OF ex d(2,3)] b(3) d(1) f by simp
  with core_balanceD[OF b(4)] have b': "exact b'" "balance_key b' = balance_key b"
    "account_of b' = (if r_status r' = APPROVED then acc_finalize else acc_release) (amount (daysRequested r)) (account_of b)"
    by (simp_all add: d(1) req(6) f)
  show ?thesis
    unfolding T'
    by (rule ledger_inv_settle[OF inv r req(1-5) _ b(1,2) b'(1,2) b(5) b'(3) ok]) (simp add: req upd)
qed

context orm_laws
begin

lemma settle_run:
  assumes run: "transaction D (settle_tx D requestId target upd f after) s = (r, t)"
    and inv: "ledger_inv (tables s)"
    and upd: "keeps_request upd" "\<And>r. r_status (upd r) = target" "target \<noteq> PENDING"
    and f: "f = (if target = APPROVED then finalized else released)"
    and after: "\<And>r s e t. after r s \<noteq> (Inl e, t)" "\<And>r s x t. after r s = (x, t) \<Longrightarrow> tables t = tables s"
    and frame: "frame_on (\<lambda>s. undo (conn s)) (settle_tx D requestId target upd f after)"
  shows "ledger_inv (tables t) \<and> (case r of
      Inr v \<Rightarrow> \<exists>r'. v = serializeRequest r' \<and> settled requestId upd f r' (tables s) (tables t)
    | Inl e \<Rightarrow> tables t = tables s \<and>
        (orm_error e \<or>
         e = HttpException 404 REQUEST_NOT_FOUND \<and> Some requestId \<notin> r_id ` set (requests (tables s)) \<or>
         e = HttpException 409 INVALID_STATUS_TRANSITION \<and>
           (\<exists>x\<in>set (requests (tables s)). r_id x = Some requestId \<and> r_status x \<noteq> PENDING)))"
proof (cases r)
  case (Inr v)
  from run[unfolded Inr] obtain s1 s2 where "tables s1 = tables s" "tables t = tables s2"
    "settle_tx D requestId target upd f after s1 = (Inr v, s2)"
    by (rule transaction_Inr)
  moreover have "\<And>d b. b_id (f d b) = b_id b" by (simp add: f)
  ultimately obtain r' where "v = serializeRequest r'" "settled requestId upd f r' (tables s) (tables t)"
    using settle_tx_ok[of requestId target upd f after s1 v s2] inv upd(1) after(2)
    by (auto simp: ledger_inv_def)
  then show ?thesis
    using settled_inv[OF inv _ upd f] by (auto simp: Inr)
next
  case (Inl e)
  from transaction_Inl[OF run[unfolded Inl]] frame
  have T: "tables t = tables s" and
    c: "orm_error e \<or> (\<exists>s1 s2. tables s1 = tables s \<and> settle_tx D requestId target upd f after s1 = (Inl e, s2))"
    by (auto simp: frame_on_def)
  have valid: "target \<in> set (VALID_TRANSITIONS PENDING)" using upd(3) by (cases target) auto
  have no: "\<not> (r_status x = PENDING \<and> (request_key x \<notin> balance_key ` set (balances (tables s)) \<or>
      (\<exists>b\<in>set (balances (tables s)). balance_key b = request_key x \<and> js_lt (pendingBalance b) (daysRequested x))))"
    if "x \<in> set (requests (tables s))" for x
    using inv that pending_covered[OF inv that] by (auto simp: ledger_inv_def request_inv_def active_def)
  have "orm_error e \<or>
         e = HttpException 404 REQUEST_NOT_FOUND \<and> Some requestId \<notin> r_id ` set (requests (tables s)) \<or>
         e = HttpException 409 INVALID_STATUS_TRANSITION \<and>
           (\<exists>x\<in>set (requests (tables s)). r_id x = Some requestId \<and> r_status x \<noteq> PENDING)"
    using c
  proof (elim disjE exE conjE)
    fix s1 s2
    assume s1: "tables s1 = tables s" and run: "settle_tx D requestId target upd f after s1 = (Inl e, s2)"
    from settle_tx_err[where after = after, OF run upd(1) after(1), unfolded s1] show ?thesis
      using no valid by (elim disjE bexE conjE) auto
  qed simp
  with T inv show ?thesis by (simp add: Inl)
qed

end

end
