(* ===== verification/Concrete_Runs.thy ===== *)
theory Concrete_Runs
  imports Ledger
begin

text \<open>
  A small ledger on the in-memory store, and the rewrite rules that run the handlers on it: one
  employee with ten days, a request for three days in January 2030, and the ledger in which that
  request is pending.
\<close>

named_theorems run_simps \<open>evaluation of handlers on the in-memory store\<close>

section \<open>The store\<close>

lemma mem_repo_ops [run_simps]:
  "repo_find (mem_repo rows put ident set_ident touch constraints) q s =
     (Inr (let ys = sort_by (q_order q) (filter (q_where q) (rows (tables s)))
           in case page q ys of None \<Rightarrow> ys | Some zs \<Rightarrow> zs), s)"
  "repo_save (mem_repo rows put ident set_ident touch constraints) r s =
     (let r' = touch (if ident r = None then set_ident (Some (fresh_id (map ident (rows (tables s))))) r else r);
          rs = upsert ident r' (rows (tables s))
      in if constraints rs then (Inr r', s\<lparr>tables := put rs (tables s)\<rparr>)
         else (Inl (DriverError (Some ''SQLITE_CONSTRAINT'') ''SQLITE_CONSTRAINT: constraint failed''), s))"
  "repo_update (mem_repo rows put ident set_ident touch constraints) i f s =
     (let rs = map (\<lambda>x. if ident x = Some i then touch (set_ident (Some i) (f x)) else x) (rows (tables s))
      in if constraints rs then (Inr (), s\<lparr>tables := put rs (tables s)\<rparr>)
         else (Inl (DriverError (Some ''SQLITE_CONSTRAINT'') ''SQLITE_CONSTRAINT: constraint failed''), s))"
  by (simp_all add: mem_repo_def)

lemma mem_orm_sel [run_simps]:
  "balanceRepository mem_orm = mem_repo balances (\<lambda>xs t. t\<lparr>balances := xs\<rparr>) b_id (\<lambda>i b. b\<lparr>b_id := i\<rparr>)
     (\<lambda>b. b\<lparr>b_version := Suc (b_version b)\<rparr>) balances_ok"
  "requestRepository mem_orm = mem_repo requests (\<lambda>xs t. t\<lparr>requests := xs\<rparr>) r_id (\<lambda>i r. r\<lparr>r_id := i\<rparr>)
     (\<lambda>r. r\<lparr>r_version := Suc (r_version r)\<rparr>) requests_ok"
  "idempotencyRepository mem_orm = mem_repo idempotency (\<lambda>xs t. t\<lparr>idempotency := xs\<rparr>) i_id
     (\<lambda>i r. r\<lparr>i_id := i\<rparr>) (\<lambda>r. r) idempotency_ok"
  "syncLogRepository mem_orm = mem_repo sync_logs (\<lambda>xs t. t\<lparr>sync_logs := xs\<rparr>) l_id (\<lambda>i l. l\<lparr>l_id := i\<rparr>)
     (\<lambda>l. l) (\<lambda>_. True)"
  "tx_begin mem_orm s = (Inr (), s\<lparr>conn := (tables s, snd (conn s))\<rparr>)" "tx_commit mem_orm s = (Inr (), s)"
  "tx_rollback mem_orm s = s\<lparr>tables := fst (conn s)\<rparr>"
  by (simp_all add: mem_orm_def)

lemmas store_runs [run_simps] =
  findOne_def page_def where_all_def sort_by_def transaction_def setImmediate_def upsert_def balances_ok_def
  requests_ok_def idempotency_ok_def Let_def sem_simps has_key_def js_sub_def js_simps

lemma retry_attempts_step:
  "retry_attempts runTx n s = (case runTx n s of
      (Inl e, u) \<Rightarrow> if \<not> isSqliteTransientTxError e \<or> maxAttempts \<le> n then (Inl e, u) else retry_attempts runTx (n + 1) u
    | (Inr x, u) \<Rightarrow> (Inr x, u))"
  by (subst retry_attempts.simps) (simp add: catchM_def split: prod.split sum.split)

section \<open>The samples\<close>

definition node_of :: "tables \<Rightarrow> (tables \<times> unit) node" where
  "node_of T = \<lparr>tables = T, conn = (T, ()), jobs = [], batchRunning = False\<rparr>"

definition start_tables :: tables where
  "start_tables = \<lparr>balances = [(new_balance 0 ''E1'' ''L1'' ''VACATION'' (Fin 10))\<lparr>b_id := Some ''b1''\<rparr>],
     requests = [], idempotency = [], sync_logs = []\<rparr>"

definition sample_env :: env where
  "sample_env = \<lparr>plat = \<lparr>sha256 = (\<lambda>_. ''h''), show_number = (\<lambda>_. ''0'')\<rparr>, ttl = Some 86400000,
     engine_date = (\<lambda>_. None), clk = (\<lambda>_. 0)\<rparr>"

definition sample_dto :: create_dto where
  "sample_dto = \<lparr>d_employeeId = ''E1'', d_locationId = ''L1'', d_leaveType = ''VACATION'',
     d_startDate = ''2030-01-07'', d_endDate = ''2030-01-09'', d_notes = None\<rparr>"

definition sample_request :: timeoff_request where
  "sample_request = (new_request sample_dto ''k0'' (Fin 3))\<lparr>r_id := Some ''r1''\<rparr>"

definition sample_record :: idempotency_record where
  "sample_record = \<lparr>i_id = Some ''i1'', i_idempotencyKey = ''k0'', i_employeeId = ''E1'', requestHash = ''g'',
     responseStatus = 201, responseBody = serializeRequest sample_request, expiresAt = Some 86400000, i_createdAt = 0\<rparr>"

definition pending_tables :: tables where
  "pending_tables = \<lparr>balances = [sample_balance], requests = [sample_request], idempotency = [sample_record], sync_logs = []\<rparr>"

lemma sample_sel [run_simps]:
  "plat sample_env = \<lparr>sha256 = (\<lambda>_. ''h''), show_number = (\<lambda>_. ''0'')\<rparr>" "ttl sample_env = Some 86400000"
  "engine_date sample_env = (\<lambda>_. None)" "clk sample_env = (\<lambda>_. 0)"
  "d_employeeId sample_dto = ''E1''" "d_locationId sample_dto = ''L1''" "d_leaveType sample_dto = ''VACATION''"
  "d_startDate sample_dto = ''2030-01-07''" "d_endDate sample_dto = ''2030-01-09''" "d_notes sample_dto = None"
  "tables (node_of T) = T" "jobs (node_of T) = []"
  by (simp_all add: sample_env_def sample_dto_def node_of_def)

lemma start_inv: "ledger_inv (tables (node_of start_tables))"
  by code_simp

lemma pending_inv: "ledger_inv (tables (node_of pending_tables))"
  by (simp add: sample_sel ledger_inv_def wf_tables_def ids_ok_def balances_ok_def requests_ok_def idempotency_ok_def
      balance_inv_def request_inv_def exact_def sound_def account_of_def held_def days_in_def pending_tables_def
      sample_request_def sample_balance_def new_balance_def new_request_def request_key_def balance_key_def
      sample_record_def)

lemma sample_days:
  "utc_of_string ''2030-01-07'' = Some (21921 * ms_per_day)" "utc_of_string ''2030-01-09'' = Some (21923 * ms_per_day)"
proof -
  have "iso_date 21921 = ''2030-01-07''" "iso_date 21923 = ''2030-01-09''" "iso_day 21921" "iso_day 21923"
    by code_simp+
  then show "utc_of_string ''2030-01-07'' = Some (21921 * ms_per_day)" "utc_of_string ''2030-01-09'' = Some (21923 * ms_per_day)"
    using utc_of_iso_date[of 21921] utc_of_iso_date[of 21923] by simp_all
qed

lemma sample_not_past: "isNotInPast 0 ''2030-01-07''"
proof -
  have "date_utc (Fin (of_int (year_from_day (utc_day 0)))) (Fin (of_int (month_from_day (utc_day 0))))
      (Fin (of_int (date_from_day (utc_day 0)))) = Some 0"
    by code_simp
  then show ?thesis by (simp add: isNotInPast_def Let_def sample_days ms_per_day_def)
qed

lemma sample_in_order: "\<not> time_lt (midnight (\<lambda>_. None) ''2030-01-09'') (midnight (\<lambda>_. None) ''2030-01-07'')"
  by code_simp

lemma sample_length: "calculateDaysRequested ''2030-01-07'' ''2030-01-09'' = Fin 3"
  using calculateDaysRequested_days[OF sample_days] by simp

lemma sample_hash: "hashObject (plat sample_env) (dto_json sample_dto) = Some ''h''"
  by code_simp

lemma sample_create:
  obtains v t where "createRequest mem_orm sample_env sample_dto (Some ''k1'') (node_of start_tables) = (Inr v, t)"
proof -
  have "\<exists>v t. createRequest mem_orm sample_env sample_dto (Some ''k1'') (node_of start_tables) = (Inr v, t)"
    using sample_not_past sample_in_order sample_length sample_hash
    by (simp add: createRequest_def sample_sel)
      (simp add: run_simps start_tables_def checkIdempotency_def create_locked_def runCreateTransactionWithRetry_def
        retry_attempts_step create_tx_def lockEmployeeBalances_def assertNoOverlap_def atomicDeduct_def deducted_def
        new_balance_def new_request_def)
  then show ?thesis using that by blast
qed

lemma sample_approve:
  obtains v t where "approveRequest mem_orm 0 ''r1'' ''boss'' (node_of pending_tables) = (Inr v, t)"
proof -
  have "\<exists>v t. approveRequest mem_orm 0 ''r1'' ''boss'' (node_of pending_tables) = (Inr v, t)"
    by (simp add: run_simps approveRequest_def approve_tx_def pending_tables_def getRequestLockedOrThrow_def
        assertValidTransition_def finalizeUsed_def finalized_def sample_request_def sample_balance_def
        new_balance_def new_request_def)
  then show ?thesis using that by blast
qed

end
