(* ===== verification/Request_Lifecycle.thy ===== *)
theory Request_Lifecycle
  imports Concrete_Runs
begin

text \<open>
  The handlers of \<open>TimeOffService\<close> as a whole: what \<open>createRequest\<close>, \<open>approveRequest\<close>,
  \<open>rejectRequest\<close> and \<open>cancelRequest\<close> do to the tables and the event queue on every outcome.
\<close>

section \<open>Idempotency\<close>

definition live :: "int \<Rightarrow> idempotency_record \<Rightarrow> bool" where
  "live now i \<longleftrightarrow> \<not> time_lt (expiresAt i) (Some now)"

lemma idempotency_unique:
  "idempotency_ok is \<Longrightarrow> i \<in> set is \<Longrightarrow> j \<in> set is \<Longrightarrow> i_idempotencyKey i = i_idempotencyKey j \<Longrightarrow> i = j"
  by (auto simp: idempotency_ok_def distinct_map inj_on_def)

context orm_laws
begin

lemma checkIdempotency_run:
  assumes "checkIdempotency D now key hash s = (r, t)" and wf: "idempotency_ok (idempotency (tables s))"
  shows "tables t = tables s \<and> keeps undo s t \<and> (case r of
      Inl e \<Rightarrow> orm_error e \<or> e = HttpException 409 IDEMPOTENCY_CONFLICT \<and>
        (\<exists>i\<in>set (idempotency (tables s)). i_idempotencyKey i = key \<and> live now i \<and> requestHash i \<noteq> hash)
    | Inr None \<Rightarrow> \<forall>i\<in>set (idempotency (tables s)). i_idempotencyKey i = key \<longrightarrow> \<not> live now i
    | Inr (Some v) \<Rightarrow> \<exists>i\<in>set (idempotency (tables s)). i_idempotencyKey i = key \<and> live now i \<and>
        requestHash i = hash \<and> responseBody i = v)"
proof (cases "findOne (idempotencyRepository D) (where_all (\<lambda>i. i_idempotencyKey i = key)) s")
  case (Pair x u)
  show ?thesis
  proof (cases x)
    case (Inl e)
    with Pair assms(1) idem.findOne_err[OF Pair[unfolded Inl]] show ?thesis
      by (auto simp: checkIdempotency_def bindM_def)
  next
    case (Inr y)
    note f = idem.findOne_ok[OF Pair[unfolded Inr], simplified]
    show ?thesis
    proof (cases y)
      case None
      with assms(1) Pair Inr f show ?thesis by (auto simp: checkIdempotency_def bindM_def)
    next
      case (Some i)
      with f have i: "i \<in> set (idempotency (tables s))" "i_idempotencyKey i = key" by auto
      have only: "j = i" if "j \<in> set (idempotency (tables s))" "i_idempotencyKey j = key" for j
        using idempotency_unique[OF wf that(1) i(1)] that(2) i(2) by simp
      have "(r, t) = (if \<not> live now i then (Inr None, u)
          else if requestHash i \<noteq> hash then (Inl (HttpException 409 IDEMPOTENCY_CONFLICT), u)
          else (Inr (Some (responseBody i)), u))"
        using assms(1) Pair Inr Some by (simp add: checkIdempotency_def bindM_def live_def split: if_splits)
      then consider "r = Inr None" "\<not> live now i" "t = u"
        | "r = Inl (HttpException 409 IDEMPOTENCY_CONFLICT)" "live now i" "requestHash i \<noteq> hash" "t = u"
        | "r = Inr (Some (responseBody i))" "live now i" "requestHash i = hash" "t = u"
        by (auto split: if_splits)
      then show ?thesis
      proof cases
        case 1
        then have "\<forall>j\<in>set (idempotency (tables s)). i_idempotencyKey j = key \<longrightarrow> \<not> live now j"
          using only by metis
        with 1 f show ?thesis by simp
      next
        case 2
        with f i show ?thesis by (simp add: bexI[of _ i])
      next
        case 3
        with f i show ?thesis by (simp add: bexI[of _ i])
      qed
    qed
  qed
qed

lemma recoverAfterConstraint_run:
  assumes "recoverAfterConstraint D now key hash s = (r, t)" and wf: "idempotency_ok (idempotency (tables s))"
  shows "tables t = tables s \<and> keeps undo s t \<and> (case r of
      Inr (Some v) \<Rightarrow>
        (\<exists>i\<in>set (idempotency (tables s)). i_idempotencyKey i = key \<and> live now i \<and> requestHash i = hash \<and> responseBody i = v) \<or>
        (\<exists>x\<in>set (requests (tables s)). r_idempotencyKey x = key \<and> v = serializeRequest x)
    | Inr None \<Rightarrow> \<forall>x\<in>set (requests (tables s)). r_idempotencyKey x \<noteq> key
    | Inl e \<Rightarrow> orm_error e \<or> e = HttpException 409 IDEMPOTENCY_CONFLICT \<and>
        (\<exists>i\<in>set (idempotency (tables s)). i_idempotencyKey i = key \<and> live now i))"
proof (cases "checkIdempotency D now key hash s")
  case (Pair x u)
  note c = checkIdempotency_run[OF Pair wf]
  show ?thesis
  proof (cases x)
    case (Inl e)
    with c Pair assms(1) show ?thesis by (auto simp: recoverAfterConstraint_def bindM_def)
  next
    case (Inr y)
    show ?thesis
    proof (cases y)
      case (Some v)
      with c Pair Inr assms(1) show ?thesis by (auto simp: recoverAfterConstraint_def bindM_def)
    next
      case None
      with Pair Inr assms(1) have *: "bindM (findOne (requestRepository D) (where_all (\<lambda>r. r_idempotencyKey r = key)))
          (\<lambda>existingRequest. returnM (map_option serializeRequest existingRequest)) u = (r, t)"
        by (simp add: recoverAfterConstraint_def bindM_def)
      have u: "tables u = tables s" "keeps undo s u" using c by auto
      show ?thesis
      proof (cases r)
        case (Inl e)
        from *[unfolded Inl] show ?thesis
          using u by (cases rule: bindM_Inl_E) (auto simp: Inl dest!: req.findOne_err intro: keeps_trans)
      next
        case (Inr z)
        from *[unfolded Inr] obtain w where
          w: "findOne (requestRepository D) (where_all (\<lambda>r. r_idempotencyKey r = key)) u = (Inr w, t)"
            "z = map_option serializeRequest w"
          by (elim bindM_Inr_E) auto
        show ?thesis
          using req.findOne_ok[OF w(1), simplified] u w(2)
          by (cases w) (auto simp: Inr intro: keeps_trans)
      qed
    qed
  qed
qed

end

section \<open>Retrying the transaction\<close>

text \<open>
  A transaction that has no effect when it throws is run until it returns, at most three times; what
  is thrown in the end is not a transient error or comes from the third attempt.
\<close>

lemma retry_attempts_run:
  assumes "retry_attempts runTx n s = (r, t)" and "n \<le> maxAttempts"
    and quiet: "\<And>k s e t. runTx k s = (Inl e, t) \<Longrightarrow> tables t = tables s \<and> jobs t = jobs s"
  shows "\<exists>k s'. n \<le> k \<and> k \<le> maxAttempts \<and> tables s' = tables s \<and> jobs s' = jobs s \<and> runTx k s' = (r, t) \<and>
    (\<forall>e. r = Inl e \<longrightarrow> k = maxAttempts \<or> \<not> isSqliteTransientTxError e)"
  using assms(1,2)
proof (induction "maxAttempts - n" arbitrary: n s)
  case 0
  then have "n = maxAttempts" by simp
  with 0(2) have "runTx n s = (r, t)"
    by (subst (asm) retry_attempts_step) (auto split: prod.splits sum.splits)
  with \<open>n = maxAttempts\<close> show ?case by auto
next
  case (Suc m)
  show ?case
  proof (cases "\<exists>e u. runTx n s = (Inl e, u) \<and> isSqliteTransientTxError e")
    case True
    then obtain e u where u: "runTx n s = (Inl e, u)" "isSqliteTransientTxError e" by blast
    have "n < maxAttempts" using Suc.hyps(2) by simp
    with Suc.prems u have "retry_attempts runTx (n + 1) u = (r, t)"
      by (subst (asm) retry_attempts_step) simp
    moreover have "m = maxAttempts - (n + 1)" using Suc.hyps(2) by simp
    ultimately obtain k s' where "n + 1 \<le> k" "k \<le> maxAttempts"
      "tables s' = tables u" "jobs s' = jobs u" "runTx k s' = (r, t)"
      "\<forall>e. r = Inl e \<longrightarrow> k = maxAttempts \<or> \<not> isSqliteTransientTxError e"
      using Suc.hyps(1)[of "n + 1" u] \<open>n < maxAttempts\<close> by auto
    with quiet[OF u(1)] show ?thesis by (intro exI[of _ k] exI[of _ s']) simp
  next
    case False
    with Suc.prems(1) have "runTx n s = (r, t)"
      by (subst (asm) retry_attempts_step) (auto split: prod.splits sum.splits if_splits)
    with False Suc.prems(2) show ?thesis by (intro exI[of _ n] exI[of _ s]) auto
  qed
qed

section \<open>Creating a request\<close>

text \<open>Why the creation of a request may be refused, judged on the tables it started from.\<close>

definition create_refused :: "create_dto \<Rightarrow> js_num \<Rightarrow> tables \<Rightarrow> exc \<Rightarrow> bool" where
  "create_refused dto days T e \<longleftrightarrow>
     e = HttpException 409 OVERLAPPING_REQUEST \<and>
       (\<exists>x\<in>set (requests T). r_employeeId x = d_employeeId dto \<and> r_locationId x = d_locationId dto \<and> active x \<and>
          datesOverlap (d_startDate dto) (d_endDate dto) (startDate x) (endDate x)) \<or>
     e = HttpException 404 BALANCE_NOT_FOUND \<and>
       (d_employeeId dto, d_locationId dto, d_leaveType dto) \<notin> balance_key ` set (balances T) \<or>
     e = HttpException 422 INSUFFICIENT_BALANCE \<and>
       (\<exists>b\<in>set (balances T). balance_key b = (d_employeeId dto, d_locationId dto, d_leaveType dto) \<and>
          js_lt (availableBalance b) days)"

text \<open>The response of an earlier request with the key: its record, or the request itself.\<close>

definition known_response :: "string \<Rightarrow> string \<Rightarrow> request_view \<Rightarrow> tables \<Rightarrow> bool" where
  "known_response key hash v T \<longleftrightarrow>
     (\<exists>i\<in>set (idempotency T). i_idempotencyKey i = key \<and> requestHash i = hash \<and> responseBody i = v) \<or>
     (\<exists>x\<in>set (requests T). r_idempotencyKey x = key \<and> v = serializeRequest x)"

text \<open>
  The same with the reason why: the record was live at one of the times the handler looked, and the
  two conflicts about a key.
\<close>

definition known_live :: "env \<Rightarrow> string \<Rightarrow> string \<Rightarrow> request_view \<Rightarrow> tables \<Rightarrow> bool" where
  "known_live E key hash v T \<longleftrightarrow>
     (\<exists>i\<in>set (idempotency T). i_idempotencyKey i = key \<and> (\<exists>n. live (clk E n) i) \<and> requestHash i = hash \<and> responseBody i = v) \<or>
     (\<exists>x\<in>set (requests T). r_idempotencyKey x = key \<and> v = serializeRequest x)"

definition key_conflict :: "env \<Rightarrow> string \<Rightarrow> tables \<Rightarrow> exc \<Rightarrow> bool" where
  "key_conflict E key T e \<longleftrightarrow>
     e = HttpException 409 IDEMPOTENCY_CONFLICT \<and>
       (\<exists>i\<in>set (idempotency T). i_idempotencyKey i = key \<and> (\<exists>n. live (clk E n) i)) \<or>
     e = HttpException 409 BALANCE_CONFLICT \<and> (\<forall>x\<in>set (requests T). r_idempotencyKey x \<noteq> key)"

lemma known_live_response: "known_live E key hash v T \<Longrightarrow> known_response key hash v T"
  by (auto simp: known_live_def known_response_def)

context orm_laws
begin

lemma create_transaction_run:
  assumes run: "transaction D (create_tx D lifetime now dto key days hash) s = (r, t)" and wf: "wf_tables (tables s)"
  shows "jobs t = jobs s \<and> (case r of
      Inr saved \<Rightarrow> created lifetime now dto key days hash saved (tables s) (tables t)
    | Inl e \<Rightarrow> tables t = tables s \<and> (orm_error e \<or> create_refused dto days (tables s) e))"
proof -
  have j: "jobs t = jobs s" by (rule transaction_jobs[OF run tx_frames(2)])
  show ?thesis
  proof (cases r)
    case (Inr saved)
    from run[unfolded Inr] obtain s1 s2 where "tables s1 = tables s" "tables t = tables s2"
      "create_tx D lifetime now dto key days hash s1 = (Inr saved, s2)"
      by (rule transaction_Inr)
    with create_tx_ok[of lifetime now dto key days hash s1 saved s2] wf j Inr show ?thesis by simp
  next
    case (Inl e)
    have "tables t = tables s \<and> (orm_error e \<or>
        (\<exists>s1 s2. tables s1 = tables s \<and> jobs s1 = jobs s \<and> create_tx D lifetime now dto key days hash s1 = (Inl e, s2)))"
      using run[unfolded Inl] by (rule transaction_Inl) (rule frame_onD[OF tx_frames(1)])
    moreover have "orm_error e \<or> create_refused dto days (tables s) e"
      if "tables s1 = tables s" "create_tx D lifetime now dto key days hash s1 = (Inl e, s2)" for s1 s2
      using create_tx_err[OF that(2)] unfolding create_refused_def that(1) by argo
    ultimately show ?thesis using j Inl by auto
  qed
qed

lemma create_failed_run:
  assumes run: "create_failed D E key hash err s = (r, t)" and wf: "wf_tables (tables s)"
  shows "tables t = tables s \<and> jobs t = jobs s \<and> (case r of
      Inr v \<Rightarrow> known_live E key hash v (tables s)
    | Inl e \<Rightarrow> orm_error e \<or> e = err \<or> key_conflict E key (tables s) e)"
proof -
  have rec: "tables u = tables x \<and> jobs u = jobs x \<and> (case y of
        Inr (Some v) \<Rightarrow> known_live E key hash v (tables x)
      | Inr None \<Rightarrow> \<forall>z\<in>set (requests (tables s)). r_idempotencyKey z \<noteq> key
      | Inl e \<Rightarrow> orm_error e \<or> key_conflict E key (tables s) e)"
    if "recoverAfterConstraint D (clk E n) key hash x = (y, u)" "tables x = tables s" for n x y u
    using recoverAfterConstraint_run[OF that(1)] wf that(2)
    by (auto simp: known_live_def key_conflict_def keeps_def wf_tables_def split: sum.splits option.splits)
  define first where "first = (if isSqliteConstraintError err then recoverAfterConstraint D (clk E 6) key hash
            else returnM None)"
  obtain y u where f: "first s = (y, u)" by (cases "first s")
  have y: "tables u = tables s \<and> jobs u = jobs s \<and> (case y of
        Inr (Some v) \<Rightarrow> known_live E key hash v (tables s)
      | Inr None \<Rightarrow> True
      | Inl e \<Rightarrow> orm_error e \<or> key_conflict E key (tables s) e)"
    using f rec[of 6 s y u] by (auto simp: first_def split: if_splits sum.splits option.splits)
  show ?thesis
  proof (cases "y = Inr None \<and> isSqliteTransientTxError err")
    case True
    obtain z w where g: "recoverAfterConstraint D (clk E 7) key hash u = (z, w)"
      by (cases "recoverAfterConstraint D (clk E 7) key hash u")
    show ?thesis
      using run True f y rec[OF g] g
      by (auto simp: key_conflict_def create_failed_def bindM_def first_def[symmetric] split: sum.splits option.splits)
  next
    case False
    with run f y show ?thesis
      by (auto simp: create_failed_def bindM_def first_def[symmetric] split: sum.splits option.splits if_splits)
  qed
qed

lemma create_locked_run:
  assumes run: "create_locked D E dto key days hash s = (r, t)" and wf: "wf_tables (tables s)"
  shows "(case r of
      Inr v \<Rightarrow> tables t = tables s \<and> jobs t = jobs s \<and> known_live E key hash v (tables s) \<or>
        (\<exists>saved k. created (ttl E) (clk E k) dto key days hash saved (tables s) (tables t) \<and> v = serializeRequest saved \<and>
           jobs t = jobs s @ [NotifyHcm (r_id saved) (d_employeeId dto) (d_locationId dto) (d_leaveType dto) days])
    | Inl e \<Rightarrow> tables t = tables s \<and> jobs t = jobs s \<and>
        (orm_error e \<or> create_refused dto days (tables s) e \<or> key_conflict E key (tables s) e))"
proof -
  obtain c u where c: "checkIdempotency D (clk E 2) key hash s = (c, u)"
    by (cases "checkIdempotency D (clk E 2) key hash s")
  note check = checkIdempotency_run[OF c]
  have wi: "idempotency_ok (idempotency (tables s))" using wf by (simp add: wf_tables_def)
  show ?thesis
  proof (cases "c = Inr None")
    case False
    with run c check[OF wi] show ?thesis
      by (auto simp: create_locked_def bindM_def known_live_def key_conflict_def keeps_def split: sum.splits option.splits)
  next
    case True
    have u: "tables u = tables s" "jobs u = jobs s" using check[OF wi] by (auto simp: keeps_def)
    define runTx where "runTx = (\<lambda>attempt. transaction D (create_tx D (ttl E) (clk E (2 + attempt)) dto key days hash))"
    have eq: "create_locked D E dto key days hash s = catchM (bindM (retry_attempts runTx 1) (\<lambda>createdRequest.
          bindM (setImmediate (NotifyHcm (r_id createdRequest) (d_employeeId dto) (d_locationId dto) (d_leaveType dto) days))
            (\<lambda>_. returnM (serializeRequest createdRequest)))) (create_failed D E key hash) u"
      using c True
      by (simp add: create_locked_def runCreateTransactionWithRetry_def runTx_def bindM_app[of "checkIdempotency D (clk E 2) key hash"])
    obtain x w where x: "retry_attempts runTx 1 u = (x, w)" by (cases "retry_attempts runTx 1 u")
    have quiet: "tables t' = tables s' \<and> jobs t' = jobs s'"
      if "runTx k s' = (Inl e, t')" for k s' e t'
    proof -
      have "frame_on (\<lambda>s. undo (conn s)) (create_tx D (ttl E) (clk E (2 + k)) dto key days hash)" by (rule tx_frames)
      then show ?thesis
        using transaction_Inl[OF that[unfolded runTx_def]] transaction_jobs[OF that[unfolded runTx_def] tx_frames(2)]
        by (auto simp: frame_on_def)
    qed
    have "\<exists>k s'. 1 \<le> k \<and> k \<le> maxAttempts \<and> tables s' = tables u \<and> jobs s' = jobs u \<and> runTx k s' = (x, w) \<and>
        (\<forall>e. x = Inl e \<longrightarrow> k = maxAttempts \<or> \<not> isSqliteTransientTxError e)"
      by (rule retry_attempts_run[OF x _ quiet]) (auto simp: maxAttempts_def)
    then obtain k s' where k: "tables s' = tables s" "jobs s' = jobs s" "runTx k s' = (x, w)"
      using u by auto
    note tx = create_transaction_run[OF k(3)[unfolded runTx_def], unfolded k(1,2), OF wf]
    show ?thesis
    proof (cases x)
      case (Inr saved)
      with run[unfolded eq] x tx show ?thesis
        by (auto simp: bindM_def catchM_def setImmediate_def intro!: exI[of _ saved] exI[of _ "2 + k"])
    next
      case (Inl err)
      with run[unfolded eq] x have f: "create_failed D E key hash err w = (r, t)"
        by (simp add: bindM_def catchM_def)
      show ?thesis
        using create_failed_run[OF f] tx Inl wf by (auto split: sum.splits)
    qed
  qed
qed

end

lemma createRequest_cases:
  assumes "createRequest D E dto header s = (r, t)"
  obtains (missing) "header \<in> {None, Some []}" "r = Inl (HttpException 400 MISSING_IDEMPOTENCY_KEY)" "t = s"
  | (dates) "r = Inl (HttpException 422 INVALID_DATE_RANGE)" "t = s"
      "\<not> isNotInPast (clk E 0) (d_startDate dto) \<or>
       time_lt (midnight (engine_date E) (d_endDate dto)) (midnight (engine_date E) (d_startDate dto))"
  | (unhashable) "r = Inl (JsError ''TypeError'')" "t = s"
  | (run) key hash where "header = Some key" "key \<noteq> []" "isNotInPast (clk E 0) (d_startDate dto)"
      "\<not> time_lt (midnight (engine_date E) (d_endDate dto)) (midnight (engine_date E) (d_startDate dto))"
      "hashObject (plat E) (dto_json dto) = Some hash"
      "bindM (checkIdempotency D (clk E 1) key hash)
         (\<lambda>idempotencyCheck. case idempotencyCheck of
            Some v \<Rightarrow> returnM v
          | None \<Rightarrow> create_locked D E dto key (calculateDaysRequested (d_startDate dto) (d_endDate dto)) hash) s = (r, t)"
  using assms unfolding createRequest_def Let_def
  by (auto split: option.splits if_splits)

context orm_laws
begin

lemma createRequest_run_keys:
  assumes run: "createRequest D E dto header s = (r, t)" and wf: "wf_tables (tables s)"
  shows "(case r of
      Inr v \<Rightarrow> \<exists>key hash. header = Some key \<and> key \<noteq> [] \<and> hashObject (plat E) (dto_json dto) = Some hash \<and>
        (tables t = tables s \<and> jobs t = jobs s \<and> known_live E key hash v (tables s) \<or>
         (\<exists>saved k. created (ttl E) (clk E k) dto key (calculateDaysRequested (d_startDate dto) (d_endDate dto)) hash saved
              (tables s) (tables t) \<and> v = serializeRequest saved \<and>
            jobs t = jobs s @ [NotifyHcm (r_id saved) (d_employeeId dto) (d_locationId dto) (d_leaveType dto)
              (calculateDaysRequested (d_startDate dto) (d_endDate dto))]))
    | Inl e \<Rightarrow> tables t = tables s \<and> jobs t = jobs s \<and>
        (orm_error e \<or> create_refused dto (calculateDaysRequested (d_startDate dto) (d_endDate dto)) (tables s) e \<or>
         (\<exists>key. header = Some key \<and> key_conflict E key (tables s) e) \<or>
         e = HttpException 400 MISSING_IDEMPOTENCY_KEY \<and> header \<in> {None, Some []} \<or>
         e = HttpException 422 INVALID_DATE_RANGE \<and>
           (\<not> isNotInPast (clk E 0) (d_startDate dto) \<or>
            time_lt (midnight (engine_date E) (d_endDate dto)) (midnight (engine_date E) (d_startDate dto)))))"
  using run
proof (cases rule: createRequest_cases)
  case (run key hash)
  let ?days = "calculateDaysRequested (d_startDate dto) (d_endDate dto)"
  obtain c u where c: "checkIdempotency D (clk E 1) key hash s = (c, u)"
    by (cases "checkIdempotency D (clk E 1) key hash s")
  have wi: "idempotency_ok (idempotency (tables s))" using wf by (simp add: wf_tables_def)
  note check = checkIdempotency_run[OF c wi]
  show ?thesis
  proof (cases "c = Inr None")
    case True
    have u: "tables u = tables s" "jobs u = jobs s" using check by (auto simp: keeps_def)
    have l: "create_locked D E dto key ?days hash u = (r, t)"
      using run(6) c True by (simp add: bindM_app)
    note cl = create_locked_run[OF l, unfolded u, OF wf]
    show ?thesis
    proof (cases r)
      case (Inr v)
      with cl run(1,2,5) show ?thesis by auto
    next
      case (Inl e)
      with cl run(1) show ?thesis by auto
    qed
  next
    case False
    with run c check show ?thesis
      by (auto simp: bindM_def known_live_def key_conflict_def keeps_def split: sum.splits option.splits)
  qed
qed auto

lemma createRequest_run:
  assumes run: "createRequest D E dto header s = (r, t)" and wf: "wf_tables (tables s)"
  shows "(case r of
      Inr v \<Rightarrow> \<exists>key hash. header = Some key \<and> key \<noteq> [] \<and> hashObject (plat E) (dto_json dto) = Some hash \<and>
        (tables t = tables s \<and> jobs t = jobs s \<and> known_response key hash v (tables s) \<or>
         (\<exists>saved k. created (ttl E) (clk E k) dto key (calculateDaysRequested (d_startDate dto) (d_endDate dto)) hash saved
              (tables s) (tables t) \<and> v = serializeRequest saved \<and>
            jobs t = jobs s @ [NotifyHcm (r_id saved) (d_employeeId dto) (d_locationId dto) (d_leaveType dto)
              (calculateDaysRequested (d_startDate dto) (d_endDate dto))]))
    | Inl e \<Rightarrow> tables t = tables s \<and> jobs t = jobs s \<and>
        (orm_error e \<or> create_refused dto (calculateDaysRequested (d_startDate dto) (d_endDate dto)) (tables s) e \<or>
         e = HttpException 409 IDEMPOTENCY_CONFLICT \<or> e = HttpException 409 BALANCE_CONFLICT \<or>
         e = HttpException 400 MISSING_IDEMPOTENCY_KEY \<and> header \<in> {None, Some []} \<or>
         e = HttpException 422 INVALID_DATE_RANGE \<and>
           (\<not> isNotInPast (clk E 0) (d_startDate dto) \<or>
            time_lt (midnight (engine_date E) (d_endDate dto)) (midnight (engine_date E) (d_startDate dto)))))"
proof (cases r)
  case (Inr v)
  from createRequest_run_keys[OF assms] show ?thesis unfolding Inr sum.case by (elim exE conjE disjE) (auto dest: known_live_response)
next
  case (Inl e)
  from createRequest_run_keys[OF assms] show ?thesis unfolding Inl sum.case key_conflict_def by blast
qed

end

lemma createRequest_inv:
  assumes "orm_laws D undo" and "ledger_inv (tables s)" and "createRequest D E dto header s = (r, t)"
  shows "ledger_inv (tables t)"
proof -
  note run = orm_laws.createRequest_run[OF assms(1,3) ledger_inv_wf[OF assms(2)]]
  show ?thesis
  proof (cases r)
    case (Inl e)
    with run assms(2) show ?thesis by simp
  next
    case (Inr v)
    with run assms(2) show ?thesis by (auto dest: created_inv)
  qed
qed

text \<open>
  C2: \<open>createRequest\<close> on a ledger in order either creates the request or changes nothing. When it
  creates it, one row of the employee pays for it, the request is appended as pending together with
  its idempotency record, no active request of the employee overlaps it, and one HCM validation is
  queued. When it returns an earlier response or throws, tables and queue are as before; a 404, 409
  or 422 of the business rules is justified by the tables. The ledger stays in order.
\<close>

theorem createRequest_correct:
  assumes "orm_laws D undo" and "ledger_inv (tables s)" and "createRequest D E dto header s = (r, t)"
  shows "ledger_inv (tables t) \<and> (case r of
      Inr v \<Rightarrow> \<exists>key hash. header = Some key \<and> key \<noteq> [] \<and> hashObject (plat E) (dto_json dto) = Some hash \<and>
        (tables t = tables s \<and> jobs t = jobs s \<and> known_response key hash v (tables s) \<or>
         (\<exists>saved k. created (ttl E) (clk E k) dto key (calculateDaysRequested (d_startDate dto) (d_endDate dto)) hash saved
              (tables s) (tables t) \<and> v = serializeRequest saved \<and>
            jobs t = jobs s @ [NotifyHcm (r_id saved) (d_employeeId dto) (d_locationId dto) (d_leaveType dto)
              (calculateDaysRequested (d_startDate dto) (d_endDate dto))]))
    | Inl e \<Rightarrow> tables t = tables s \<and> jobs t = jobs s \<and>
        (orm_error e \<or> create_refused dto (calculateDaysRequested (d_startDate dto) (d_endDate dto)) (tables s) e \<or>
         e = HttpException 409 IDEMPOTENCY_CONFLICT \<or> e = HttpException 409 BALANCE_CONFLICT \<or>
         e = HttpException 400 MISSING_IDEMPOTENCY_KEY \<and> header \<in> {None, Some []} \<or>
         e = HttpException 422 INVALID_DATE_RANGE \<and>
           (\<not> isNotInPast (clk E 0) (d_startDate dto) \<or>
            time_lt (midnight (engine_date E) (d_endDate dto)) (midnight (engine_date E) (d_startDate dto)))))"
  using orm_laws.createRequest_run[OF assms(1,3) ledger_inv_wf[OF assms(2)]] createRequest_inv[OF assms] by simp

theorem createRequest_correct_witness:
  "\<exists>v t. createRequest mem_orm sample_env sample_dto (Some ''k1'') (node_of start_tables) = (Inr v, t) \<and>
     ledger_inv (tables t) \<and>
     (\<exists>saved k. created (Some 86400000) (clk sample_env k) sample_dto ''k1'' (Fin 3) ''h'' saved start_tables (tables t))"
proof -
  obtain v t where run: "createRequest mem_orm sample_env sample_dto (Some ''k1'') (node_of start_tables) = (Inr v, t)"
    by (rule sample_create)
  have "\<not> known_response ''k1'' ''h'' v start_tables" by (simp add: known_response_def start_tables_def)
  with createRequest_correct[OF mem.orm_laws_axioms start_inv run] run show ?thesis
    using sample_hash sample_length by (auto simp: sample_sel)
qed

lemma orm_frames:
  assumes "orm_laws D undo"
  shows "frame_on (\<lambda>s. undo (conn s)) (approve_tx D now requestId approverId)"
    and "frame_on (\<lambda>s. undo (conn s)) (reject_tx D now requestId approverId reason)"
    and "frame_on (\<lambda>s. undo (conn s)) (cancel_tx D requestId reason')"
  using orm_laws.tx_frames[OF assms] by auto

lemma setImmediate_tables:
  "setImmediate j s = (x, t) \<Longrightarrow> tables t = tables s" "setImmediate j s = (Inl e, t) \<Longrightarrow> False"
  by (auto simp: setImmediate_def)

lemma keeps_request_updates:
  "keeps_request (\<lambda>r. r\<lparr>r_status := APPROVED, approvedBy := Some a, approvedAt := Some n\<rparr>)"
  "keeps_request (\<lambda>r. r\<lparr>r_status := REJECTED, approvedBy := Some a, approvedAt := Some n, rejectionReason := Some q\<rparr>)"
  "keeps_request (\<lambda>r. r\<lparr>r_status := CANCELLED, rejectionReason := q'\<rparr>)"
  by (simp_all add: keeps_request_def request_key_def)

text \<open>The outcome of settling a request with status \<open>target\<close> and the balance move \<open>f\<close>.\<close>

definition settlement ::
  "string \<Rightarrow> (timeoff_request \<Rightarrow> timeoff_request) \<Rightarrow> (js_num \<Rightarrow> employee_balance \<Rightarrow> employee_balance) \<Rightarrow>
   'h node \<Rightarrow> exc + request_view \<Rightarrow> 'h node \<Rightarrow> bool" where
  "settlement requestId upd f s r t \<longleftrightarrow> ledger_inv (tables t) \<and> (case r of
      Inr v \<Rightarrow> \<exists>r'. v = serializeRequest r' \<and> settled requestId upd f r' (tables s) (tables t)
    | Inl e \<Rightarrow> tables t = tables s \<and>
        (orm_error e \<or>
         e = HttpException 404 REQUEST_NOT_FOUND \<and> Some requestId \<notin> r_id ` set (requests (tables s)) \<or>
         e = HttpException 409 INVALID_STATUS_TRANSITION \<and>
           (\<exists>x\<in>set (requests (tables s)). r_id x = Some requestId \<and> r_status x \<noteq> PENDING)))"

lemma settlements:
  assumes "orm_laws D undo" and "ledger_inv (tables s)"
  shows "approveRequest D now requestId approverId s = (r, t) \<Longrightarrow>
      settlement requestId (\<lambda>r. r\<lparr>r_status := APPROVED, approvedBy := Some approverId, approvedAt := Some now\<rparr>) finalized s r t"
    and "rejectRequest D now requestId approverId reason s = (r, t) \<Longrightarrow>
      settlement requestId (\<lambda>r. r\<lparr>r_status := REJECTED, approvedBy := Some approverId, approvedAt := Some now,
        rejectionReason := Some reason\<rparr>) released s r t"
    and "cancelRequest D requestId reason' s = (r, t) \<Longrightarrow>
      settlement requestId (\<lambda>r. r\<lparr>r_status := CANCELLED, rejectionReason := reason'\<rparr>) released s r t"
  unfolding settlement_def approveRequest_def rejectRequest_def cancelRequest_def settle_txs
  by (erule orm_laws.settle_run[OF assms(1) _ assms(2)];
      use orm_frames[OF assms(1)] in \<open>auto simp: keeps_request_updates settle_txs dest: setImmediate_tables\<close>)+

text \<open>
  C3: \<open>approveRequest\<close> settles a pending request: its status becomes approved and its days go
  from pending to used, or the tables are unchanged and the request is unknown, already settled, or
  the database failed. On a ledger in order the balance never refuses, so the underflow error of the
  code is not reached, and the ledger stays in order.
\<close>

theorem approveRequest_correct:
  assumes "orm_laws D undo" and "ledger_inv (tables s)" and "approveRequest D now requestId approverId s = (r, t)"
  shows "settlement requestId (\<lambda>r. r\<lparr>r_status := APPROVED, approvedBy := Some approverId, approvedAt := Some now\<rparr>)
    finalized s r t"
  using assms by (rule settlements)

theorem approveRequest_correct_witness:
  "\<exists>v t. approveRequest mem_orm 0 ''r1'' ''boss'' (node_of pending_tables) = (Inr v, t) \<and>
     settlement ''r1'' (\<lambda>r. r\<lparr>r_status := APPROVED, approvedBy := Some ''boss'', approvedAt := Some 0\<rparr>) finalized
       (node_of pending_tables) (Inr v) t"
proof -
  obtain v t where run: "approveRequest mem_orm 0 ''r1'' ''boss'' (node_of pending_tables) = (Inr v, t)"
    by (rule sample_approve)
  with approveRequest_correct[OF mem.orm_laws_axioms pending_inv run] show ?thesis by blast
qed

text \<open>
  C4: \<open>rejectRequest\<close> and \<open>cancelRequest\<close> settle a pending request by giving its days back to
  available, with the same guarantees.
\<close>

theorem reject_and_cancel_correct:
  assumes "orm_laws D undo" and "ledger_inv (tables s)"
    and "rejectRequest D now requestId approverId reason s = (r, t)" and "cancelRequest D requestId' reason' s = (r', t')"
  shows "settlement requestId (\<lambda>r. r\<lparr>r_status := REJECTED, approvedBy := Some approverId, approvedAt := Some now,
      rejectionReason := Some reason\<rparr>) released s r t
    \<and> settlement requestId' (\<lambda>r. r\<lparr>r_status := CANCELLED, rejectionReason := reason'\<rparr>) released s r' t'"
  using settlements(2)[OF assms(1-3)] settlements(3)[OF assms(1,2,4)] by blast

theorem reject_and_cancel_correct_witness:
  "\<exists>r t r' t'. rejectRequest mem_orm 0 ''r1'' ''boss'' ''no'' (node_of pending_tables) = (r, t) \<and>
     cancelRequest mem_orm ''r1'' None (node_of pending_tables) = (r', t') \<and>
     settlement ''r1'' (\<lambda>r. r\<lparr>r_status := REJECTED, approvedBy := Some ''boss'', approvedAt := Some 0,
        rejectionReason := Some ''no''\<rparr>) released (node_of pending_tables) r t \<and>
     settlement ''r1'' (\<lambda>r. r\<lparr>r_status := CANCELLED, rejectionReason := None\<rparr>) released (node_of pending_tables) r' t'"
  using reject_and_cancel_correct[OF mem.orm_laws_axioms pending_inv prod.collapse[symmetric] prod.collapse[symmetric]]
  by (metis prod.collapse)

section \<open>Replays\<close>

lemma created_record:
  assumes "created lifetime now dto key days hash saved T T'"
  shows "\<exists>i\<in>set (idempotency T'). i_idempotencyKey i = key \<and> requestHash i = hash \<and>
    responseBody i = serializeRequest saved \<and>
    expiresAt i = (case lifetime of None \<Rightarrow> None | Some l \<Rightarrow> time_clip (now + l))"
proof -
  from assms obtain i where "i_idempotencyKey i = key" "requestHash i = hash" "responseBody i = serializeRequest saved"
    "expiresAt i = (case lifetime of None \<Rightarrow> None | Some l \<Rightarrow> time_clip (now + l))"
    "idempotency T' = idempotency T @ [i]"
    unfolding created_def by (elim conjE bexE exE) (rule that; simp)
  then show ?thesis by (intro bexI[of _ i]) simp_all
qed

text \<open>What a call with a key answers when a live record of the key is in the table.\<close>

context orm_laws
begin

lemma createRequest_recorded:
  assumes run: "createRequest D E dto (Some key) s = (r, t)" and wf: "wf_tables (tables s)"
    and i: "i \<in> set (idempotency (tables s))" "i_idempotencyKey i = key" "live (clk E 1) i"
    and h: "hashObject (plat E) (dto_json dto) = Some hash" and key: "key \<noteq> []"
    and dates: "isNotInPast (clk E 0) (d_startDate dto)"
      "\<not> time_lt (midnight (engine_date E) (d_endDate dto)) (midnight (engine_date E) (d_startDate dto))"
  shows "tables t = tables s \<and> jobs t = jobs s \<and>
    ((\<exists>e. r = Inl e \<and> orm_error e) \<or>
     r = (if requestHash i = hash then Inr (responseBody i) else Inl (HttpException 409 IDEMPOTENCY_CONFLICT)))"
proof -
  have run': "bindM (checkIdempotency D (clk E 1) key hash)
         (\<lambda>idempotencyCheck. case idempotencyCheck of
            Some v \<Rightarrow> returnM v
          | None \<Rightarrow> create_locked D E dto key (calculateDaysRequested (d_startDate dto) (d_endDate dto)) hash) s = (r, t)"
    using run h key dates by (simp add: createRequest_def Let_def)
  have wi: "idempotency_ok (idempotency (tables s))" using wf by (simp add: wf_tables_def)
  obtain c u where c: "checkIdempotency D (clk E 1) key hash s = (c, u)"
    by (cases "checkIdempotency D (clk E 1) key hash s")
  note check = checkIdempotency_run[OF c wi]
  have only: "j = i" if "j \<in> set (idempotency (tables s))" "i_idempotencyKey j = key" for j
    using idempotency_unique[OF wi that(1) i(1)] that(2) i(2) by simp
  have T: "tables u = tables s" "jobs u = jobs s" using check by (auto simp: keeps_def)
  have "c \<noteq> Inr None" using check i by auto
  then consider (err) e where "c = Inl e" | (hit) v where "c = Inr (Some v)"
    by (cases c) auto
  then show ?thesis
  proof cases
    case err
    have "orm_error e \<or> e = HttpException 409 IDEMPOTENCY_CONFLICT \<and> requestHash i \<noteq> hash"
      using check err only by auto
    moreover have "r = Inl e" "t = u" using run' c err by (auto simp: bindM_app)
    ultimately show ?thesis using T by auto
  next
    case hit
    have "requestHash i = hash" "v = responseBody i" using check hit only by auto
    moreover have "r = Inr v" "t = u" using run' c hit by (auto simp: bindM_app)
    ultimately show ?thesis using T by auto
  qed
qed

end

text \<open>
  C8: Retrying is safe. After \<open>createRequest\<close> created a request under a new key, a second call with
  the same payload and key, at any later state that still has the idempotency records and before
  the record expires, returns the first response and changes nothing, unless the database fails.
\<close>

theorem createRequest_replay:
  assumes "orm_laws D undo" and "wf_tables (tables s)" and "createRequest D E dto (Some key) s = (Inr v, t)"
    and "key \<notin> i_idempotencyKey ` set (idempotency (tables s))" and "key \<notin> r_idempotencyKey ` set (requests (tables s))"
    and "ttl E = Some lifetime" and "plat E' = plat E" and "\<forall>k. clk E' 1 \<le> clk E k + lifetime"
    and "isNotInPast (clk E' 0) (d_startDate dto)"
    and "\<not> time_lt (midnight (engine_date E') (d_endDate dto)) (midnight (engine_date E') (d_startDate dto))"
    and "wf_tables (tables u)" and "set (idempotency (tables t)) \<subseteq> set (idempotency (tables u))"
    and "createRequest D E' dto (Some key) u = (r, w)"
  shows "tables w = tables u \<and> jobs w = jobs u \<and> (r = Inr v \<or> (\<exists>e. r = Inl e \<and> orm_error e))"
proof -
  from orm_laws.createRequest_run[OF assms(1,3,2)] assms(4,5) obtain hash saved k where
    h: "key \<noteq> []" "hashObject (plat E) (dto_json dto) = Some hash" and v: "v = serializeRequest saved"
    and cr: "created (ttl E) (clk E k) dto key (calculateDaysRequested (d_startDate dto) (d_endDate dto)) hash saved
              (tables s) (tables t)"
    by (auto simp: known_response_def)
  obtain i where i: "i \<in> set (idempotency (tables t))" "i_idempotencyKey i = key" "requestHash i = hash"
    "responseBody i = v" "expiresAt i = time_clip (clk E k + lifetime)"
    using created_record[OF cr] unfolding v assms(6) by auto
  have "live (clk E' 1) i"
    using i(5) assms(8) by (auto simp: live_def time_clip_def not_less)
  with orm_laws.createRequest_recorded[OF assms(1,13,11), of i hash] i h assms(7,9,10,12)
  show ?thesis by auto
qed

theorem createRequest_replay_witness:
  "\<exists>v t. createRequest mem_orm sample_env sample_dto (Some ''k1'') (node_of start_tables) = (Inr v, t) \<and>
     (case createRequest mem_orm sample_env sample_dto (Some ''k1'') t of (r, w) \<Rightarrow>
        tables w = tables t \<and> (r = Inr v \<or> (\<exists>e. r = Inl e \<and> orm_error e)))"
proof -
  obtain v t where run: "createRequest mem_orm sample_env sample_dto (Some ''k1'') (node_of start_tables) = (Inr v, t)"
    by (rule sample_create)
  obtain r w where again: "createRequest mem_orm sample_env sample_dto (Some ''k1'') t = (r, w)"
    by (metis prod.exhaust)
  have wf: "wf_tables (tables t)"
    using createRequest_inv[OF mem.orm_laws_axioms start_inv run] by (rule ledger_inv_wf)
  have "tables w = tables t \<and> jobs w = jobs t \<and> (r = Inr v \<or> (\<exists>e. r = Inl e \<and> orm_error e))"
    by (rule createRequest_replay[where lifetime = 86400000, OF mem.orm_laws_axioms ledger_inv_wf[OF start_inv] run _ _ _ _ _ _ _ wf subset_refl again])
      (simp_all add: sample_sel start_tables_def sample_not_past sample_in_order)
  with run again show ?thesis by auto
qed

text \<open>
  C9: A key names one payload. While a key's record is live, a call with the key and a payload of
  another hash answers 409 \<open>IDEMPOTENCY_CONFLICT\<close> (or the database fails) and changes nothing.
\<close>

theorem key_reuse_conflict:
  assumes "orm_laws D undo" and "wf_tables (tables s)" and "createRequest D E dto (Some key) s = (r, t)"
    and "i \<in> set (idempotency (tables s))" and "i_idempotencyKey i = key" and "live (clk E 1) i" and "key \<noteq> []"
    and "hashObject (plat E) (dto_json dto) = Some hash" and "requestHash i \<noteq> hash"
    and "isNotInPast (clk E 0) (d_startDate dto)"
    and "\<not> time_lt (midnight (engine_date E) (d_endDate dto)) (midnight (engine_date E) (d_startDate dto))"
  shows "tables t = tables s \<and> jobs t = jobs s \<and>
    (r = Inl (HttpException 409 IDEMPOTENCY_CONFLICT) \<or> (\<exists>e. r = Inl e \<and> orm_error e))"
  using orm_laws.createRequest_recorded[OF assms(1,3,2,4,5,6,8,7,10,11)] assms(9) by auto

theorem key_reuse_conflict_witness:
  "case createRequest mem_orm sample_env sample_dto (Some ''k0'') (node_of pending_tables) of (r, t) \<Rightarrow>
     tables t = pending_tables \<and> (r = Inl (HttpException 409 IDEMPOTENCY_CONFLICT) \<or> (\<exists>e. r = Inl e \<and> orm_error e))"
proof -
  obtain r t where run: "createRequest mem_orm sample_env sample_dto (Some ''k0'') (node_of pending_tables) = (r, t)"
    by (metis prod.exhaust)
  have "tables t = tables (node_of pending_tables) \<and> jobs t = jobs (node_of pending_tables) \<and>
      (r = Inl (HttpException 409 IDEMPOTENCY_CONFLICT) \<or> (\<exists>e. r = Inl e \<and> orm_error e))"
    by (rule key_reuse_conflict[OF mem.orm_laws_axioms ledger_inv_wf[OF pending_inv] run, of sample_record "''h''"])
      (simp_all add: sample_sel sample_not_past sample_in_order sample_hash[unfolded sample_sel] pending_tables_def
        sample_record_def live_def)
  with run show ?thesis by (simp add: sample_sel)
qed

text \<open>
  C10: A key is spent for good. Once a request carries the key and its idempotency record has expired,
  a call with the key creates nothing and changes nothing, whatever its payload: the unique column on
  the request outlives the record. The call answers with the request of long ago, as a success and
  without comparing the payloads, or it throws because the dates, an overlap or the balance refuse the
  payload or the database fails. It never answers 409 \<open>IDEMPOTENCY_CONFLICT\<close>, and it never processes the
  payload anew, although the comment in the code says that expired records allow re-processing.
\<close>

theorem expired_key_not_reprocessed:
  assumes "orm_laws D undo" and "wf_tables (tables s)" and "x \<in> set (requests (tables s))" and "r_idempotencyKey x = key"
    and "\<And>i n. i \<in> set (idempotency (tables s)) \<Longrightarrow> i_idempotencyKey i = key \<Longrightarrow> \<not> live (clk E n) i"
    and "createRequest D E dto (Some key) s = (r, t)"
  shows "tables t = tables s \<and> jobs t = jobs s \<and> (case r of
      Inr v \<Rightarrow> v = serializeRequest x
    | Inl e \<Rightarrow> orm_error e \<or> create_refused dto (calculateDaysRequested (d_startDate dto) (d_endDate dto)) (tables s) e \<or>
        e = HttpException 400 MISSING_IDEMPOTENCY_KEY \<and> key = [] \<or>
        e = HttpException 422 INVALID_DATE_RANGE \<and>
          (\<not> isNotInPast (clk E 0) (d_startDate dto) \<or>
           time_lt (midnight (engine_date E) (d_endDate dto)) (midnight (engine_date E) (d_startDate dto))))"
proof -
  have no: "\<not> created l n dto key d h saved (tables s) (tables t)" for l n d h saved
  proof
    assume "created l n dto key d h saved (tables s) (tables t)"
    then have "requests_ok (requests (tables s) @ [saved])" and "core_request saved = core_request (new_request dto key d)"
      by (auto simp: created_def)
    with assms(3,4) show False
      using core_requestD(8)[of saved "new_request dto key d"]
      by (auto simp: requests_ok_def new_request_def)
  qed
  have v: "v = serializeRequest x" if known: "known_live E key hash v (tables s)" for hash v
  proof -
    from known assms(5) obtain y where y: "y \<in> set (requests (tables s))" "r_idempotencyKey y = key" "v = serializeRequest y"
      by (auto simp: known_live_def)
    moreover have "distinct (map r_idempotencyKey (requests (tables s)))" using assms(2) by (simp add: wf_tables_def requests_ok_def)
    ultimately show ?thesis using assms(3,4) by (auto simp: distinct_map dest: inj_onD)
  qed
  have conflict: "\<not> key_conflict E key (tables s) e" for e using assms(3-5) by (auto simp: key_conflict_def)
  from orm_laws.createRequest_run_keys[OF assms(1,6,2)] show ?thesis
    by (auto simp: no conflict split: sum.splits dest: v)
qed

text \<open>
  A day later the key comes back with another week: the answer is a success with the old request.
\<close>

definition late_env :: env where
  "late_env = sample_env\<lparr>clk := (\<lambda>_. 90000000)\<rparr>"

definition late_dto :: create_dto where
  "late_dto = sample_dto\<lparr>d_startDate := ''2030-01-14'', d_endDate := ''2030-01-16''\<rparr>"

lemma late_days:
  "utc_of_string ''2030-01-14'' = Some (21928 * ms_per_day)" "utc_of_string ''2030-01-16'' = Some (21930 * ms_per_day)"
proof -
  have "iso_date 21928 = ''2030-01-14''" "iso_date 21930 = ''2030-01-16''" "iso_day 21928" "iso_day 21930"
    by code_simp+
  then show "utc_of_string ''2030-01-14'' = Some (21928 * ms_per_day)" "utc_of_string ''2030-01-16'' = Some (21930 * ms_per_day)"
    using utc_of_iso_date[of 21928] utc_of_iso_date[of 21930] by simp_all
qed

lemma late_checks:
  "isNotInPast 90000000 ''2030-01-14''" "calculateDaysRequested ''2030-01-14'' ''2030-01-16'' = Fin 3"
proof -
  have "date_utc (Fin (of_int (year_from_day (utc_day 90000000)))) (Fin (of_int (month_from_day (utc_day 90000000))))
      (Fin (of_int (date_from_day (utc_day 90000000)))) = Some 86400000"
    by code_simp
  then show "isNotInPast 90000000 ''2030-01-14''" by (simp add: isNotInPast_def Let_def late_days ms_per_day_def)
  show "calculateDaysRequested ''2030-01-14'' ''2030-01-16'' = Fin 3" using calculateDaysRequested_days[OF late_days] by simp
qed

lemma late_in_order: "\<not> time_lt (midnight (\<lambda>_. None) ''2030-01-16'') (midnight (\<lambda>_. None) ''2030-01-14'')"
  by code_simp

lemma late_hash: "hashObject (plat sample_env) (dto_json late_dto) = Some ''h''"
  by code_simp

lemma late_apart: "\<not> datesOverlap ''2030-01-14'' ''2030-01-16'' ''2030-01-07'' ''2030-01-09''"
  using datesOverlap_days[OF late_days sample_days] by simp

lemma unique_message: "\<not> transient_message ''SQLITE_CONSTRAINT: constraint failed''"
  by code_simp

lemma late_create:
  obtains v t where "createRequest mem_orm late_env late_dto (Some ''k0'') (node_of pending_tables) = (Inr v, t)"
proof -
  have dto: "d_employeeId late_dto = ''E1''" "d_locationId late_dto = ''L1''" "d_leaveType late_dto = ''VACATION''"
    "d_startDate late_dto = ''2030-01-14''" "d_endDate late_dto = ''2030-01-16''" "d_notes late_dto = None"
    by (simp_all add: late_dto_def sample_sel)
  have env: "plat late_env = plat sample_env" "ttl late_env = Some 86400000" "engine_date late_env = (\<lambda>_. None)"
    "clk late_env = (\<lambda>_. 90000000)" by (simp_all add: late_env_def sample_sel)
  have "\<exists>v t. createRequest mem_orm late_env late_dto (Some ''k0'') (node_of pending_tables) = (Inr v, t)"
    using late_checks late_in_order late_hash late_apart unique_message
    by (simp add: createRequest_def dto env)
      (simp add: run_simps dto env pending_tables_def sample_record_def sample_request_def sample_balance_def checkIdempotency_def
        create_locked_def runCreateTransactionWithRetry_def
        retry_attempts_step create_tx_def lockEmployeeBalances_def assertNoOverlap_def atomicDeduct_def deducted_def
        new_balance_def new_request_def create_failed_def recoverAfterConstraint_def active_def)
  then show ?thesis using that by blast
qed

theorem expired_key_not_reprocessed_witness:
  "\<exists>t. createRequest mem_orm late_env late_dto (Some ''k0'') (node_of pending_tables) = (Inr (serializeRequest sample_request), t) \<and>
     tables t = pending_tables"
proof -
  obtain v t where run: "createRequest mem_orm late_env late_dto (Some ''k0'') (node_of pending_tables) = (Inr v, t)"
    by (rule late_create)
  have x: "sample_request \<in> set (requests (tables (node_of pending_tables)))" "r_idempotencyKey sample_request = ''k0''"
    by (simp_all add: sample_sel pending_tables_def sample_request_def new_request_def)
  have "\<not> live (clk late_env n) i"
    if "i \<in> set (idempotency (tables (node_of pending_tables)))" "i_idempotencyKey i = ''k0''" for i n
    using that by (simp add: sample_sel pending_tables_def sample_record_def live_def late_env_def)
  from expired_key_not_reprocessed[OF mem.orm_laws_axioms ledger_inv_wf[OF pending_inv] x this run] run
  show ?thesis by (simp add: sample_sel)
qed

end
