(* ===== verification/Circuit_Breaker.thy ===== *)
theory Circuit_Breaker
  imports LL_Prelude Constants
begin

text \<open>
  \<open>src/src/common/utils/circuit-breaker.util.js\<close>. A call has two synchronous parts with the guarded
  function between them: \<open>admit\<close> decides whether it runs, \<open>onSuccess\<close> or \<open>onFailure\<close> record how it
  ended. Other calls may be admitted and end in between, so the breaker is first a state machine
  over these three events; \<open>call\<close> composes them for one call. Times are milliseconds; a configured
  number that failed to parse is \<open>None\<close>. The mirror \<open>_failures\<close> and the unused \<open>_halfOpenInFlight\<close> are
  left out.
\<close>

section \<open>The breaker\<close>

record breaker_config =
  failureThreshold :: "int option"
  cooldownMs :: "int option"
  timeoutMs :: int

record breaker =
  cb_state :: circuit_state
  failureCount :: nat
  openedAt :: "int option"
  nextAttemptAt :: "int option"
  successCount :: nat

definition new_breaker :: breaker where
  "new_breaker = \<lparr>cb_state = CLOSED, failureCount = 0, openedAt = None, nextAttemptAt = None, successCount = 0\<rparr>"

text \<open>\<open>Date.now() - (this._openedAt || ...)\<close>: a zero is falsy like \<open>null\<close>.\<close>

definition truthy_time :: "int option \<Rightarrow> int option" where
  "truthy_time t = (case t of Some x \<Rightarrow> if x = 0 then None else Some x | None \<Rightarrow> None)"

definition elapsed :: "breaker_config \<Rightarrow> int \<Rightarrow> breaker \<Rightarrow> int option" where
  "elapsed cfg now cb = (case truthy_time (openedAt cb) of
      Some t \<Rightarrow> Some (now - t)
    | None \<Rightarrow> (case truthy_time (nextAttemptAt cb) of
        Some n \<Rightarrow> (case cooldownMs cfg of Some c \<Rightarrow> Some (now - (n - c)) | None \<Rightarrow> None)
      | None \<Rightarrow> Some 0))"

definition remaining :: "breaker_config \<Rightarrow> int \<Rightarrow> breaker \<Rightarrow> int option" where
  "remaining cfg now cb = (case (cooldownMs cfg, elapsed cfg now cb) of
      (Some c, Some e) \<Rightarrow> Some (c - e) | _ \<Rightarrow> None)"

text \<open>\<open>Inl\<close> the remaining cooldown of an open breaker, \<open>Inr\<close> the breaker that lets the call through.\<close>

definition admit :: "breaker_config \<Rightarrow> int \<Rightarrow> breaker \<Rightarrow> int + breaker" where
  "admit cfg now cb =
     (if cb_state cb = OPEN then
        (case remaining cfg now cb of
           Some r \<Rightarrow> if 0 < r then Inl r else Inr (cb\<lparr>cb_state := HALF_OPEN\<rparr>)
         | None \<Rightarrow> Inr (cb\<lparr>cb_state := HALF_OPEN\<rparr>))
      else Inr cb)"

definition onSuccess :: "breaker \<Rightarrow> breaker" where
  "onSuccess cb =
     (if cb_state cb = HALF_OPEN
      then cb\<lparr>cb_state := CLOSED, failureCount := 0, openedAt := None, nextAttemptAt := None,
              successCount := successCount cb + 1\<rparr>
      else cb\<lparr>failureCount := 0, successCount := successCount cb + 1\<rparr>)"

definition reaches :: "nat \<Rightarrow> int option \<Rightarrow> bool" where
  "reaches n threshold = (case threshold of None \<Rightarrow> False | Some t \<Rightarrow> t \<le> int n)"

definition onFailure :: "breaker_config \<Rightarrow> int \<Rightarrow> breaker \<Rightarrow> breaker" where
  "onFailure cfg now cb =
     (let cb1 = cb\<lparr>failureCount := failureCount cb + 1\<rparr>
      in if cb_state cb1 = HALF_OPEN \<or> reaches (failureCount cb1) (failureThreshold cfg)
         then cb1\<lparr>cb_state := OPEN, openedAt := Some now,
                  nextAttemptAt := map_option (\<lambda>c. now + c) (cooldownMs cfg)\<rparr>
         else cb1)"

definition breaker_reset :: "breaker \<Rightarrow> breaker" where
  "breaker_reset cb = cb\<lparr>cb_state := CLOSED, failureCount := 0, openedAt := None, nextAttemptAt := None\<rparr>"

record breaker_status =
  st_state :: circuit_state
  st_failures :: nat
  st_nextAttemptAt :: "int option"

definition getStatus :: "breaker \<Rightarrow> breaker_status" where
  "getStatus cb = \<lparr>st_state = cb_state cb, st_failures = failureCount cb,
     st_nextAttemptAt = truthy_time (nextAttemptAt cb)\<rparr>"

text \<open>
  \<open>_withTimeout\<close>: the guarded function ends after some milliseconds with a value or an error; if that
  takes as long as the timer, the timer wins and the outcome is lost.
\<close>

datatype 'e cb_error = CircuitOpen int | TimedOut | Failed 'e

definition withTimeout :: "int \<Rightarrow> ('e + 'a) \<times> int \<Rightarrow> 'e cb_error + 'a" where
  "withTimeout timeout outcome = (case outcome of (r, duration) \<Rightarrow>
     if timeout \<le> duration then Inl TimedOut
     else (case r of Inl e \<Rightarrow> Inl (Failed e) | Inr x \<Rightarrow> Inr x))"

text \<open>
  One call: the state is the time, the breaker and what the function acts on. Time passes while the
  function runs, up to the timer.
\<close>

record 'w cb_world =
  time_now :: int
  cb :: breaker
  net :: 'w

definition call ::
  "breaker_config \<Rightarrow> ('w \<Rightarrow> (('e + 'a) \<times> int) \<times> 'w) \<Rightarrow> ('w cb_world, 'e cb_error, 'a) sem" where
  "call cfg fn = (\<lambda>s. case admit cfg (time_now s) (cb s) of
      Inl r \<Rightarrow> (Inl (CircuitOpen r), s)
    | Inr b \<Rightarrow> (case fn (net s) of (outcome, w) \<Rightarrow>
        let t = time_now s + min (snd outcome) (timeoutMs cfg) in
        (case withTimeout (timeoutMs cfg) outcome of
           Inl e \<Rightarrow> (Inl e, \<lparr>time_now = t, cb = onFailure cfg t b, net = w\<rparr>)
         | Inr x \<Rightarrow> (Inr x, \<lparr>time_now = t, cb = onSuccess b, net = w\<rparr>))))"

text \<open>
  The options of the constructor: one that is \<open>null\<close> or absent takes its default, \<open>resetTimeoutMs\<close>
  comes before \<open>cooldownMs\<close>, and a number that failed to parse stays what it is.
\<close>

record breaker_options =
  o_failureThreshold :: "int option option"
  o_resetTimeoutMs :: "int option option"
  o_cooldownMs :: "int option option"
  o_timeout :: "int option"

definition config_of_options :: "breaker_options \<Rightarrow> breaker_config" where
  "config_of_options opts =
     \<lparr>failureThreshold = (case o_failureThreshold opts of Some n \<Rightarrow> n | None \<Rightarrow> Some 5),
      cooldownMs = (case o_resetTimeoutMs opts of Some n \<Rightarrow> n
        | None \<Rightarrow> (case o_cooldownMs opts of Some n \<Rightarrow> n | None \<Rightarrow> Some 30000)),
      timeoutMs = (case o_timeout opts of Some n \<Rightarrow> n | None \<Rightarrow> 10000)\<rparr>"

text \<open>
  \<open>call\<close> in full: the function is the argument or the one bound by the constructor, and a breaker that
  refuses hands its error to the fallback when there is one.
\<close>

datatype 'e call_error = NoFunction | CallError "'e cb_error"

type_synonym ('w, 'e, 'a) guarded = "'w \<Rightarrow> (('e + 'a) \<times> int) \<times> 'w"

definition call_full ::
  "breaker_config \<Rightarrow> (int \<Rightarrow> ('w cb_world, 'e call_error, 'a) sem) option \<Rightarrow> ('w, 'e, 'a) guarded option \<Rightarrow>
     ('w, 'e, 'a) guarded option \<Rightarrow> ('w cb_world, 'e call_error, 'a) sem" where
  "call_full cfg fallback bound arg =
     (case (case arg of Some f \<Rightarrow> Some f | None \<Rightarrow> bound) of
        None \<Rightarrow> throwM NoFunction
      | Some callFn \<Rightarrow> (\<lambda>s. case (admit cfg (time_now s) (cb s), fallback) of
            (Inl r, Some f) \<Rightarrow> f r s
          | _ \<Rightarrow> catchM (call cfg callFn) (\<lambda>e. throwM (CallError e)) s))"

lemma call_full_call:
  "call_full cfg None bound (Some fn) s = catchM (call cfg fn) (\<lambda>e. throwM (CallError e)) s"
  by (simp add: call_full_def split: sum.split)

lemma call_full_fallback:
  "admit cfg (time_now s) (cb s) = Inl r \<Longrightarrow> call_full cfg (Some f) bound (Some fn) s = f r s"
  by (simp add: call_full_def)

record breaker_dump =
  j_state :: circuit_state
  j_failureCount :: nat
  j_openedAt :: "int option"

definition breaker_toJSON :: "breaker \<Rightarrow> breaker_dump" where
  "breaker_toJSON b = \<lparr>j_state = cb_state b, j_failureCount = failureCount b, j_openedAt = openedAt b\<rparr>"

section \<open>The machine of interleaved calls\<close>

text \<open>
  Any number of calls may be under way: an admitted call raises \<open>running\<close>, and a running call may
  succeed or fail at any later time. A run is recorded event by event.
\<close>

record machine =
  clock :: int
  brk :: breaker
  running :: nat

datatype call_event = Passed int | Admitted | Refused int | Succeeded | FailedAt int | WasReset

inductive step :: "breaker_config \<Rightarrow> machine \<Rightarrow> call_event \<Rightarrow> machine \<Rightarrow> bool" for cfg where
  tick: "0 \<le> d \<Longrightarrow> step cfg m (Passed d) (m\<lparr>clock := clock m + d\<rparr>)"
| enter: "admit cfg (clock m) (brk m) = Inr b \<Longrightarrow> step cfg m Admitted (m\<lparr>brk := b, running := running m + 1\<rparr>)"
| refuse: "admit cfg (clock m) (brk m) = Inl r \<Longrightarrow> step cfg m (Refused r) m"
| succeed: "0 < running m \<Longrightarrow> step cfg m Succeeded (m\<lparr>brk := onSuccess (brk m), running := running m - 1\<rparr>)"
| fail: "0 < running m \<Longrightarrow>
    step cfg m (FailedAt (clock m)) (m\<lparr>brk := onFailure cfg (clock m) (brk m), running := running m - 1\<rparr>)"
| rst: "step cfg m WasReset (m\<lparr>brk := breaker_reset (brk m)\<rparr>)"

inductive_simps step_simps [simp]:
  "step cfg m (Passed d) m'" "step cfg m Admitted m'" "step cfg m (Refused r) m'" "step cfg m Succeeded m'"
  "step cfg m (FailedAt t) m'" "step cfg m WasReset m'"

inductive runs_to :: "breaker_config \<Rightarrow> machine \<Rightarrow> call_event list \<Rightarrow> machine \<Rightarrow> bool" for cfg where
  stop: "runs_to cfg m [] m"
| go: "step cfg m e m1 \<Longrightarrow> runs_to cfg m1 es m' \<Longrightarrow> runs_to cfg m (e # es) m'"

inductive_simps runs_to_simps [simp]: "runs_to cfg m [] m'" "runs_to cfg m (e # es) m'"

definition start_machine :: "int \<Rightarrow> machine" where
  "start_machine t0 = \<lparr>clock = t0, brk = new_breaker, running = 0\<rparr>"

text \<open>
  What the events say: how many calls have failed since one last succeeded (or the breaker was
  reset), counted on from \<open>k\<close>, and when calls failed.
\<close>

fun streak :: "nat \<Rightarrow> call_event list \<Rightarrow> nat" where
  "streak k [] = k"
| "streak k (Succeeded # es) = streak 0 es"
| "streak k (WasReset # es) = streak 0 es"
| "streak k (FailedAt t # es) = streak (k + 1) es"
| "streak k (e # es) = streak k es"

definition failure_times :: "call_event list \<Rightarrow> int set" where
  "failure_times es = {t. FailedAt t \<in> set es}"

lemma failure_times_simps [simp]:
  "failure_times [] = {}" "failure_times (FailedAt t # es) = insert t (failure_times es)"
  "failure_times (Passed d # es) = failure_times es" "failure_times (Admitted # es) = failure_times es"
  "failure_times (Refused r # es) = failure_times es" "failure_times (Succeeded # es) = failure_times es"
  "failure_times (WasReset # es) = failure_times es"
  by (auto simp: failure_times_def)

text \<open>
  The invariant, with \<open>k\<close> failures in a row so far and \<open>F\<close> the times of all failures: a closed
  breaker is below the threshold; an open one opened at one of the failures; a half-open one has sat
  out its cooldown.
\<close>

definition breaker_inv :: "breaker_config \<Rightarrow> int \<Rightarrow> int \<Rightarrow> nat \<Rightarrow> int set \<Rightarrow> machine \<Rightarrow> bool" where
  "breaker_inv cfg n c k F m \<longleftrightarrow> failureCount (brk m) = k \<and>
     (case cb_state (brk m) of
        CLOSED \<Rightarrow> int k < n \<and> openedAt (brk m) = None \<and> nextAttemptAt (brk m) = None
      | st \<Rightarrow> \<exists>t\<in>F. openedAt (brk m) = Some t \<and> t \<le> clock m \<and> nextAttemptAt (brk m) = Some (t + c) \<and>
          (st = HALF_OPEN \<longrightarrow> t + c \<le> clock m))"

lemma remaining_open:
  assumes "cooldownMs cfg = Some c" and "openedAt b = Some t" and "nextAttemptAt b = Some (t + c)" and "t \<le> now"
  shows "(case remaining cfg now b of Some r \<Rightarrow> 0 < r | None \<Rightarrow> False) \<longleftrightarrow> now < t + c"
    and "now < t + c \<Longrightarrow> remaining cfg now b = Some (t + c - now)"
  using assms by (auto simp: remaining_def elapsed_def truthy_time_def)

lemma admit_open:
  assumes "cooldownMs cfg = Some c" and "cb_state b = OPEN" and "openedAt b = Some t" and "nextAttemptAt b = Some (t + c)" and "t \<le> now"
  shows "admit cfg now b = (if now < t + c then Inl (t + c - now) else Inr (b\<lparr>cb_state := HALF_OPEN\<rparr>))"
  using remaining_open[OF assms(1,3-5)] assms(2) by (auto simp: admit_def split: option.splits)

lemma breaker_inv_step:
  assumes "step cfg m e m'" and "breaker_inv cfg n c k F m" and cfg: "failureThreshold cfg = Some n" "1 \<le> n" "cooldownMs cfg = Some c"
  shows "breaker_inv cfg n c (streak k [e]) (F \<union> failure_times [e]) m'"
  using assms(1)
proof cases
  case (enter b)
  show ?thesis
  proof (cases "cb_state (brk m) = OPEN")
    case True
    with assms(2) obtain t where t: "t \<in> F" "openedAt (brk m) = Some t" "nextAttemptAt (brk m) = Some (t + c)" "t \<le> clock m"
      by (auto simp: breaker_inv_def)
    from admit_open[OF cfg(3) True t(2-4)] enter(3) have "t + c \<le> clock m" "b = (brk m)\<lparr>cb_state := HALF_OPEN\<rparr>"
      by (auto split: if_splits)
    with t assms(2) enter show ?thesis by (auto simp: breaker_inv_def)
  next
    case False
    with enter have "b = brk m" by (simp add: admit_def)
    with enter assms(2) False show ?thesis by (cases "cb_state (brk m)") (auto simp: breaker_inv_def)
  qed
qed (use assms(2) cfg in \<open>auto simp: breaker_inv_def onSuccess_def onFailure_def breaker_reset_def reaches_def Let_def
      split: circuit_state.splits\<close>)

lemma breaker_inv_run:
  assumes "failureThreshold cfg = Some n" "1 \<le> n" "cooldownMs cfg = Some c"
  shows "runs_to cfg m es m' \<Longrightarrow> breaker_inv cfg n c k F m \<Longrightarrow> breaker_inv cfg n c (streak k es) (F \<union> failure_times es) m'"
proof (induction arbitrary: k F rule: runs_to.induct)
  case (go m e m1 es m')
  have "streak k (e # es) = streak (streak k [e]) es" "failure_times (e # es) = failure_times [e] \<union> failure_times es"
    by (cases e; simp)+
  with go.IH[OF breaker_inv_step[OF go.hyps(1) go.prems assms]] show ?case by (simp add: Un_assoc)
qed simp

text \<open>
  C11: However calls interleave, the breaker counts the failures in a row and acts on them. In every
  state a run can reach its count is the number of calls that have failed since the last success (or reset). A
  closed breaker has fewer of them than the threshold and lets every call through. An open one opened
  at the time of one of the failures and refuses, with the time that is left, until the cooldown has
  passed since; from then on the next call goes through as a probe and the breaker is half open. The
  next failure leaves the breaker open exactly when it was not closed or the failures in a row reach
  the threshold with it, and a success closes it unless it is open and still waiting.
\<close>

theorem breaker_invariant:
  assumes "runs_to cfg (start_machine t0) es m" and "failureThreshold cfg = Some n" and "1 \<le> n" and "cooldownMs cfg = Some c"
  shows "failureCount (brk m) = streak 0 es \<and>
    (case cb_state (brk m) of
       CLOSED \<Rightarrow> int (streak 0 es) < n \<and> admit cfg (clock m) (brk m) = Inr (brk m)
     | OPEN \<Rightarrow> (\<exists>t\<in>failure_times es. openedAt (brk m) = Some t \<and> nextAttemptAt (brk m) = Some (t + c) \<and>
         admit cfg (clock m) (brk m) =
           (if clock m < t + c then Inl (t + c - clock m) else Inr ((brk m)\<lparr>cb_state := HALF_OPEN\<rparr>)))
     | HALF_OPEN \<Rightarrow> (\<exists>t\<in>failure_times es. openedAt (brk m) = Some t \<and> t + c \<le> clock m) \<and>
         admit cfg (clock m) (brk m) = Inr (brk m)) \<and>
    (cb_state (onFailure cfg (clock m) (brk m)) = OPEN \<longleftrightarrow> cb_state (brk m) \<noteq> CLOSED \<or> n \<le> int (streak 0 es) + 1) \<and>
    (cb_state (onSuccess (brk m)) = CLOSED \<longleftrightarrow> cb_state (brk m) \<noteq> OPEN) \<and> failureCount (onSuccess (brk m)) = 0"
proof -
  have "breaker_inv cfg n c 0 {} (start_machine t0)"
    using assms(3) by (simp add: breaker_inv_def start_machine_def new_breaker_def)
  from breaker_inv_run[OF assms(2-4,1) this]
  have inv: "breaker_inv cfg n c (streak 0 es) (failure_times es) m" by simp
  then have "cb_state (onFailure cfg (clock m) (brk m)) = OPEN \<longleftrightarrow> cb_state (brk m) \<noteq> CLOSED \<or> n \<le> int (streak 0 es) + 1"
    using assms(2) by (cases "cb_state (brk m)") (auto simp: breaker_inv_def onFailure_def reaches_def Let_def)
  moreover have "cb_state (onSuccess (brk m)) = CLOSED \<longleftrightarrow> cb_state (brk m) \<noteq> OPEN"
    by (cases "cb_state (brk m)") (simp_all add: onSuccess_def)
  moreover have "failureCount (onSuccess (brk m)) = 0" by (simp add: onSuccess_def)
  ultimately show ?thesis
    using inv admit_open[OF assms(4), of "brk m"]
    by (cases "cb_state (brk m)") (auto simp: breaker_inv_def admit_def)
qed

definition sample_config :: breaker_config where
  "sample_config = \<lparr>failureThreshold = Some 5, cooldownMs = Some 30000, timeoutMs = 10000\<rparr>"

text \<open>
  Two calls fail at the threshold of two, one is refused in the cooldown, and after it a probe fails
  too: the breaker is open again from that time on.
\<close>

definition sample_run :: "call_event list" where
  "sample_run = [Admitted, Admitted, FailedAt 7, FailedAt 7, Passed 10000, Refused 20000, Passed 20000, Admitted, FailedAt 30007]"

definition sample_end :: machine where
  "sample_end = \<lparr>clock = 30007, brk = \<lparr>cb_state = OPEN, failureCount = 3, openedAt = Some 30007, nextAttemptAt = Some 60007,
     successCount = 0\<rparr>, running = 0\<rparr>"

theorem breaker_invariant_witness:
  "runs_to (sample_config\<lparr>failureThreshold := Some 2\<rparr>) (start_machine 7) sample_run sample_end \<and>
   admit (sample_config\<lparr>failureThreshold := Some 2\<rparr>) 30007 (brk sample_end) = Inl 30000 \<and> failureCount (brk sample_end) = 3"
proof -
  let ?cfg = "sample_config\<lparr>failureThreshold := Some 2\<rparr>"
  have r: "runs_to ?cfg (start_machine 7) sample_run sample_end"
    by (simp add: sample_run_def sample_end_def start_machine_def new_breaker_def sample_config_def admit_def onFailure_def
        reaches_def remaining_def elapsed_def truthy_time_def)
  from breaker_invariant[OF r, of 2 30000]
  show ?thesis using r by (simp add: sample_config_def sample_end_def sample_run_def)
qed

text \<open>
  Fast failure and recovery. An open breaker with a set opening time refuses every call until
  the cooldown has passed, without running the function and without any change; from then on the
  next call runs the function, closes the breaker when it succeeds in time, and opens it again for a
  full cooldown when it fails.
\<close>

theorem call_when_open:
  assumes "cb_state (cb s) = OPEN" and "openedAt (cb s) = Some t" and "t \<noteq> 0" and "cooldownMs cfg = Some c"
    and "fn (net s) = ((r, d), w)" and "d < timeoutMs cfg"
  shows "(time_now s < t + c \<longrightarrow> call cfg fn s = (Inl (CircuitOpen (t + c - time_now s)), s)) \<and>
    (t + c \<le> time_now s \<longrightarrow> (case r of
        Inr x \<Rightarrow> call cfg fn s = (Inr x, \<lparr>time_now = time_now s + d, cb = onSuccess ((cb s)\<lparr>cb_state := HALF_OPEN\<rparr>), net = w\<rparr>)
          \<and> cb_state (cb (snd (call cfg fn s))) = CLOSED
      | Inl e \<Rightarrow> fst (call cfg fn s) = Inl (Failed e) \<and> cb_state (cb (snd (call cfg fn s))) = OPEN
          \<and> openedAt (cb (snd (call cfg fn s))) = Some (time_now s + d)))"
  using assms
  by (auto simp: call_def admit_def remaining_def elapsed_def truthy_time_def withTimeout_def onSuccess_def
      onFailure_def Let_def split: sum.splits)

theorem call_when_open_witness:
  "call sample_config (\<lambda>w. ((Inr ''ok'' :: unit + string, 5), w))
      \<lparr>time_now = 50000, cb = new_breaker\<lparr>cb_state := OPEN, failureCount := 5, openedAt := Some 1000,
        nextAttemptAt := Some 31000\<rparr>, net = ()\<rparr>
    = (Inr ''ok'', \<lparr>time_now = 50005, cb = new_breaker\<lparr>successCount := 1\<rparr>, net = ()\<rparr>)"
  using call_when_open[of "\<lparr>time_now = 50000, cb = new_breaker\<lparr>cb_state := OPEN, failureCount := 5,
      openedAt := Some 1000, nextAttemptAt := Some 31000\<rparr>, net = ()\<rparr>" 1000 sample_config 30000
      "\<lambda>w. ((Inr ''ok'' :: unit + string, 5), w)" "Inr ''ok''" 5 "()"]
  by (simp add: sample_config_def onSuccess_def new_breaker_def)

text \<open>
  A half-open breaker is no single probe. Whenever it lets one call through it lets every further
  call through as well, until one of them ends: nothing counts the probes in flight.
\<close>

theorem half_open_admits_all:
  assumes "cb_state (brk m) = HALF_OPEN"
  shows "runs_to cfg m (replicate k Admitted) (m\<lparr>running := running m + k\<rparr>)"
  using assms
proof (induction k arbitrary: m)
  case (Suc k)
  from Suc.IH[of "m\<lparr>running := running m + 1\<rparr>"] Suc.prems show ?case by (simp add: admit_def)
qed simp

theorem half_open_admits_all_witness:
  "runs_to sample_config \<lparr>clock = 40000, brk = new_breaker\<lparr>cb_state := HALF_OPEN\<rparr>, running = 1\<rparr> (replicate 4 Admitted)
     (\<lparr>clock = 40000, brk = new_breaker\<lparr>cb_state := HALF_OPEN\<rparr>, running = 1\<rparr>\<lparr>running := 1 + 4\<rparr>)"
  using half_open_admits_all[of "\<lparr>clock = 40000, brk = new_breaker\<lparr>cb_state := HALF_OPEN\<rparr>, running = 1\<rparr>" sample_config 4]
  by simp

end
