(* ===== verification/Retry.thy ===== *)
theory Retry
  imports LL_Prelude Js_Number
begin

text \<open>
  \<open>src/src/common/utils/retry.util.js\<close>. The retried function acts on some state; what happens during
  a pause (time passes, other handlers run) is the argument \<open>sleep\<close>. An attempt limit that failed to
  parse is \<open>None\<close>. A loop whose body never ran throws \<open>undefined\<close>, here \<open>None\<close>.
\<close>

text \<open>The parts of a thrown error the code looks at: \<open>code\<close> and \<open>response.status\<close>.\<close>

record js_error =
  err_code :: "string option"
  err_status :: "nat option"

definition isRetryable :: "js_error \<Rightarrow> bool" where
  "isRetryable e =
     (if err_code e = Some ''CIRCUIT_OPEN'' \<or> err_code e = Some ''CIRCUIT_HALF_OPEN'' then False
      else case err_status e of
        Some st \<Rightarrow> if st = 429 \<or> st = 408 then True else if 400 \<le> st \<and> st < 500 then False else True
      | None \<Rightarrow> True)"

definition exponentialDelay :: "int \<Rightarrow> nat \<Rightarrow> int" where
  "exponentialDelay baseDelayMs attempt = baseDelayMs * 2 ^ (attempt - 1)"

definition cappedDelay :: "int \<Rightarrow> int \<Rightarrow> nat \<Rightarrow> int" where
  "cappedDelay baseDelayMs maxDelayMs attempt = min (exponentialDelay baseDelayMs attempt) maxDelayMs"

text \<open>\<open>random\<close> is the value of \<open>Math.random()\<close>.\<close>

definition actualDelay :: "bool \<Rightarrow> js_num \<Rightarrow> int \<Rightarrow> int \<Rightarrow> nat \<Rightarrow> js_num" where
  "actualDelay jitter random baseDelayMs maxDelayMs attempt =
     (let capped = Fin (of_int (cappedDelay baseDelayMs maxDelayMs attempt))
      in if jitter then js_mul capped (js_add (Fin (1 / 2)) (js_mul random (Fin (1 / 2)))) else capped)"

function retry_from ::
  "int option \<Rightarrow> (nat \<Rightarrow> ('s, js_error, 'a) sem) \<Rightarrow> (nat \<Rightarrow> 's \<Rightarrow> 's) \<Rightarrow> nat \<Rightarrow> ('s, js_error option, 'a) sem" where
  "retry_from maxAttempts fn sleep attempt =
     (case maxAttempts of
        None \<Rightarrow> throwM None
      | Some n \<Rightarrow>
          if int attempt \<le> n
          then catchM (fn attempt)
                 (\<lambda>error. if int attempt = n \<or> \<not> isRetryable error then throwM (Some error)
                          else (\<lambda>s. retry_from maxAttempts fn sleep (attempt + 1) (sleep attempt s)))
          else throwM None)"
  by pat_completeness auto
termination
  by (relation "measure (\<lambda>(m, f, sl, a). case m of None \<Rightarrow> 0 | Some n \<Rightarrow> nat (n + 1 - int a))") auto

declare retry_from.simps [simp del]

definition withRetry ::
  "int option \<Rightarrow> (nat \<Rightarrow> ('s, js_error, 'a) sem) \<Rightarrow> (nat \<Rightarrow> 's \<Rightarrow> 's) \<Rightarrow> ('s, js_error option, 'a) sem" where
  "withRetry maxAttempts fn sleep = retry_from maxAttempts fn sleep 1"

text \<open>\<open>retryWithBackoff\<close>: zero options take their defaults, and the caller may say what to retry.\<close>

definition backoff_delay :: "nat \<Rightarrow> nat \<Rightarrow> nat \<Rightarrow> nat \<Rightarrow> nat" where
  "backoff_delay initialDelayMs backoffFactor maxDelayMs attempt =
     min (if maxDelayMs = 0 then 5000 else maxDelayMs)
       ((if initialDelayMs = 0 then 100 else initialDelayMs) * (if backoffFactor = 0 then 2 else backoffFactor) ^ (attempt - 1))"

function backoff_from ::
  "nat \<Rightarrow> ('e \<Rightarrow> bool) \<Rightarrow> ('s, 'e, 'a) sem \<Rightarrow> (nat \<Rightarrow> 's \<Rightarrow> 's) \<Rightarrow> nat \<Rightarrow> ('s, 'e option, 'a) sem" where
  "backoff_from maxAttempts shouldRetry fn sleep attempt =
     (if attempt < maxAttempts
      then catchM fn
             (\<lambda>err. if maxAttempts \<le> attempt + 1 \<or> \<not> shouldRetry err then throwM (Some err)
                    else (\<lambda>s. backoff_from maxAttempts shouldRetry fn sleep (attempt + 1) (sleep (attempt + 1) s)))
      else throwM None)"
  by pat_completeness auto
termination
  by (relation "measure (\<lambda>(m, p, f, sl, a). m - a)") auto

declare backoff_from.simps [simp del]

definition retryWithBackoff ::
  "nat \<Rightarrow> ('e \<Rightarrow> bool) \<Rightarrow> ('s, 'e, 'a) sem \<Rightarrow> (nat \<Rightarrow> 's \<Rightarrow> 's) \<Rightarrow> ('s, 'e option, 'a) sem" where
  "retryWithBackoff maxAttempts shouldRetry fn sleep =
     backoff_from (if maxAttempts = 0 then 3 else maxAttempts) shouldRetry fn sleep 0"

section \<open>What the loops do\<close>

text \<open>
  The runs of the loop: \<open>retry_run n k s\<close> holds of the number of attempts made, from attempt \<open>k\<close> on,
  and their outcome.
\<close>

inductive retry_run ::
  "(nat \<Rightarrow> ('s, js_error, 'a) sem) \<Rightarrow> (nat \<Rightarrow> 's \<Rightarrow> 's) \<Rightarrow> nat \<Rightarrow> nat \<Rightarrow> 's \<Rightarrow> nat \<Rightarrow> js_error + 'a \<Rightarrow> 's \<Rightarrow> bool"
  for fn sleep n where
  ok: "fn k s = (Inr x, t) \<Longrightarrow> retry_run fn sleep n k s 1 (Inr x) t"
| give_up: "fn k s = (Inl e, t) \<Longrightarrow> k = n \<or> \<not> isRetryable e \<Longrightarrow> retry_run fn sleep n k s 1 (Inl e) t"
| again: "fn k s = (Inl e, t) \<Longrightarrow> k < n \<Longrightarrow> isRetryable e \<Longrightarrow> retry_run fn sleep n (k + 1) (sleep k t) m r u \<Longrightarrow>
    retry_run fn sleep n k s (m + 1) r u"

lemma retry_from_run:
  assumes "k \<le> n" and "retry_from (Some (int n)) fn sleep k s = (r, t)"
  shows "\<exists>m r'. retry_run fn sleep n k s m r' t \<and> m \<le> n + 1 - k \<and> (case r' of Inl e \<Rightarrow> r = Inl (Some e) | Inr x \<Rightarrow> r = Inr x)"
  using assms
proof (induction "n - k" arbitrary: k s)
  case 0
  then have "k = n" by simp
  show ?case
  proof (cases "fn n s")
    case (Pair y u)
    with 0 \<open>k = n\<close> show ?thesis
      by (cases y) (auto simp: retry_from.simps[of _ _ _ n] catchM_def
          intro!: exI[of _ "Suc 0"] exI[of _ y] retry_run.ok[simplified] retry_run.give_up[simplified])
  qed
next
  case (Suc d)
  show ?case
  proof (cases "\<exists>e u. fn k s = (Inl e, u) \<and> isRetryable e")
    case True
    then obtain e u where e: "fn k s = (Inl e, u)" "isRetryable e" by blast
    have lt: "k < n" using Suc.hyps(2) by simp
    have "retry_from (Some (int n)) fn sleep (k + 1) (sleep k u) = (r, t)"
      using Suc.prems e lt by (subst (asm) retry_from.simps) (simp add: catchM_def)
    moreover have "d = n - (k + 1)" using Suc.hyps(2) by simp
    ultimately obtain m r' where
      "retry_run fn sleep n (k + 1) (sleep k u) m r' t" "m \<le> n + 1 - (k + 1)"
      "case r' of Inl e \<Rightarrow> r = Inl (Some e) | Inr x \<Rightarrow> r = Inr x"
      using Suc.hyps(1)[of "k + 1" "sleep k u"] lt by auto
    then show ?thesis
      using retry_run.again[of fn k s e u n sleep, OF e(1) lt e(2)] lt by (intro exI[of _ "m + 1"] exI[of _ r']) auto
  next
    case False
    obtain y u where y: "fn k s = (y, u)" by (cases "fn k s")
    show ?thesis
    proof (cases y)
      case (Inr x)
      with y Suc.prems have "r = Inr x" "t = u"
        by (auto simp: retry_from.simps[of _ _ _ k] catchM_def)
      with y Inr Suc.prems(1) show ?thesis
        by (intro exI[of _ 1] exI[of _ "Inr x"]) (auto intro: retry_run.ok[simplified])
    next
      case (Inl e)
      with y False have n: "\<not> isRetryable e" by auto
      with y Inl Suc.prems have "r = Inl (Some e)" "t = u"
        by (auto simp: retry_from.simps[of _ _ _ k] catchM_def)
      with y Inl n Suc.prems(1) show ?thesis
        by (intro exI[of _ 1] exI[of _ "Inl e"]) (auto intro: retry_run.give_up[simplified])
    qed
  qed
qed

lemma withRetry_run:
  assumes "1 \<le> n" and "withRetry (Some (int n)) fn sleep s = (r, t)"
  shows "\<exists>m r'. retry_run fn sleep n 1 s m r' t \<and> m \<le> n \<and> (case r' of Inl e \<Rightarrow> r = Inl (Some e) | Inr x \<Rightarrow> r = Inr x)"
  using retry_from_run[OF assms(1), of fn sleep s r t] assms(2) by (simp add: withRetry_def)

inductive_cases retry_run_cases: "retry_run fn sleep n k s m r t"

text \<open>An invariant of the attempts and the pauses is an invariant of the loop.\<close>

lemma retry_run_inv:
  assumes "retry_run fn sleep n k s m r t" and "I s"
    and "\<And>k s r t. I s \<Longrightarrow> fn k s = (r, t) \<Longrightarrow> I t" and "\<And>k s. I s \<Longrightarrow> I (sleep k s)"
  shows "I t"
  using assms(1,2)
  by (induction rule: retry_run.induct) (auto intro: assms(3,4))

text \<open>
  C12: \<open>withRetry\<close> with a limit of at least one makes between one and that many attempts: every attempt
  but the last failed with a retryable error, and its result is the last attempt's, value or error.
\<close>

theorem withRetry_attempts:
  assumes "1 \<le> n" and "withRetry (Some (int n)) fn sleep s = (r, t)"
  shows "\<exists>m r'. retry_run fn sleep n 1 s m r' t \<and> 1 \<le> m \<and> m \<le> n \<and>
    (case r' of Inl e \<Rightarrow> r = Inl (Some e) \<and> (m = n \<or> \<not> isRetryable e) | Inr x \<Rightarrow> r = Inr x)"
proof -
  have *: "1 \<le> m \<and> (\<forall>e. r' = Inl e \<longrightarrow> k + m = n + 1 \<or> \<not> isRetryable e)" if "retry_run fn sleep n k s m r' t" for k s m r' t
    using that by (induction rule: retry_run.induct) auto
  obtain m r' where "retry_run fn sleep n 1 s m r' t" "m \<le> n" "case r' of Inl e \<Rightarrow> r = Inl (Some e) | Inr x \<Rightarrow> r = Inr x"
    using withRetry_run[OF assms] by blast
  with *[OF this(1)] show ?thesis by (intro exI[of _ m] exI[of _ r']) (auto split: sum.splits)
qed

definition flaky :: "nat \<Rightarrow> (nat, js_error, nat) sem" where
  "flaky k = (\<lambda>s. (if k < 3 then Inl \<lparr>err_code = None, err_status = Some 503\<rparr> else Inr k, s + 1))"

theorem withRetry_attempts_witness:
  "\<exists>m r' t. retry_run flaky (\<lambda>_ s. s) 5 1 0 m r' t \<and> 1 \<le> m \<and> m \<le> 5"
proof -
  obtain r t where run: "withRetry (Some (int 5)) flaky (\<lambda>_ s. s) 0 = (r, t)"
    by (cases "withRetry (Some (int 5)) flaky (\<lambda>_ s. s) 0")
  have "(1 :: nat) \<le> 5" by simp
  from withRetry_attempts[OF this run] show ?thesis by blast
qed

text \<open>The pauses double from the base until they reach the cap.\<close>

lemma cappedDelay_bounds:
  assumes "0 \<le> b" and "b \<le> c" and "1 \<le> k"
  shows "b \<le> cappedDelay b c k" and "cappedDelay b c k \<le> c"
    and "cappedDelay b c (k + 1) = min (2 * cappedDelay b c k) c"
proof -
  have "b * 1 \<le> b * 2 ^ (k - 1)" using assms(1) by (intro mult_left_mono) auto
  then show "b \<le> cappedDelay b c k" using assms(2) by (simp add: cappedDelay_def exponentialDelay_def)
  show "cappedDelay b c k \<le> c" by (simp add: cappedDelay_def)
  have "(2 :: int) ^ k = 2 * 2 ^ (k - 1)" using assms(3) by (cases k) auto
  then show "cappedDelay b c (k + 1) = min (2 * cappedDelay b c k) c"
    using assms by (auto simp: cappedDelay_def exponentialDelay_def min_def)
qed

end
