(* ===== verification/Hcm_Service.thy ===== *)
theory Hcm_Service
  imports Circuit_Breaker Retry Hcm_Interface
begin

text \<open>
  \<open>src/src/modules/hcm/hcm.service.js\<close>: every request to the HCM goes through \<open>withRetry\<close>, and every
  attempt through the one circuit breaker. The HTTP client is third-party code and an argument: given
  the request and the state of the network it yields the response body or an error, and how long it
  took. The state of the service is the \<open>cb_world\<close> of the breaker, kept beside the database
  connection in the node.
\<close>

section \<open>The service\<close>

record hcm_config =
  retryMaxAttempts :: "int option"
  breakerConfig :: breaker_config

text \<open>\<open>parseInt(process.env.X || dflt, 10)\<close> of the constructor.\<close>

definition env_int :: "string \<Rightarrow> string option \<Rightarrow> int option" where
  "env_int dflt v = js_parseInt10 (case v of None \<Rightarrow> dflt | Some s \<Rightarrow> if s = [] then dflt else s)"

definition hcm_config_of_env :: "string option \<Rightarrow> string option \<Rightarrow> string option \<Rightarrow> hcm_config" where
  "hcm_config_of_env attempts threshold resetMs =
    \<lparr>retryMaxAttempts = env_int ''3'' attempts,
     breakerConfig = \<lparr>failureThreshold = env_int ''5'' threshold, cooldownMs = env_int ''30000'' resetMs,
       timeoutMs = 10000\<rparr>\<rparr>"

datatype hcm_request =
    GetBalance string string string
  | Validate string string string js_num
  | PutBalance string string string js_num string string
  | BatchSync "string option"

type_synonym 'w http = "hcm_request \<Rightarrow> 'w \<Rightarrow> ((js_error + json) \<times> int) \<times> 'w"

text \<open>A breaker that refuses throws an error with the code \<open>CIRCUIT_OPEN\<close>; a timer's error has none.\<close>

fun breaker_error :: "js_error cb_error \<Rightarrow> js_error" where
  "breaker_error (CircuitOpen r) = \<lparr>err_code = Some ''CIRCUIT_OPEN'', err_status = None\<rparr>"
| "breaker_error TimedOut = \<lparr>err_code = None, err_status = None\<rparr>"
| "breaker_error (Failed e) = e"

definition breaker_call :: "hcm_config \<Rightarrow> 'w http \<Rightarrow> hcm_request \<Rightarrow> ('w cb_world, js_error, json) sem" where
  "breaker_call cfg http rq = catchM (call (breakerConfig cfg) (http rq)) (\<lambda>e. throwM (breaker_error e))"

text \<open>
  An undefined error is read by the handler itself (\<open>error.code\<close>), which throws: with no attempt
  allowed, the call rejects instead of answering \<open>null\<close>.
\<close>

definition callWithResilience ::
  "hcm_config \<Rightarrow> 'w http \<Rightarrow> (nat \<Rightarrow> 'w cb_world \<Rightarrow> 'w cb_world) \<Rightarrow> hcm_request \<Rightarrow> ('w cb_world, exc, json) sem" where
  "callWithResilience cfg http sleep rq =
     catchM (withRetry (retryMaxAttempts cfg) (\<lambda>_. breaker_call cfg http rq) sleep)
       (\<lambda>error. case error of
          None \<Rightarrow> throwM (JsError ''TypeError'')
        | Some e \<Rightarrow> returnM JNull)"

definition hcm_getBalance where
  "hcm_getBalance cfg http sleep employeeId locationId leaveType =
     callWithResilience cfg http sleep (GetBalance employeeId locationId leaveType)"

definition hcm_validateRequest where
  "hcm_validateRequest cfg http sleep employeeId locationId leaveType days =
     callWithResilience cfg http sleep (Validate employeeId locationId leaveType days)"

definition hcm_notifyApproval where
  "hcm_notifyApproval cfg http sleep employeeId locationId leaveType days requestId =
     callWithResilience cfg http sleep (PutBalance employeeId locationId leaveType days ''APPROVE'' requestId)"

definition hcm_notifyRejection where
  "hcm_notifyRejection cfg http sleep employeeId locationId leaveType days requestId =
     callWithResilience cfg http sleep (PutBalance employeeId locationId leaveType days ''REJECT'' requestId)"

definition hcm_getBatchBalances where
  "hcm_getBatchBalances cfg http sleep locationId =
     callWithResilience cfg http sleep
       (BatchSync (case locationId of Some l \<Rightarrow> if l = [] then None else Some l | None \<Rightarrow> None))"

definition getCircuitStatus :: "'w cb_world \<Rightarrow> breaker_status" where
  "getCircuitStatus s = getStatus (cb s)"

section \<open>The client the services use\<close>

text \<open>The calls act on the second part of the connection state.\<close>

definition on_hcm :: "('w cb_world, exc, 'a) sem \<Rightarrow> ('c \<times> 'w cb_world, 'a) service" where
  "on_hcm m = (\<lambda>s. case m (snd (conn s)) of (r, w) \<Rightarrow> (r, s\<lparr>conn := (fst (conn s), w)\<rparr>))"

definition hcm_service ::
  "hcm_config \<Rightarrow> 'w http \<Rightarrow> (nat \<Rightarrow> 'w cb_world \<Rightarrow> 'w cb_world) \<Rightarrow> ('c \<times> 'w cb_world) hcm_client" where
  "hcm_service cfg http sleep =
    \<lparr>validateRequest = (\<lambda>e l lt d. on_hcm (hcm_validateRequest cfg http sleep e l lt d)),
     notifyApproval = (\<lambda>e l lt d i. on_hcm (hcm_notifyApproval cfg http sleep e l lt d i)),
     notifyRejection = (\<lambda>e l lt d i. on_hcm (hcm_notifyRejection cfg http sleep e l lt d i)),
     getBatchBalances = on_hcm (hcm_getBatchBalances cfg http sleep None)\<rparr>"

lemma on_hcm_stateless: "stateless (\<lambda>h. undo (fst h)) (on_hcm m)"
  by (auto simp: stateless_def on_hcm_def keeps_def split: prod.splits)

interpretation hcm: hcm_client_laws "hcm_service cfg http sleep" "\<lambda>h. undo (fst h)"
  by unfold_locales (simp_all add: hcm_service_def on_hcm_stateless)

section \<open>Guarantees\<close>

lemma callWithResilience_returns:
  assumes "retryMaxAttempts cfg = Some n" and "1 \<le> n"
  obtains x t where "callWithResilience cfg http sleep rq s = (Inr x, t)"
proof -
  obtain k where k: "n = int k" "1 \<le> k"
    using assms(2) by (intro that[of "nat n"]) auto
  obtain r t where r: "withRetry (Some (int k)) (\<lambda>_. breaker_call cfg http rq) sleep s = (r, t)"
    by (cases "withRetry (Some (int k)) (\<lambda>_. breaker_call cfg http rq) sleep s")
  obtain r' where "case r' of Inl e \<Rightarrow> r = Inl (Some e) | Inr x \<Rightarrow> r = Inr x"
    using withRetry_run[OF k(2) r] by blast
  then have "r \<noteq> Inl None" by (cases r') auto
  then show ?thesis
    using r that assms(1) k(1)
    by (cases r) (auto simp: callWithResilience_def catchM_def split: option.splits)
qed

text \<open>The requests an HTTP client has sent, counted beside the network's state.\<close>

definition counted :: "'w http \<Rightarrow> ('w \<times> nat) http" where
  "counted http rq = (\<lambda>(w, c). case http rq w of (outcome, w') \<Rightarrow> (outcome, (w', c + 1)))"

abbreviation sent :: "('w \<times> nat) cb_world \<Rightarrow> nat" where
  "sent s \<equiv> snd (net s)"

lemma breaker_call_sent:
  "breaker_call cfg (counted http) rq s = (r, t) \<Longrightarrow> sent t \<le> sent s + 1"
  by (cases "net s")
    (auto simp: breaker_call_def catchM_def call_def counted_def Let_def split: sum.splits prod.splits)

lemma retry_run_sent:
  assumes "retry_run (\<lambda>_. breaker_call cfg (counted http) rq) sleep n k s m r t" and "\<And>k s. net (sleep k s) = net s"
  shows "sent t \<le> sent s + m"
  using assms(1)
proof (induction rule: retry_run.induct)
  case (again k s e t m r u)
  with breaker_call_sent[OF again(1)] assms(2) show ?case by simp
qed (auto dest: breaker_call_sent)

lemma breaker_call_open:
  assumes "admit (breakerConfig cfg) (time_now s) (cb s) = Inl r"
  shows "breaker_call cfg http rq s = (Inl \<lparr>err_code = Some ''CIRCUIT_OPEN'', err_status = None\<rparr>, s)"
  using assms by (simp add: breaker_call_def catchM_def call_def)

text \<open>
  C13: A call of \<open>HcmService\<close>, whatever the network does, returns (a response body or \<open>null\<close>) and never
  throws, and sends at most the configured number of requests. While the breaker refuses, it
  returns \<open>null\<close> at once, sends nothing and changes nothing. The limit is at least one.
\<close>

theorem hcm_call_bounded:
  assumes "retryMaxAttempts cfg = Some n" and "1 \<le> n" and "\<forall>k s. net (sleep k s) = net s"
  shows "\<exists>x t. callWithResilience cfg (counted http) sleep rq s = (Inr x, t) \<and> sent t \<le> sent s + nat n \<and>
    (\<forall>r. admit (breakerConfig cfg) (time_now s) (cb s) = Inl r \<longrightarrow> x = JNull \<and> t = s)"
proof -
  obtain k where k: "n = int k" "1 \<le> k"
    using assms(2) by (intro that[of "nat n"]) auto
  obtain x t where x: "callWithResilience cfg (counted http) sleep rq s = (Inr x, t)"
    using callWithResilience_returns[OF assms(1,2)] by blast
  obtain r u where w: "withRetry (Some (int k)) (\<lambda>_. breaker_call cfg (counted http) rq) sleep s = (r, u)"
    by (cases "withRetry (Some (int k)) (\<lambda>_. breaker_call cfg (counted http) rq) sleep s")
  have "u = t"
    using x w assms(1) k(1) by (auto simp: callWithResilience_def catchM_def split: sum.splits option.splits)
  from withRetry_run[OF k(2) w] obtain m r' where
    m: "retry_run (\<lambda>_. breaker_call cfg (counted http) rq) sleep k 1 s m r' u" "m \<le> k"
    by blast
  have "sent t \<le> sent s + nat n"
    using retry_run_sent[OF m(1)] assms(3) m(2) k(1) \<open>u = t\<close> by simp
  moreover have "x = JNull \<and> t = s" if "admit (breakerConfig cfg) (time_now s) (cb s) = Inl r" for r
  proof -
    note open' = breaker_call_open[OF that, of "counted http" rq]
    have "withRetry (Some (int k)) (\<lambda>_. breaker_call cfg (counted http) rq) sleep s =
        (Inl (Some \<lparr>err_code = Some ''CIRCUIT_OPEN'', err_status = None\<rparr>), s)"
      using k(2) by (simp add: withRetry_def retry_from.simps[of _ _ _ "Suc 0"] catchM_def open' isRetryable_def)
    with x assms(1) k(1) show ?thesis by (simp add: callWithResilience_def catchM_def)
  qed
  ultimately show ?thesis using x by blast
qed

text \<open>A service with the defaults and an HCM that always answers 503.\<close>

definition default_config :: hcm_config where
  "default_config = hcm_config_of_env None None None"

definition failing :: "unit http" where
  "failing rq w = ((Inl \<lparr>err_code = None, err_status = Some 503\<rparr>, 20), w)"

definition fresh_world :: "(unit \<times> nat) cb_world" where
  "fresh_world = \<lparr>time_now = 1000, cb = new_breaker, net = ((), 0)\<rparr>"

lemma default_config: "default_config =
    \<lparr>retryMaxAttempts = Some 3,
     breakerConfig = \<lparr>failureThreshold = Some 5, cooldownMs = Some 30000, timeoutMs = 10000\<rparr>\<rparr>"
  by code_simp

theorem hcm_call_bounded_witness:
  "\<exists>x t. callWithResilience default_config (counted failing) (\<lambda>_ s. s) (BatchSync None) fresh_world = (Inr x, t)
     \<and> sent t \<le> sent fresh_world + nat 3"
  using hcm_call_bounded[of default_config 3 "\<lambda>_ s. s" failing "BatchSync None" fresh_world]
  by (auto simp: default_config)

text \<open>
  The breaker sits inside the retries, so every attempt counts against it: with the default
  settings and an HCM that answers 503, the first call already records three failures, and the
  second one opens the circuit after two attempts. Five requests, not five retried calls, open it.
\<close>

theorem attempts_open_the_circuit:
  "let s1 = snd (callWithResilience default_config (counted failing) (\<lambda>_ s. s) (BatchSync None) fresh_world);
       s2 = snd (callWithResilience default_config (counted failing) (\<lambda>_ s. s) (BatchSync None) s1)
   in failureCount (cb s1) = 3 \<and> cb_state (cb s1) = CLOSED \<and> cb_state (cb s2) = OPEN \<and> sent s2 = 5"
  unfolding default_config by code_simp

end
