(* ===== verification/Hcm_Sync.thy ===== *)
theory Hcm_Sync
  imports Request_Lifecycle Hcm_Service
begin

text \<open>
  \<open>src/src/modules/hcm/hcm-sync.service.js\<close>: the nightly reconciliation of balances against the HCM
  and the job that retries HCM notifications. A reconciliation reads a row and then writes columns
  computed from what it read, without a transaction: \<open>reconcile_patch\<close> is what it writes, so that the
  two statements can be interleaved with other handlers.
\<close>

section \<open>The batch answer\<close>

record hcm_record =
  h_employeeId :: "string option"
  h_locationId :: "string option"
  h_leaveType :: "string option"
  h_totalBalance :: js_num
  h_version :: "string option"

fun parseFloat_json :: "json \<Rightarrow> js_num" where
  "parseFloat_json (JNum x) = x"
| "parseFloat_json (JStr s) = js_parseFloat s"
| "parseFloat_json (JArr (x # xs)) = parseFloat_json x"
| "parseFloat_json _ = NaN"

definition json_field :: "(string \<times> json) list \<Rightarrow> string \<Rightarrow> json" where
  "json_field ps k = (case map_of ps k of Some v \<Rightarrow> v | None \<Rightarrow> JUndef)"

text \<open>
  The version of a record is a string by the contract, and \<open>hcmVersion\<close> is a text column that no code
  reads. The empty string and what is no string count as no version; the code would hand a number or
  another true value to the driver as it is.
\<close>

fun json_version :: "json \<Rightarrow> string option" where
  "json_version (JStr s) = (if s = [] then None else Some s)"
| "json_version _ = None"

text \<open>
  The contract of the HCM is an array of objects with three strings, a total and a version. Anything
  that is no array is refused by the code. An identifier that is absent is \<open>undefined\<close>, here \<open>None\<close>;
  an element that is a number, a string, a boolean or an array has no properties at all; reading one
  of \<open>null\<close> throws, before any record is looked at. An identifier that is there but no string breaks
  the contract and is refused like \<open>null\<close>.
\<close>

fun json_id :: "json \<Rightarrow> string option option" where
  "json_id (JStr s) = Some (Some s)"
| "json_id JUndef = Some None"
| "json_id _ = None"

fun decode_record :: "json \<Rightarrow> hcm_record option" where
  "decode_record (JObj ps) =
     (case (json_id (json_field ps ''employeeId''), json_id (json_field ps ''locationId''), json_id (json_field ps ''leaveType'')) of
        (Some e, Some l, Some lt) \<Rightarrow>
          Some \<lparr>h_employeeId = e, h_locationId = l, h_leaveType = lt,
            h_totalBalance = parseFloat_json (json_field ps ''totalBalance''),
            h_version = json_version (json_field ps ''version'')\<rparr>
      | _ \<Rightarrow> None)"
| "decode_record JUndef = None"
| "decode_record JNull = None"
| "decode_record _ = Some \<lparr>h_employeeId = None, h_locationId = None, h_leaveType = None, h_totalBalance = NaN, h_version = None\<rparr>"

fun decode_records :: "json list \<Rightarrow> hcm_record list option" where
  "decode_records [] = Some []"
| "decode_records (j # js) = (case (decode_record j, decode_records js) of
      (Some r, Some rs) \<Rightarrow> Some (r # rs) | _ \<Rightarrow> None)"

fun decode_batch :: "json \<Rightarrow> exc + hcm_record list" where
  "decode_batch (JArr js) = (case decode_records js of None \<Rightarrow> Inl (JsError ''TypeError'') | Some rs \<Rightarrow> Inr rs)"
| "decode_batch _ = Inl (JsError ''HCM batch endpoint returned invalid or empty response'')"

section \<open>Reconciling a record\<close>

definition update_balance ::
  "'h orm \<Rightarrow> string option \<Rightarrow> (employee_balance \<Rightarrow> employee_balance) \<Rightarrow> ('h, unit) service" where
  "update_balance D i f = (case i of
      None \<Rightarrow> throwM (JsError ''Empty criteria(s) are not allowed for the update method.'')
    | Some x \<Rightarrow> repo_update (balanceRepository D) x f)"

definition DRIFT_TOLERANCE :: js_num where
  "DRIFT_TOLERANCE = js_of (1 / 100)"

text \<open>The columns written and the returned flag, computed from the row \<open>b\<close> that was read.\<close>

definition reconcile_patch ::
  "int \<Rightarrow> hcm_record \<Rightarrow> employee_balance \<Rightarrow> (employee_balance \<Rightarrow> employee_balance) \<times> bool" where
  "reconcile_patch now rec b =
     (let hcmTotal = h_totalBalance rec; drift = js_sub hcmTotal (local_total b)
      in if js_le (js_abs drift) DRIFT_TOLERANCE
         then ((\<lambda>r. r\<lparr>hcmTotalBalance := hcmTotal, hcmLastSync := Some now, hcmVersion := h_version rec,
                   hasDiscrepancy := False, discrepancyAmount := None\<rparr>), False)
         else if js_lt DRIFT_TOLERANCE drift
         then ((\<lambda>r. r\<lparr>totalBalance := hcmTotal, availableBalance := js_add (availableBalance b) drift,
                   hcmTotalBalance := hcmTotal, hcmLastSync := Some now, hcmVersion := h_version rec,
                   hasDiscrepancy := False, discrepancyAmount := None\<rparr>), True)
         else ((\<lambda>r. r\<lparr>hcmTotalBalance := hcmTotal, hcmLastSync := Some now, hcmVersion := h_version rec,
                   hasDiscrepancy := True, discrepancyAmount := Some (js_abs drift)\<rparr>), True))"

text \<open>
  A condition of \<open>where\<close> whose value is \<open>undefined\<close> is no condition: a record that lacks an identifier
  is reconciled with a row that agrees on the others.
\<close>

definition id_matches :: "string option \<Rightarrow> string \<Rightarrow> bool" where
  "id_matches wanted x = (case wanted of None \<Rightarrow> True | Some y \<Rightarrow> x = y)"

definition record_where :: "hcm_record \<Rightarrow> employee_balance \<Rightarrow> bool" where
  "record_where rec b \<longleftrightarrow> id_matches (h_employeeId rec) (b_employeeId b) \<and> id_matches (h_locationId rec) (b_locationId b) \<and>
     id_matches (h_leaveType rec) (b_leaveType b)"

definition reconcile_read :: "'h orm \<Rightarrow> hcm_record \<Rightarrow> ('h, employee_balance option) service" where
  "reconcile_read D rec = findOne (balanceRepository D) (where_all (record_where rec))"

text \<open>A new row needs all three identifiers: their columns are \<open>NOT NULL\<close>.\<close>

definition save_new :: "'h orm \<Rightarrow> int \<Rightarrow> hcm_record \<Rightarrow> ('h, employee_balance) service" where
  "save_new D now rec = (case (h_employeeId rec, h_locationId rec, h_leaveType rec) of
      (Some e, Some l, Some lt) \<Rightarrow>
        repo_save (balanceRepository D) ((new_balance now e l lt (h_totalBalance rec))\<lparr>hcmVersion := h_version rec\<rparr>)
    | _ \<Rightarrow> throwM (DriverError (Some ''SQLITE_CONSTRAINT'') ''SQLITE_CONSTRAINT: NOT NULL constraint failed''))"

definition reconcile_write ::
  "'h orm \<Rightarrow> int \<Rightarrow> hcm_record \<Rightarrow> employee_balance option \<Rightarrow> ('h, bool) service" where
  "reconcile_write D now rec localBalance = (case localBalance of
      None \<Rightarrow>
        bindM (save_new D now rec) (\<lambda>_. returnM True)
    | Some b \<Rightarrow>
        bindM (update_balance D (b_id b) (fst (reconcile_patch now rec b)))
          (\<lambda>_. returnM (snd (reconcile_patch now rec b))))"

definition reconcileRecord :: "'h orm \<Rightarrow> int \<Rightarrow> hcm_record \<Rightarrow> ('h, bool) service" where
  "reconcileRecord D now rec = bindM (reconcile_read D rec) (reconcile_write D now rec)"

section \<open>The batch\<close>

record batch_count =
  n_processed :: nat
  n_updated :: nat
  n_failed :: nat
  n_errors :: "sync_error list"

fun exc_message :: "exc \<Rightarrow> string" where
  "exc_message (DriverError c m) = m"
| "exc_message (JsError m) = m"
| "exc_message (HttpException st c) = ''Http Exception''"

definition record_error :: "string option \<Rightarrow> string option \<Rightarrow> string option \<Rightarrow> string \<Rightarrow> sync_error" where
  "record_error e l lt m = \<lparr>e_employeeId = e, e_locationId = l, e_leaveType = lt, e_message = m\<rparr>"

fun sync_records :: "'h orm \<Rightarrow> int \<Rightarrow> hcm_record list \<Rightarrow> batch_count \<Rightarrow> ('h, batch_count) service" where
  "sync_records D now [] acc = returnM acc"
| "sync_records D now (rec # recs) acc =
     bindM (catchM
       (bindM (reconcileRecord D now rec) (\<lambda>updated.
          returnM (acc\<lparr>n_processed := n_processed acc + 1, n_updated := n_updated acc + (if updated then 1 else 0)\<rparr>)))
       (\<lambda>err. returnM (acc\<lparr>n_processed := n_processed acc + 1, n_failed := n_failed acc + 1,
          n_errors := n_errors acc @ [record_error (h_employeeId rec) (h_locationId rec) (h_leaveType rec) (exc_message err)]\<rparr>)))
       (sync_records D now recs)"

definition key_string :: "string \<Rightarrow> string \<Rightarrow> string \<Rightarrow> string" where
  "key_string e l lt = e @ ''|'' @ l @ ''|'' @ lt"

fun id_text :: "string option \<Rightarrow> string" where
  "id_text None = ''undefined''"
| "id_text (Some s) = s"

definition record_key :: "hcm_record \<Rightarrow> string" where
  "record_key r = key_string (id_text (h_employeeId r)) (id_text (h_locationId r)) (id_text (h_leaveType r))"

definition missing_patch :: "int \<Rightarrow> employee_balance \<Rightarrow> employee_balance \<Rightarrow> employee_balance" where
  "missing_patch now b r = r\<lparr>hasDiscrepancy := True,
     discrepancyAmount := Some (case discrepancyAmount b of Some a \<Rightarrow> if js_truthy a then a else Fin 0 | None \<Rightarrow> Fin 0),
     hcmLastSync := Some now\<rparr>"

text \<open>The local rows the snapshot omits; an update that throws ends the loop and is handed on.\<close>

fun flag_missing ::
  "'h orm \<Rightarrow> int \<Rightarrow> string list \<Rightarrow> employee_balance list \<Rightarrow> batch_count \<Rightarrow> ('h, batch_count \<times> exc option) service" where
  "flag_missing D now keys [] acc = returnM (acc, None)"
| "flag_missing D now keys (b # bs) acc =
     (if key_string (b_employeeId b) (b_locationId b) (b_leaveType b) \<in> set keys
      then flag_missing D now keys bs acc
      else let acc' = acc\<lparr>n_processed := n_processed acc + 1, n_failed := n_failed acc + 1,
                 n_errors := n_errors acc @ [record_error (Some (b_employeeId b)) (Some (b_locationId b)) (Some (b_leaveType b))
                   ''Balance missing from HCM batch payload'']\<rparr>
           in (\<lambda>s. case update_balance D (b_id b) (missing_patch now b) s of
                 (Inl e, t) \<Rightarrow> (Inr (acc', Some e), t)
               | (Inr _, t) \<Rightarrow> flag_missing D now keys bs acc' t))"

definition no_count :: batch_count where
  "no_count = \<lparr>n_processed = 0, n_updated = 0, n_failed = 0, n_errors = []\<rparr>"

definition sync_all :: "'h orm \<Rightarrow> int \<Rightarrow> hcm_record list \<Rightarrow> ('h, batch_count \<times> exc option) service" where
  "sync_all D now recs =
     bindM (sync_records D now recs no_count) (\<lambda>acc s.
       case repo_find (balanceRepository D) (where_all (\<lambda>_. True)) s of
         (Inl e, t) \<Rightarrow> (Inr (acc, Some e), t)
       | (Inr localBalances, t) \<Rightarrow>
           flag_missing D now (map record_key recs) localBalances acc t)"

text \<open>The body of the \<open>try\<close>: the counters so far, and what was thrown if anything was.\<close>

definition batch_body :: "'h orm \<Rightarrow> 'h hcm_client \<Rightarrow> int \<Rightarrow> ('h, batch_count \<times> exc option) service" where
  "batch_body D H now = (\<lambda>s. case getBatchBalances H s of
      (Inl e, t) \<Rightarrow> (Inr (no_count, Some e), t)
    | (Inr j, t) \<Rightarrow> (case decode_batch j of
        Inl e \<Rightarrow> (Inr (no_count, Some e), t)
      | Inr recs \<Rightarrow> sync_all D now recs t))"

definition final_status :: "batch_count \<Rightarrow> sync_log_status" where
  "final_status acc = (if n_failed acc = 0 then LogCOMPLETED
     else if n_failed acc < n_processed acc then LogPARTIAL else LogFAILED)"

definition close_log :: "'h orm \<Rightarrow> int \<Rightarrow> string option \<Rightarrow> sync_log_status \<Rightarrow> batch_count \<Rightarrow> sync_error list option \<Rightarrow> ('h, unit) service" where
  "close_log D now i st acc errs = (case i of
      None \<Rightarrow> throwM (JsError ''Empty criteria(s) are not allowed for the update method.'')
    | Some x \<Rightarrow> repo_update (syncLogRepository D) x (\<lambda>l. l\<lparr>l_status := st, recordsProcessed := n_processed acc,
        recordsUpdated := n_updated acc, recordsFailed := n_failed acc, errorDetails := errs, completedAt := Some now\<rparr>))"

definition fail_log :: "'h orm \<Rightarrow> int \<Rightarrow> string option \<Rightarrow> batch_count \<Rightarrow> exc \<Rightarrow> ('h, unit) service" where
  "fail_log D now i acc err = close_log D now i LogFAILED acc
     (Some [\<lparr>e_employeeId = None, e_locationId = None, e_leaveType = None, e_message = exc_message err\<rparr>])"

definition set_running :: "bool \<Rightarrow> ('h, unit) service" where
  "set_running x = (\<lambda>s. (Inr (), s\<lparr>batchRunning := x\<rparr>))"

definition finallyM :: "('s, 'e, 'a) sem \<Rightarrow> ('s \<Rightarrow> 's) \<Rightarrow> ('s, 'e, 'a) sem" where
  "finallyM m f = (\<lambda>s. case m s of (r, t) \<Rightarrow> (r, f t))"

definition new_log :: "int \<Rightarrow> sync_log" where
  "new_log now = \<lparr>l_id = None, syncType = BATCH, l_status = LogSTARTED, l_employeeId = None, l_locationId = None,
     recordsProcessed = 0, recordsUpdated = 0, recordsFailed = 0, errorDetails = None, startedAt = now,
     completedAt = None\<rparr>"

definition batch_after_log :: "'h orm \<Rightarrow> 'h hcm_client \<Rightarrow> int \<Rightarrow> sync_log \<Rightarrow> ('h, unit) service" where
  "batch_after_log D H now syncLog =
     bindM (batch_body D H now) (\<lambda>(acc, thrown).
       case thrown of
         Some e \<Rightarrow> fail_log D now (l_id syncLog) acc e
       | None \<Rightarrow>
           catchM (close_log D now (l_id syncLog) (final_status acc) acc
                     (if n_errors acc = [] then None else Some (n_errors acc)))
             (fail_log D now (l_id syncLog) acc))"

definition runBatchSync :: "'h orm \<Rightarrow> 'h hcm_client \<Rightarrow> int \<Rightarrow> ('h, unit) service" where
  "runBatchSync D H now = (\<lambda>s.
     if batchRunning s then (Inr (), s)
     else bindM (set_running True) (\<lambda>_.
          bindM (repo_save (syncLogRepository D) (new_log now)) (\<lambda>syncLog.
          finallyM (batch_after_log D H now syncLog) (\<lambda>t. t\<lparr>batchRunning := False\<rparr>))) s)"

definition triggerManualBatchSync :: "('h, unit) service" where
  "triggerManualBatchSync = (\<lambda>s.
     if batchRunning s then (Inl (JsError ''Batch sync already in progress''), s) else setImmediate RunBatchSync s)"

definition getSyncLogs :: "'h orm \<Rightarrow> js_num \<Rightarrow> ('h, sync_log list) service" where
  "getSyncLogs D limit = repo_find (syncLogRepository D)
     (where_all (\<lambda>_. True)\<lparr>q_order := (\<lambda>x y. startedAt y \<le> startedAt x), q_take := Some (js_min limit (Fin 100))\<rparr>)"

section \<open>Retrying notifications\<close>

definition MAX_PENDING_SYNC_RETRIES :: nat where
  "MAX_PENDING_SYNC_RETRIES = 10"

definition updateSyncAttempt ::
  "'h orm \<Rightarrow> int \<Rightarrow> timeoff_request \<Rightarrow> (timeoff_request \<Rightarrow> timeoff_request) \<Rightarrow> ('h, unit) service" where
  "updateSyncAttempt D now request patch =
     update_request D (r_id request) (\<lambda>r. (patch r)\<lparr>hcmSyncAttempts := hcmSyncAttempts request + 1, hcmLastSyncAt := Some now\<rparr>)"

definition retryValidationOnly :: "'h orm \<Rightarrow> 'h hcm_client \<Rightarrow> int \<Rightarrow> timeoff_request \<Rightarrow> ('h, unit) service" where
  "retryValidationOnly D H now request =
     bindM (if hcmValidated request then returnM (JObj [(''valid'', JBool True)])
            else validateRequest H (r_employeeId request) (r_locationId request) (r_leaveType request) (daysRequested request))
       (\<lambda>validation.
          if validation = JNull then updateSyncAttempt D now request (\<lambda>r. r\<lparr>hcmSyncStatus := SyncPENDING\<rparr>)
          else bindM (json_prop validation ''valid'') (\<lambda>valid.
            if valid \<noteq> JBool True
            then updateSyncAttempt D now request (\<lambda>r. r\<lparr>hcmSyncStatus := SyncFAILED, hcmValidated := False\<rparr>)
            else updateSyncAttempt D now request (\<lambda>r. r\<lparr>hcmSyncStatus := SyncSUCCESS, hcmValidated := True\<rparr>)))"

text \<open>The approval of a validated request; \<open>requestId\<close> is \<open>request.id\<close>.\<close>

definition resend_approval :: "'h orm \<Rightarrow> 'h hcm_client \<Rightarrow> int \<Rightarrow> timeoff_request \<Rightarrow> ('h, unit) service" where
  "resend_approval D H now request =
     bindM (notifyApproval H (r_employeeId request) (r_locationId request) (r_leaveType request) (daysRequested request)
              (case r_id request of Some i \<Rightarrow> i | None \<Rightarrow> [])) (\<lambda>approval.
     bindM (if approval = JNull then returnM False
            else bindM (json_prop approval ''success'') (\<lambda>ok. returnM (ok \<noteq> JBool False))) (\<lambda>accepted.
     updateSyncAttempt D now request
       (\<lambda>r. r\<lparr>hcmSyncStatus := (if accepted then SyncSUCCESS else SyncPENDING), hcmValidated := True\<rparr>)))"

definition retryApprovalFlow :: "'h orm \<Rightarrow> 'h hcm_client \<Rightarrow> int \<Rightarrow> timeoff_request \<Rightarrow> ('h, unit) service" where
  "retryApprovalFlow D H now request =
     (if hcmValidated request then resend_approval D H now request
      else bindM (validateRequest H (r_employeeId request) (r_locationId request) (r_leaveType request) (daysRequested request))
        (\<lambda>validation.
           if validation = JNull then updateSyncAttempt D now request (\<lambda>r. r\<lparr>hcmSyncStatus := SyncPENDING\<rparr>)
           else bindM (json_prop validation ''valid'') (\<lambda>valid.
             if valid \<noteq> JBool True
             then updateSyncAttempt D now request (\<lambda>r. r\<lparr>hcmSyncStatus := SyncFAILED, hcmValidated := False\<rparr>)
             else resend_approval D H now request)))"

definition retry_one :: "'h orm \<Rightarrow> 'h hcm_client \<Rightarrow> int \<Rightarrow> timeoff_request \<Rightarrow> ('h, unit) service" where
  "retry_one D H now request =
     (if MAX_PENDING_SYNC_RETRIES \<le> hcmSyncAttempts request
      then update_request D (r_id request) (\<lambda>r. r\<lparr>hcmSyncStatus := SyncFAILED, hcmLastSyncAt := Some now\<rparr>)
      else catchM
        (case r_status request of
           PENDING \<Rightarrow> retryValidationOnly D H now request
         | APPROVED \<Rightarrow> retryApprovalFlow D H now request
         | _ \<Rightarrow> updateSyncAttempt D now request (\<lambda>r. r\<lparr>hcmSyncStatus := SyncSKIPPED\<rparr>))
        (\<lambda>_. updateSyncAttempt D now request (\<lambda>r. r\<lparr>hcmSyncStatus := SyncPENDING\<rparr>)))"

definition retryPendingHcmSyncs :: "'h orm \<Rightarrow> 'h hcm_client \<Rightarrow> int \<Rightarrow> ('h, unit) service" where
  "retryPendingHcmSyncs D H now =
     bindM (repo_find (requestRepository D)
         (where_all (\<lambda>r. hcmSyncStatus r = SyncPENDING)
            \<lparr>q_order := (\<lambda>x y. hcmSyncAttempts x < hcmSyncAttempts y \<or>
                hcmSyncAttempts x = hcmSyncAttempts y \<and> r_createdAt x \<le> r_createdAt y),
             q_take := Some (Fin 50)\<rparr>))
       (\<lambda>pendingRequests. forM pendingRequests (retry_one D H now))"

end
