(* ===== verification/Sync_Ledger.thy ===== *)
theory Sync_Ledger
  imports Hcm_Sync
begin

text \<open>
  What the background work does to the ledger. A relation between the tables before and after that is
  reflexive and transitive is kept by every composition of statements that keep it (the locale
  \<open>table_preorder\<close>). Two such relations are of interest: notifications and their retries change
  nothing of a request but its HCM columns, and a reconciliation with HCM totals on the grid keeps
  the ledger in order and takes no days away.
\<close>

section \<open>Relations kept by compositions\<close>

definition moves :: "(tables \<Rightarrow> tables \<Rightarrow> bool) \<Rightarrow> ('h, 'a) service \<Rightarrow> bool" where
  "moves R m \<longleftrightarrow> (\<forall>s r t. m s = (r, t) \<longrightarrow> R (tables s) (tables t))"

lemma movesI: "(\<And>s r t. m s = (r, t) \<Longrightarrow> R (tables s) (tables t)) \<Longrightarrow> moves R m"
  by (auto simp: moves_def)

lemma movesD: "moves R m \<Longrightarrow> m s = (r, t) \<Longrightarrow> R (tables s) (tables t)"
  by (simp add: moves_def)

locale table_preorder =
  fixes R :: "tables \<Rightarrow> tables \<Rightarrow> bool"
  assumes refl: "R T T" and trans: "R T U \<Longrightarrow> R U V \<Longrightarrow> R T V"
begin

lemma returns: "moves R (returnM x)" "moves R (throwM e)" "moves R (setImmediate j)" "moves R (set_running b)"
  by (auto simp: moves_def refl setImmediate_def set_running_def)

lemma stateless: "stateless undo m \<Longrightarrow> moves R m"
  by (rule movesI) (auto dest!: statelessD simp: refl)

lemma bindM:
  assumes "moves R m" and "\<And>x. moves R (k x)"
  shows "moves R (bindM m k)"
proof (rule movesI)
  fix s r t assume b: "bindM m k s = (r, t)"
  obtain y u where y: "m s = (y, u)" by (cases "m s")
  show "R (tables s) (tables t)"
  proof (cases y)
    case (Inl e)
    with b y show ?thesis using movesD[OF assms(1) y] by (simp add: bindM_app)
  next
    case (Inr x)
    with b y have "k x u = (r, t)" by (simp add: bindM_app)
    from trans[OF movesD[OF assms(1) y] movesD[OF assms(2) this]] show ?thesis .
  qed
qed

lemma catchM:
  assumes "moves R m" and "\<And>e. moves R (h e)"
  shows "moves R (catchM m h)"
proof (rule movesI)
  fix s r t assume b: "catchM m h s = (r, t)"
  obtain y u where y: "m s = (y, u)" by (cases "m s")
  show "R (tables s) (tables t)"
  proof (cases y)
    case (Inl e)
    with b y have "h e u = (r, t)" by (simp add: catchM_app)
    from trans[OF movesD[OF assms(1) y] movesD[OF assms(2) this]] show ?thesis .
  next
    case (Inr x)
    with b y show ?thesis using movesD[OF assms(1) y] by (simp add: catchM_app)
  qed
qed

lemma if_then: "moves R m \<Longrightarrow> moves R n \<Longrightarrow> moves R (if c then m else n)"
  by simp

lemma forM: "(\<And>x. x \<in> set xs \<Longrightarrow> moves R (f x)) \<Longrightarrow> moves R (forM xs f)"
  by (induction xs) (auto intro!: returns bindM)

lemma finallyM: "moves R m \<Longrightarrow> (\<And>t. tables (f t) = tables t) \<Longrightarrow> moves R (finallyM m f)"
  by (rule movesI) (auto simp: finallyM_def split: prod.splits dest: movesD)

lemmas combinators = returns bindM catchM if_then forM

end

section \<open>HCM columns\<close>

text \<open>Two versions of a request that differ in their HCM columns at most.\<close>

definition same_request :: "timeoff_request \<Rightarrow> timeoff_request \<Rightarrow> bool" where
  "same_request x y \<longleftrightarrow> r_id y = r_id x \<and> request_key y = request_key x \<and> daysRequested y = daysRequested x \<and>
     startDate y = startDate x \<and> endDate y = endDate x \<and> r_status y = r_status x \<and>
     r_idempotencyKey y = r_idempotencyKey x"

definition hcm_only :: "tables \<Rightarrow> tables \<Rightarrow> bool" where
  "hcm_only T T' \<longleftrightarrow> balances T' = balances T \<and> idempotency T' = idempotency T \<and> sync_logs T' = sync_logs T \<and>
     list_all2 same_request (requests T) (requests T')"

lemma same_request_refl [simp]: "same_request x x"
  by (simp add: same_request_def)

interpretation hcm_cols: table_preorder hcm_only
proof
  show "hcm_only T T" for T by (simp add: hcm_only_def list_all2_refl)
  have "same_request x y \<Longrightarrow> same_request y z \<Longrightarrow> same_request x z" for x y z
    by (auto simp: same_request_def)
  then show "hcm_only T U \<Longrightarrow> hcm_only U V \<Longrightarrow> hcm_only T V" for T U V
    by (auto simp: hcm_only_def elim: list_all2_trans[rotated])
qed

lemma list_all2_map_eq: "list_all2 P xs ys \<Longrightarrow> (\<And>x y. P x y \<Longrightarrow> f y = f x) \<Longrightarrow> map f ys = map f xs"
  by (induction rule: list_all2_induct) auto

lemma list_all2_mem: "list_all2 P xs ys \<Longrightarrow> y \<in> set ys \<Longrightarrow> \<exists>x\<in>set xs. P x y"
  by (induction rule: list_all2_induct) auto

lemma list_all2_mem': "list_all2 P xs ys \<Longrightarrow> x \<in> set xs \<Longrightarrow> \<exists>y\<in>set ys. P x y"
  by (induction rule: list_all2_induct) auto

lemma hcm_only_held: "hcm_only T T' \<Longrightarrow> held st k (requests T') = held st k (requests T)"
  unfolding hcm_only_def held_def
  by (elim conjE, drule list_all2_map_eq[where f = "days_in st k"]) (simp_all add: same_request_def days_in_def)

lemma hcm_only_tables:
  assumes "tables_inv T" and "hcm_only T T'"
  shows "tables_inv T'"
proof -
  have l: "list_all2 same_request (requests T) (requests T')" using assms(2) by (simp add: hcm_only_def)
  have eqs: "map r_id (requests T') = map r_id (requests T)"
    "map r_idempotencyKey (requests T') = map r_idempotencyKey (requests T)"
    by (rule list_all2_map_eq[OF l]; simp add: same_request_def)+
  have nan: "list_all (\<lambda>r. daysRequested r \<noteq> NaN) (requests T')"
    unfolding list_all_iff
  proof
    fix r assume "r \<in> set (requests T')"
    from list_all2_mem[OF l this] show "daysRequested r \<noteq> NaN"
      using assms(1) by (auto simp: tables_inv_def wf_tables_def requests_ok_def list_all_iff same_request_def)
  qed
  have "wf_tables T'"
    using assms eqs nan by (simp add: tables_inv_def wf_tables_def hcm_only_def ids_ok_def requests_ok_def
        flip: set_map)
  moreover have "request_inv (balances T') r" if r: "r \<in> set (requests T')" for r
    using assms list_all2_mem[OF l r]
    by (auto simp: tables_inv_def request_inv_def hcm_only_def same_request_def active_def)
  moreover have "\<not> clash x y" if xy: "x \<in> set (requests T')" "y \<in> set (requests T')" "r_id x \<noteq> r_id y" for x y
  proof -
    obtain x' y' where "x' \<in> set (requests T)" "same_request x' x" "y' \<in> set (requests T)" "same_request y' y"
      using list_all2_mem[OF l xy(1)] list_all2_mem[OF l xy(2)] by blast
    moreover have "\<not> clash x' y'"
      using assms(1) calculation xy(3) by (auto simp: tables_inv_def same_request_def)
    ultimately show ?thesis by (auto simp: clash_def same_request_def active_def request_key_def)
  qed
  ultimately show ?thesis by (simp add: tables_inv_def)
qed

lemma hcm_only_inv:
  assumes "ledger_inv T" and "hcm_only T T'"
  shows "ledger_inv T'"
  using assms hcm_only_tables[of T T'] hcm_only_held[OF assms(2)]
  by (simp add: ledger_inv_iff balance_inv_def) (simp add: hcm_only_def)

definition hcm_patch :: "(timeoff_request \<Rightarrow> timeoff_request) \<Rightarrow> bool" where
  "hcm_patch f \<longleftrightarrow> (\<forall>r. same_request r (f r))"

lemma core_same_request: "core_request y = core_request x \<Longrightarrow> r_id y = r_id x \<Longrightarrow> same_request x y"
  using core_requestD[of y x] by (simp add: same_request_def)

context orm_laws
begin

lemma update_request_moves:
  assumes "hcm_patch f"
  shows "moves hcm_only (update_request D i f)"
proof (rule movesI)
  fix s r t assume u: "update_request D i f s = (r, t)"
  show "hcm_only (tables s) (tables t)"
  proof (cases i)
    case None
    with u show ?thesis by (simp add: update_request_def hcm_cols.refl)
  next
    case (Some x)
    show ?thesis
    proof (cases r)
      case (Inl e)
      with u Some show ?thesis using req.update_err[of x f s e t] by (simp add: update_request_def hcm_cols.refl)
    next
      case (Inr y)
      with u Some have "repo_update (requestRepository D) x f s = (Inr y, t)" by (simp add: update_request_def)
      from req.update_ok[OF this] obtain rs where rs: "tables t = (tables s)\<lparr>requests := rs\<rparr>"
        "list_all2 (\<lambda>a b. if r_id a = Some x then core_request b = core_request (f a) \<and> r_id b = r_id a else b = a)
           (requests (tables s)) rs" by auto
      have "same_request a b"
        if "if r_id a = Some x then core_request b = core_request (f a) \<and> r_id b = r_id a else b = a" for a b
      proof (cases "r_id a = Some x")
        case True
        have "same_request a (f a)" using assms by (simp add: hcm_patch_def)
        moreover from this True that have "same_request (f a) b"
          by (intro core_same_request) (auto simp: same_request_def)
        ultimately show ?thesis by (auto simp: same_request_def)
      next
        case False
        with that show ?thesis by simp
      qed
      with rs show ?thesis by (auto simp: hcm_only_def elim: list_all2_mono)
    qed
  qed
qed

end

lemma hcm_patches [simp]:
  "hcm_patch (\<lambda>r. r\<lparr>hcmSyncStatus := a, hcmValidated := b, hcmSyncAttempts := c, hcmLastSyncAt := d\<rparr>)"
  "hcm_patch (\<lambda>r. r\<lparr>hcmSyncStatus := a, hcmSyncAttempts := c, hcmLastSyncAt := d\<rparr>)"
  "hcm_patch (\<lambda>r. r\<lparr>hcmSyncStatus := a, hcmSyncAttempts := c\<rparr>)"
  "hcm_patch (\<lambda>r. r\<lparr>hcmSyncStatus := a, hcmLastSyncAt := d\<rparr>)"
  by (simp_all add: hcm_patch_def same_request_def request_key_def)

locale background = orm_laws D undo + hcm_client_laws H undo
  for D :: "'h orm" and H :: "'h hcm_client" and undo

text \<open>
  Any relation that holds between the tables before and after an update of HCM columns holds between
  those before and after a notification or a sweep of the retry job: they consist of nothing else.
\<close>

locale notification_pieces = background D H undo + R: table_preorder R
  for D :: "'h orm" and H :: "'h hcm_client" and undo and R +
  assumes hcm_column_update: "hcm_patch f \<Longrightarrow> moves R (update_request D i f)"
begin

lemma client_moves:
  "moves R (json_prop j k)" "moves R (validateRequest H e l lt d)" "moves R (notifyApproval H e l lt d i)"
  by (rule R.stateless[OF stateless_json_prop] R.stateless[OF validateRequest_stateless]
      R.stateless[OF notifyApproval_stateless])+

lemma update_moves:
  "moves R (update_request D i (\<lambda>r. r\<lparr>hcmSyncStatus := a, hcmValidated := b, hcmSyncAttempts := c, hcmLastSyncAt := d\<rparr>))"
  "moves R (update_request D i (\<lambda>r. r\<lparr>hcmSyncStatus := a, hcmSyncAttempts := c, hcmLastSyncAt := d\<rparr>))"
  "moves R (update_request D i (\<lambda>r. r\<lparr>hcmSyncStatus := a, hcmSyncAttempts := c\<rparr>))"
  "moves R (update_request D i (\<lambda>r. r\<lparr>hcmSyncStatus := a, hcmLastSyncAt := d\<rparr>))"
  by (intro hcm_column_update hcm_patches)+

lemmas notification_rules = R.combinators client_moves update_moves

lemma notifyHcmAsync_moves: "moves R (notifyHcmAsync D H now i e l lt d)"
  unfolding notifyHcmAsync_def by (intro notification_rules)

lemma notifyApprovalToHcmAsync_moves: "moves R (notifyApprovalToHcmAsync D H now request i)"
  unfolding notifyApprovalToHcmAsync_def send_approval_def by (intro notification_rules)

lemma retryPendingHcmSyncs_moves: "moves R (retryPendingHcmSyncs D H now)"
proof -
  have "moves R (retry_one D H now r)" for r
    unfolding retry_one_def retryValidationOnly_def retryApprovalFlow_def resend_approval_def updateSyncAttempt_def
    by (cases "r_status r"; simp; intro notification_rules conjI impI)
  moreover have "moves R (repo_find (requestRepository D) q)" for q
  proof (rule movesI)
    fix s r t assume "repo_find (requestRepository D) q s = (r, t)"
    then have "tables t = tables s" by (cases r) (auto dest: req.find_ok req.find_err)
    then show "R (tables s) (tables t)" by (simp add: R.refl)
  qed
  ultimately show ?thesis
    unfolding retryPendingHcmSyncs_def by (intro R.bindM R.forM)
qed

end

sublocale background < hcm: notification_pieces D H undo hcm_only
  by unfold_locales (rule update_request_moves)

context background
begin

lemmas hcm_moves = hcm.notifyHcmAsync_moves hcm.notifyApprovalToHcmAsync_moves hcm.retryPendingHcmSyncs_moves

end

text \<open>
  Telling the HCM never touches the ledger: the notification of a new request, the notification
  of an approval and the retry job change no balance, no idempotency record, and of the requests
  only the HCM columns, whatever the HCM answers and wherever the database fails. The ledger stays
  in order.
\<close>

theorem notifications_keep_ledger:
  assumes "orm_laws D undo" and "hcm_client_laws H undo" and "ledger_inv (tables s)"
    and "m \<in> {notifyHcmAsync D H now i e l lt d, notifyApprovalToHcmAsync D H now request j, retryPendingHcmSyncs D H now}"
    and "m s = (r, t)"
  shows "hcm_only (tables s) (tables t) \<and> ledger_inv (tables t)"
proof -
  have b: "background D H undo" using assms(1,2) by (simp add: background_def)
  have "moves hcm_only m"
    using assms(4) background.hcm_moves[OF b] by auto
  from movesD[OF this assms(5)] show ?thesis using hcm_only_inv[OF assms(3)] by simp
qed

text \<open>An HCM that cannot be reached, on the in-memory store.\<close>

definition silent_hcm :: "'h hcm_client" where
  "silent_hcm = \<lparr>validateRequest = (\<lambda>_ _ _ _. returnM JNull), notifyApproval = (\<lambda>_ _ _ _ _. returnM JNull),
     notifyRejection = (\<lambda>_ _ _ _ _. returnM JNull), getBatchBalances = returnM JNull\<rparr>"

lemma silent_hcm_laws: "hcm_client_laws silent_hcm undo"
  by unfold_locales (simp_all add: silent_hcm_def)

text \<open>The program's own client beside the in-memory store.\<close>

lemma hcm_service_laws: "hcm_client_laws (hcm_service cfg http sleep) fst"
  using on_hcm_stateless[where undo = "\<lambda>x. x"] by unfold_locales (simp_all add: hcm_service_def)

interpretation whole: background mem_orm "hcm_service cfg http sleep" fst
  by (rule background.intro[OF mem.orm_laws_axioms hcm_service_laws])

theorem notifications_keep_ledger_witness:
  "hcm_only pending_tables (tables (snd (retryPendingHcmSyncs mem_orm silent_hcm 5 (node_of pending_tables))))"
proof -
  obtain r t where "retryPendingHcmSyncs mem_orm silent_hcm 5 (node_of pending_tables) = (r, t)"
    by (cases "retryPendingHcmSyncs mem_orm silent_hcm 5 (node_of pending_tables)")
  with notifications_keep_ledger[OF mem.orm_laws_axioms silent_hcm_laws pending_inv, of
      "retryPendingHcmSyncs mem_orm silent_hcm 5" 5] show ?thesis by (simp add: sample_sel)
qed

section \<open>Reconciliation\<close>

text \<open>No row loses days: every account keeps pending and used, and available and total do not shrink.\<close>

definition grows :: "tables \<Rightarrow> tables \<Rightarrow> bool" where
  "grows T T' \<longleftrightarrow> requests T' = requests T \<and> idempotency T' = idempotency T \<and>
     (\<forall>b\<in>set (balances T). \<exists>b'\<in>set (balances T'). b_id b' = b_id b \<and> balance_key b' = balance_key b \<and>
        acc_pending (account_of b') = acc_pending (account_of b) \<and> acc_used (account_of b') = acc_used (account_of b) \<and>
        acc_available (account_of b) \<le> acc_available (account_of b') \<and> acc_total (account_of b) \<le> acc_total (account_of b'))"

definition reconciled :: "tables \<Rightarrow> tables \<Rightarrow> bool" where
  "reconciled T T' \<longleftrightarrow> (ledger_inv T \<longrightarrow> ledger_inv T' \<and> grows T T')"

lemma grows_trans: "grows T U \<Longrightarrow> grows U V \<Longrightarrow> grows T V"
  unfolding grows_def by (metis order_trans)

lemma grows_refl: "grows T T"
  by (auto simp: grows_def)

interpretation recon: table_preorder reconciled
proof
  show "reconciled T T" for T by (simp add: reconciled_def grows_refl)
  show "reconciled T U \<Longrightarrow> reconciled U V \<Longrightarrow> reconciled T V" for T U V
    by (auto simp: reconciled_def intro: grows_trans)
qed

definition grown :: "employee_balance \<Rightarrow> employee_balance \<Rightarrow> bool" where
  "grown b b' \<longleftrightarrow> b_id b' = b_id b \<and> balance_key b' = balance_key b \<and> exact b' \<and>
     acc_pending (account_of b') = acc_pending (account_of b) \<and> acc_used (account_of b') = acc_used (account_of b) \<and>
     acc_available (account_of b) \<le> acc_available (account_of b') \<and> acc_total (account_of b) \<le> acc_total (account_of b')"

lemma tables_inv_rows:
  assumes "tables_inv T" and l: "list_all2 R (balances T) bs" and "balances_ok bs"
    and R: "\<And>b b'. R b b' \<Longrightarrow> b_id b' = b_id b \<and> balance_key b' = balance_key b"
  shows "tables_inv (T\<lparr>balances := bs\<rparr>)"
proof -
  have "map b_id bs = map b_id (balances T)" "map balance_key bs = map balance_key (balances T)"
    by (rule list_all2_map_eq[OF l]; simp add: R)+
  then have "ids_ok b_id bs" and "balance_key ` set bs = balance_key ` set (balances T)"
    using assms(1) by (auto simp: tables_inv_def wf_tables_def ids_ok_def simp flip: set_map)
  then show ?thesis
    using assms(1,3) by (simp add: tables_inv_def wf_tables_def request_inv_def)
qed

lemma ledger_inv_grown:
  assumes "ledger_inv T" and l: "list_all2 grown (balances T) bs" and "balances_ok bs"
  shows "ledger_inv (T\<lparr>balances := bs\<rparr>) \<and> grows T (T\<lparr>balances := bs\<rparr>)"
proof
  have "tables_inv (T\<lparr>balances := bs\<rparr>)"
    using assms by (intro tables_inv_rows[OF _ l]) (simp_all add: ledger_inv_iff grown_def)
  moreover have "balance_inv (requests T) b'" if "b' \<in> set bs" for b'
    using list_all2_mem[OF l that] assms(1) by (auto simp: grown_def ledger_inv_def balance_inv_def)
  ultimately show "ledger_inv (T\<lparr>balances := bs\<rparr>)" by (simp add: ledger_inv_iff)
  show "grows T (T\<lparr>balances := bs\<rparr>)"
    using list_all2_mem'[OF l] by (fastforce simp: grows_def grown_def)
qed

lemma held_0: "(\<And>r. r \<in> set rs \<Longrightarrow> r_status r = st \<Longrightarrow> request_key r \<noteq> k) \<Longrightarrow> held st k rs = 0"
  by (induction rs) (auto simp: held_def days_in_def)

text \<open>A new row: no active request has its key.\<close>

lemma new_row_held:
  assumes "tables_inv T" and "balances_ok (balances T @ [b])"
  shows "held PENDING (balance_key b) (requests T) = 0" and "held APPROVED (balance_key b) (requests T) = 0"
proof -
  have "balance_key b \<notin> balance_key ` set (balances T)" using assms(2) by (auto simp: balances_ok_def)
  then have free: "request_key r \<noteq> balance_key b" if "r \<in> set (requests T)" "active r" for r
    using assms(1) that unfolding tables_inv_def request_inv_def by metis
  show "held PENDING (balance_key b) (requests T) = 0" "held APPROVED (balance_key b) (requests T) = 0"
    by (rule held_0, rule free, assumption, simp add: active_def)+
qed

lemma tables_inv_new_row:
  assumes "tables_inv T" and "ids_ok b_id (balances T @ [b])" and "balances_ok (balances T @ [b])"
  shows "tables_inv (T\<lparr>balances := balances T @ [b]\<rparr>)"
  using assms by (auto simp: tables_inv_def wf_tables_def request_inv_def)

lemma ledger_inv_new_row:
  assumes "ledger_inv T" and "ids_ok b_id (balances T @ [b])" and "balances_ok (balances T @ [b])" and "exact b"
    and "acc_pending (account_of b) = 0" and "acc_used (account_of b) = 0"
  shows "ledger_inv (T\<lparr>balances := balances T @ [b]\<rparr>) \<and> grows T (T\<lparr>balances := balances T @ [b]\<rparr>)"
proof
  have T: "tables_inv T" using assms(1) by (simp add: ledger_inv_iff)
  have "balance_inv (requests T) b" using assms(4-6) new_row_held[OF T assms(3)] by (simp add: balance_inv_def)
  with assms(1) tables_inv_new_row[OF T assms(2,3)] show "ledger_inv (T\<lparr>balances := balances T @ [b]\<rparr>)"
    by (simp add: ledger_inv_iff)
  show "grows T (T\<lparr>balances := balances T @ [b]\<rparr>)" by (fastforce simp: grows_def)
qed

lemma fl_hundredth: "10 / 1024 < fl (1 / 100)" "fl (1 / 100) < 11 / 1024" "js_of (1 / 100) = Fin (fl (1 / 100))"
  by code_simp+

lemma tolerance_up: "grid x \<Longrightarrow> fl (1 / 100) < x \<longleftrightarrow> 1 / 100 < x"
  using fl_hundredth(1,2) grid_step[of 10 10 x] by (auto simp: field_simps)

text \<open>A snapshot total above the row's own raises the available days by the difference.\<close>

lemma reconcile_patch_raises:
  assumes "exact b" and "grid h" and "h_totalBalance rec = Fin h" and "acc_total (account_of b) + 1 / 100 < h"
  defines "available \<equiv> acc_available (account_of b) + (h - acc_total (account_of b))"
  shows "grid available"
    and "reconcile_patch now rec b = (\<lambda>r. r\<lparr>totalBalance := Fin h, availableBalance := Fin available,
      hcmTotalBalance := Fin h, hcmLastSync := Some now, hcmVersion := h_version rec,
      hasDiscrepancy := False, discrepancyAmount := None\<rparr>, True)"
proof -
  obtain t a p u where b: "totalBalance b = Fin t" "availableBalance b = Fin a"
    "pendingBalance b = Fin p" "usedBalance b = Fin u" "grid t" "grid a" "grid p" "grid u"
    "0 \<le> a" "0 \<le> p" "0 \<le> u" "a + p + u = t"
    using assms(1) by (rule exactE)
  have up: "1 / 100 < h - t" "0 \<le> h" using assms(4) b by (simp_all add: account_of_def)
  have g: "grid (h - t)" using b assms(2) up by (intro grid_diff) (auto simp: grid_def)
  have gu: "grid (a + (h - t))" using g b assms(2) up by (intro grid_bounded[where t = h]) auto
  then show "grid available" by (simp add: available_def account_of_def b)
  have drift: "js_sub (Fin h) (local_total b) = Fin (h - t)"
    using b local_total_exact[OF assms(1)] g by (simp add: js_sub_def js_of_grid)
  have "\<not> \<bar>h - t\<bar> \<le> fl (1 / 100)" using tolerance_up[OF g] up by simp
  then show "reconcile_patch now rec b = (\<lambda>r. r\<lparr>totalBalance := Fin h, availableBalance := Fin available,
      hcmTotalBalance := Fin h, hcmLastSync := Some now, hcmVersion := h_version rec,
      hasDiscrepancy := False, discrepancyAmount := None\<rparr>, True)"
    using up gu tolerance_up[OF g]
    by (simp add: reconcile_patch_def Let_def assms(3) drift DRIFT_TOLERANCE_def fl_hundredth(3) b js_of_grid available_def account_of_def)
qed

text \<open>What the patch does to the row it was computed from.\<close>

lemma reconcile_patch_grown:
  assumes "exact b" and "grid h" and "0 \<le> h" and "h_totalBalance rec = Fin h"
  shows "grown b (fst (reconcile_patch now rec b) b)"
proof (cases "acc_total (account_of b) + 1 / 100 < h")
  case True
  note up = reconcile_patch_raises[OF assms(1,2,4) True]
  show ?thesis
    using True up(1) assms(1,2) exactE[OF assms(1)]
    by (auto simp: up(2) grown_def balance_key_def exact_def sound_def account_of_def)
next
  case False
  obtain t a p u where b: "totalBalance b = Fin t" "availableBalance b = Fin a"
    "pendingBalance b = Fin p" "usedBalance b = Fin u" "grid t" "grid a" "grid p" "grid u"
    "0 \<le> a" "0 \<le> p" "0 \<le> u" "a + p + u = t"
    using assms(1) by (rule exactE)
  have g: "grid (h - t)" using b assms(2,3) by (intro grid_diff) (auto simp: grid_def)
  then have drift: "js_sub (Fin h) (local_total b) = Fin (h - t)"
    using b local_total_exact[OF assms(1)] by (simp add: js_sub_def js_of_grid)
  have "\<not> fl (1 / 100) < h - t" using False tolerance_up[OF g] b by (simp add: account_of_def)
  then show ?thesis
    using assms(1)
    by (auto simp: reconcile_patch_def Let_def assms(4) drift DRIFT_TOLERANCE_def fl_hundredth(3) grown_def
        balance_key_def exact_def account_of_def)
qed

lemma grown_refl: "exact b \<Longrightarrow> grown b b"
  by (simp add: grown_def)

lemma grown_core: "grown b x \<Longrightarrow> core_balance y = core_balance x \<Longrightarrow> b_id y = b_id x \<Longrightarrow> grown b y"
  using core_balanceD[of y x] by (simp add: grown_def)

lemma missing_patch_grown: "exact b \<Longrightarrow> grown b (missing_patch now b0 b)"
  by (simp add: grown_def missing_patch_def balance_key_def exact_def account_of_def)

text \<open>A total the reconciliation can work with: no number, or an amount on the grid.\<close>

definition sane :: "js_num \<Rightarrow> bool" where
  "sane x \<longleftrightarrow> x = NaN \<or> on_grid x \<and> 0 \<le> amount x"

text \<open>
  The write of a reconciliation rests on the available days of the row that was read and on the sum
  of its available, pending and used days. It is fresh as long as the row still has both: an approval
  in between moves days from pending to used and changes neither.
\<close>

definition same_days :: "employee_balance \<Rightarrow> employee_balance \<Rightarrow> bool" where
  "same_days b b0 \<longleftrightarrow> availableBalance b = availableBalance b0 \<and> local_total b = local_total b0"

definition fresh :: "employee_balance option \<Rightarrow> tables \<Rightarrow> bool" where
  "fresh lb T = (case lb of None \<Rightarrow> True | Some b0 \<Rightarrow> \<exists>b\<in>set (balances T). b_id b = b_id b0 \<and> same_days b b0)"

lemma reconcile_patch_total: "hcmTotalBalance (fst (reconcile_patch now rec b) r) = h_totalBalance rec"
  by (simp add: reconcile_patch_def Let_def)

lemma core_hcmTotal:
  assumes "core_balance x = core_balance y" shows "hcmTotalBalance x = hcmTotalBalance y"
  using arg_cong[OF assms, of hcmTotalBalance] by (simp add: core_balance_def)

lemma ids_unique: "ids_ok ident rs \<Longrightarrow> x \<in> set rs \<Longrightarrow> y \<in> set rs \<Longrightarrow> ident x = ident y \<Longrightarrow> x = y"
  by (auto simp: ids_ok_def distinct_map inj_on_def)

context orm_laws
begin

lemma update_balance_reconciled:
  assumes run: "update_balance D i f s = (r, t)"
    and f: "\<And>b. ledger_inv (tables s) \<Longrightarrow> b \<in> set (balances (tables s)) \<Longrightarrow> b_id b = i \<Longrightarrow>
      grown b (f b) \<or> hcmTotalBalance (f b) = NaN"
  shows "reconciled (tables s) (tables t)"
proof (cases "ledger_inv (tables s) \<and> (\<exists>y. r = Inr y)")
  case False
  have "tables t = tables s" if "r = Inl e" for e
    using run that by (cases i) (auto simp: update_balance_def dest: bal.update_err)
  then have "\<not> ledger_inv (tables s) \<or> tables t = tables s" using False by (cases r) auto
  then show ?thesis by (auto simp: reconciled_def grows_refl)
next
  case True
  then have inv: "ledger_inv (tables s)" by blast
  from run True obtain x where x: "i = Some x" by (cases i) (auto simp: update_balance_def)
  with run True obtain y where "repo_update (balanceRepository D) x f s = (Inr y, t)"
    by (auto simp: update_balance_def)
  from bal.update_ok[OF this] obtain bs where bs: "tables t = (tables s)\<lparr>balances := bs\<rparr>" "balances_ok bs"
    and l: "list_all2 (\<lambda>a b. if b_id a = Some x then core_balance b = core_balance (f a) \<and> b_id b = b_id a else b = a)
       (balances (tables s)) bs" by auto
  have "grown a b" if ab: "a \<in> set (balances (tables s))" "b \<in> set bs"
      "if b_id a = Some x then core_balance b = core_balance (f a) \<and> b_id b = b_id a else b = a" for a b
  proof (cases "b_id a = Some x")
    case True
    have "hcmTotalBalance b \<noteq> NaN" using bs(2) ab(2) by (auto simp: balances_ok_def list_all_iff)
    moreover have c: "core_balance b = core_balance (f a)" "b_id b = b_id a" using True ab(3) by simp_all
    ultimately have "hcmTotalBalance (f a) \<noteq> NaN" using core_hcmTotal[OF c(1)] by simp
    then have g: "grown a (f a)" using f[OF inv ab(1)] True x by simp
    then have "b_id (f a) = b_id a" by (simp add: grown_def)
    then show ?thesis using grown_core[OF g c(1)] c(2) by metis
  next
    case False
    then have "b = a" using ab(3) by simp
    moreover have "exact a" using inv ab(1) by (simp add: ledger_inv_def balance_inv_def)
    ultimately show ?thesis by (simp add: grown_refl)
  qed
  then have "list_all2 grown (balances (tables s)) bs"
    by (rule list.rel_mono_strong[OF l])
  with inv bs show ?thesis by (simp add: reconciled_def ledger_inv_grown)
qed

lemma save_new_row:
  assumes y: "repo_save (balanceRepository D) ((new_balance now e l lt tot)\<lparr>hcmVersion := v\<rparr>) u = (y, t)" and "sane tot"
  shows "reconciled (tables u) (tables t)"
proof (cases y)
  let ?b = "(new_balance now e l lt tot)\<lparr>hcmVersion := v\<rparr>"
  case (Inl err)
  with y show ?thesis using bal.save_err[of ?b u err t] by (simp add: recon.refl)
next
  let ?b = "(new_balance now e l lt tot)\<lparr>hcmVersion := v\<rparr>"
  case (Inr b')
  have id: "b_id ?b = None" by (simp add: new_balance_def)
  note sv = bal.save_ok[OF y[unfolded Inr], unfolded id, simplified]
  have up: "upsert b_id b' (balances (tables u)) = balances (tables u) @ [b']"
    using sv by (intro upsert_new) simp
  from sv have core: "core_balance b' = core_balance ?b" by blast
  have "hcmTotalBalance b' \<noteq> NaN" using sv by (auto simp: up balances_ok_def)
  moreover have "hcmTotalBalance b' = tot"
    using core_hcmTotal[OF core] by (simp add: new_balance_def)
  ultimately obtain h where h: "tot = Fin h" "grid h" "0 \<le> h"
    using assms(2) by (auto simp: sane_def elim!: on_gridE)
  then have "exact b'" "acc_pending (account_of b') = 0" "acc_used (account_of b') = 0"
    using core_balanceD[OF core] by (simp_all add: new_balance_def exact_def sound_def account_of_def)
  moreover have "ids_ok b_id (balances (tables u) @ [b'])" if "ledger_inv (tables u)"
    using that sv by (auto simp: ledger_inv_def wf_tables_def ids_ok_def)
  ultimately show ?thesis
    using sv ledger_inv_new_row[of "tables u" b'] by (auto simp: reconciled_def up)
qed

lemma find_tables: "repo_find (balanceRepository D) q s = (r, t) \<Longrightarrow> tables t = tables s"
  by (cases r) (auto dest: bal.find_ok bal.find_err)

lemma reconcile_write_reconciled:
  assumes "sane (h_totalBalance rec)" and "fresh lb (tables u)" and w: "reconcile_write D now rec lb u = (r, t)"
  shows "reconciled (tables u) (tables t)"
proof (cases lb)
  case (Some b0)
  with assms(2) obtain b where b: "b \<in> set (balances (tables u))" "b_id b = b_id b0" "same_days b b0" by (auto simp: fresh_def)
  have patch: "reconcile_patch now rec b0 = reconcile_patch now rec b" using b(3) by (simp add: reconcile_patch_def same_days_def Let_def)
  obtain r' where "update_balance D (b_id b) (fst (reconcile_patch now rec b)) u = (r', t)"
    using w Some by (auto simp: reconcile_write_def bindM_app b(2) patch split: prod.splits sum.splits)
  then show ?thesis
  proof (rule update_balance_reconciled)
    fix c assume c: "ledger_inv (tables u)" "c \<in> set (balances (tables u))" "b_id c = b_id b"
    have "c = b" using c b(1) by (auto simp: ledger_inv_def wf_tables_def dest: ids_unique)
    moreover have "exact b" using c(1) b(1) by (simp add: ledger_inv_def balance_inv_def)
    ultimately show "grown c (fst (reconcile_patch now rec b) c) \<or> hcmTotalBalance (fst (reconcile_patch now rec b) c) = NaN"
      using assms(1) reconcile_patch_grown[of b _ rec now] by (auto simp: sane_def reconcile_patch_total elim!: on_gridE)
  qed
next
  case None
  obtain y where y: "save_new D now rec u = (y, t)"
    using w None by (auto simp: reconcile_write_def bindM_app split: prod.splits sum.splits)
  show ?thesis
  proof (cases "\<exists>e l lt. (h_employeeId rec, h_locationId rec, h_leaveType rec) = (Some e, Some l, Some lt)")
    case True
    with y obtain e l lt where "repo_save (balanceRepository D)
        ((new_balance now e l lt (h_totalBalance rec))\<lparr>hcmVersion := h_version rec\<rparr>) u = (y, t)"
      by (auto simp: save_new_def)
    from save_new_row[OF this assms(1)] show ?thesis .
  next
    case False
    with y have "t = u"
      by (cases "h_employeeId rec"; cases "h_locationId rec"; cases "h_leaveType rec") (auto simp: save_new_def throwM_def)
    then show ?thesis by (simp add: recon.refl)
  qed
qed

text \<open>A row that was just read is fresh.\<close>

lemma reconcile_read_fresh:
  assumes "reconcile_read D rec s = (Inr lb, u)"
  shows "tables u = tables s \<and> fresh lb (tables u)"
  using bal.findOne_ok[OF assms[unfolded reconcile_read_def]]
  by (cases lb) (auto simp: fresh_def same_days_def)

lemma reconcile_read_tables: "reconcile_read D rec s = (r, u) \<Longrightarrow> tables u = tables s"
  unfolding reconcile_read_def by (cases r) (auto dest: bal.findOne_err bal.findOne_ok)

lemma reconcileRecord_moves:
  assumes "sane (h_totalBalance rec)"
  shows "moves reconciled (reconcileRecord D now rec)"
proof (rule movesI)
  fix s r t assume run: "reconcileRecord D now rec s = (r, t)"
  obtain x u where f: "reconcile_read D rec s = (x, u)" by (cases "reconcile_read D rec s")
  note T = reconcile_read_tables[OF f]
  show "reconciled (tables s) (tables t)"
  proof (cases x)
    case (Inl e)
    with run f T show ?thesis by (auto simp: reconcileRecord_def bindM_app recon.refl)
  next
    case (Inr lb)
    with run f have "reconcile_write D now rec lb u = (r, t)" by (simp add: reconcileRecord_def bindM_app)
    with reconcile_write_reconciled[OF assms] reconcile_read_fresh[OF f[unfolded Inr]] T show ?thesis by metis
  qed
qed

end

end
