(* ===== verification/Batch_Sync.thy ===== *)
theory Batch_Sync
  imports Sync_Ledger
begin

text \<open>
  The nightly run as a whole: it keeps the ledger in order and takes no day away, the flag that
  guards against overlapping runs is released by every run that managed to write its log, the
  interleaving in which a request slips between the read and the write of a record, and
  what a record that lacks an identifier does.
\<close>

section \<open>The batch and the ledger\<close>

lemma ledger_inv_logs: "ledger_inv T \<Longrightarrow> ids_ok l_id ls \<Longrightarrow> ledger_inv (T\<lparr>sync_logs := ls\<rparr>)"
  by (simp add: ledger_inv_def wf_tables_def)

lemma reconciled_logs: "(ledger_inv T \<Longrightarrow> ids_ok l_id ls) \<Longrightarrow> reconciled T (T\<lparr>sync_logs := ls\<rparr>)"
  by (auto simp: reconciled_def grows_def intro: ledger_inv_logs)

lemma exact_row: "ledger_inv T \<Longrightarrow> b \<in> set (balances T) \<Longrightarrow> exact b"
  by (simp add: ledger_inv_def balance_inv_def)

context orm_laws
begin

lemma log_save_tables:
  assumes "repo_save (syncLogRepository D) l s = (r, t)"
  obtains ls where "tables t = (tables s)\<lparr>sync_logs := ls\<rparr>" and "ids_ok l_id (sync_logs (tables s)) \<Longrightarrow> ids_ok l_id ls"
proof (cases r)
  case (Inl e)
  with assms log.save_err[of l s e t] show ?thesis by (intro that[of "sync_logs (tables s)"]) simp_all
next
  case (Inr l')
  with assms log.save_ok[of l s l' t] show ?thesis
    by (intro that[of "upsert l_id l' (sync_logs (tables s))"]) (auto intro!: ids_ok_upsert)
qed

lemma log_update_tables:
  assumes "repo_update (syncLogRepository D) i f s = (r, t)"
  obtains ls where "tables t = (tables s)\<lparr>sync_logs := ls\<rparr>" and "ids_ok l_id (sync_logs (tables s)) \<Longrightarrow> ids_ok l_id ls"
proof (cases r)
  case (Inl e)
  with assms log.update_err[of i f s e t] show ?thesis by (intro that[of "sync_logs (tables s)"]) simp_all
next
  case (Inr u)
  with assms obtain ls where t: "tables t = (tables s)\<lparr>sync_logs := ls\<rparr>" and
    "list_all2 (\<lambda>x y. if l_id x = Some i then core_log y = core_log (f x) \<and> l_id y = l_id x else y = x)
       (sync_logs (tables s)) ls"
    using log.update_ok[of i f s u t] by auto
  from this(2) have "map l_id ls = map l_id (sync_logs (tables s))"
    by (rule list_all2_map_eq) (auto split: if_splits)
  with t show ?thesis by (intro that[of ls]) (auto simp: ids_ok_def simp flip: set_map)
qed

lemma log_save_moves: "moves reconciled (repo_save (syncLogRepository D) l)"
  by (rule movesI) (auto elim!: log_save_tables intro!: reconciled_logs simp: ledger_inv_def wf_tables_def)

lemma log_update_moves: "moves reconciled (repo_update (syncLogRepository D) i f)"
  by (rule movesI) (auto elim!: log_update_tables intro!: reconciled_logs simp: ledger_inv_def wf_tables_def)

lemma missing_update_moves: "moves reconciled (update_balance D i (missing_patch now b))"
  by (rule movesI, rule update_balance_reconciled) (auto dest: exact_row missing_patch_grown)

end

text \<open>
  Any relation that holds between the tables before and after the statements of a batch run holds
  between those before and after the run: records are reconciled one by one, rows the snapshot omits
  are flagged, and around that the log row is opened and closed.
\<close>

locale body_pieces = background D H undo + R: table_preorder R
  for D :: "'h orm" and H :: "'h hcm_client" and undo and R +
  fixes acceptable :: "hcm_record \<Rightarrow> bool"
  assumes record_step: "acceptable rec \<Longrightarrow> moves R (reconcileRecord D now rec)"
    and missing_step: "moves R (update_balance D i (missing_patch now b))"
begin

lemma sync_records_moves:
  "(\<And>rec. rec \<in> set recs \<Longrightarrow> acceptable rec) \<Longrightarrow> moves R (sync_records D now recs acc)"
proof (induction recs arbitrary: acc)
  case (Cons rec recs)
  then show ?case
    by (auto intro!: R.combinators record_step)
qed (simp add: R.returns)

lemma flag_missing_moves: "moves R (flag_missing D now keys bs acc)"
proof (induction bs arbitrary: acc)
  case (Cons b bs)
  show ?case
  proof (rule movesI)
    fix s r t assume run: "flag_missing D now keys (b # bs) acc s = (r, t)"
    show "R (tables s) (tables t)"
    proof (cases "key_string (b_employeeId b) (b_locationId b) (b_leaveType b) \<in> set keys")
      case True
      with run show ?thesis by (auto intro: movesD[OF Cons.IH])
    next
      case False
      obtain x u where u: "update_balance D (b_id b) (missing_patch now b) s = (x, u)"
        by (cases "update_balance D (b_id b) (missing_patch now b) s")
      note m = movesD[OF missing_step u]
      show ?thesis
      proof (cases x)
        case (Inl e)
        with run False u have "t = u" by (simp add: Let_def)
        with m show ?thesis by simp
      next
        case (Inr y)
        with run False u obtain acc' where "flag_missing D now keys bs acc' u = (r, t)" by (auto simp: Let_def)
        from R.trans[OF m movesD[OF Cons.IH this]] show ?thesis .
      qed
    qed
  qed
qed (simp add: R.returns)

lemma sync_all_moves:
  assumes "\<And>rec. rec \<in> set recs \<Longrightarrow> acceptable rec"
  shows "moves R (sync_all D now recs)"
  unfolding sync_all_def
proof (rule R.bindM[OF sync_records_moves[OF assms]], assumption, rule movesI)
  fix acc s r t
  assume run: "(case repo_find (balanceRepository D) (where_all (\<lambda>_. True)) s of
      (Inl e, t) \<Rightarrow> (Inr (acc, Some e), t)
    | (Inr localBalances, t) \<Rightarrow> flag_missing D now (map record_key recs)
        localBalances acc t) = (r, t)"
  obtain x u where u: "repo_find (balanceRepository D) (where_all (\<lambda>_. True)) s = (x, u)"
    by (cases "repo_find (balanceRepository D) (where_all (\<lambda>_. True)) s")
  show "R (tables s) (tables t)"
    using run find_tables[OF u] u by (cases x) (auto simp: R.refl dest: movesD[OF flag_missing_moves])
qed

lemma batch_body_moves:
  assumes "\<And>s j t recs rec. getBatchBalances H s = (Inr j, t) \<Longrightarrow> decode_batch j = Inr recs \<Longrightarrow>
      rec \<in> set recs \<Longrightarrow> acceptable rec"
  shows "moves R (batch_body D H now)"
proof (rule movesI)
  fix s r t assume run: "batch_body D H now s = (r, t)"
  obtain x u where u: "getBatchBalances H s = (x, u)" by (cases "getBatchBalances H s")
  have T: "tables u = tables s" using statelessD[OF getBatchBalances_stateless u] by simp
  show "R (tables s) (tables t)"
  proof (cases x)
    case (Inl e)
    with run u T show ?thesis by (simp add: batch_body_def R.refl)
  next
    case (Inr j)
    with assms u have "acceptable rec" if "decode_batch j = Inr recs" "rec \<in> set recs" for recs rec
      using that by blast
    then have "moves R (sync_all D now recs)" if "decode_batch j = Inr recs" for recs
      using that by (blast intro: sync_all_moves)
    then show ?thesis
      using run u T Inr by (cases "decode_batch j") (auto simp: batch_body_def R.refl moves_def, metis)
  qed
qed

end

locale batch_pieces = body_pieces D H undo R acceptable
  for D :: "'h orm" and H :: "'h hcm_client" and undo and R and acceptable +
  assumes log_save: "moves R (repo_save (syncLogRepository D) l)"
    and log_update: "moves R (repo_update (syncLogRepository D) x f)"
begin

lemma close_log_moves: "moves R (close_log D now i st acc errs)" "moves R (fail_log D now i acc e)"
  by (cases i; simp add: fail_log_def close_log_def R.returns log_update)+

lemma runBatchSync_moves:
  assumes "\<And>s j t recs rec. getBatchBalances H s = (Inr j, t) \<Longrightarrow> decode_batch j = Inr recs \<Longrightarrow>
      rec \<in> set recs \<Longrightarrow> acceptable rec"
  shows "moves R (runBatchSync D H now)"
proof -
  have "moves R (batch_after_log D H now l)" for l
    unfolding batch_after_log_def
    by (intro R.bindM batch_body_moves[OF assms]) (auto split: option.split intro!: R.catchM close_log_moves)
  then have "moves R (bindM (set_running True) (\<lambda>_. bindM (repo_save (syncLogRepository D) (new_log now)) (\<lambda>l.
      finallyM (batch_after_log D H now l) (\<lambda>t. t\<lparr>batchRunning := False\<rparr>))))"
    by (intro R.bindM R.returns R.finallyM log_save) simp_all
  then show ?thesis
    by (auto simp: moves_def runBatchSync_def R.refl)
qed

end

sublocale background < recon: batch_pieces D H undo reconciled "\<lambda>rec. sane (h_totalBalance rec)"
  by unfold_locales (rule log_save_moves log_update_moves missing_update_moves reconcileRecord_moves | assumption)+

context background
begin

lemmas batch_moves = recon.runBatchSync_moves

end

text \<open>
  C21: The nightly reconciliation keeps the ledger in order and never takes a day away: whatever the
  database does to its statements, as long as the totals of the HCM are amounts (or no numbers at
  all), every balance row is still there with its reserved and its used days unchanged and at least
  as many available days and as large a total as before, no request and no idempotency record is
  touched, and available, pending and used days still add up to the total.
\<close>

theorem batch_never_reduces:
  assumes "orm_laws D undo" and "hcm_client_laws H undo"
    and "\<And>s j t recs rec. getBatchBalances H s = (Inr j, t) \<Longrightarrow> decode_batch j = Inr recs \<Longrightarrow>
      rec \<in> set recs \<Longrightarrow> sane (h_totalBalance rec)"
    and "ledger_inv (tables s)" and "runBatchSync D H now s = (r, t)"
  shows "ledger_inv (tables t) \<and> grows (tables s) (tables t)"
proof -
  have b: "background D H undo" using assms(1,2) by (simp add: background_def)
  from movesD[OF background.batch_moves[OF b assms(3)] assms(5)] assms(4)
  show ?thesis by (auto simp: reconciled_def)
qed

definition sample_snapshot :: json where
  "sample_snapshot = JArr [JObj [(''employeeId'', JStr ''E1''), (''locationId'', JStr ''L1''),
     (''leaveType'', JStr ''VACATION''), (''totalBalance'', JNum (Fin 12))]]"

definition snapshot_hcm :: "json \<Rightarrow> 'h hcm_client" where
  "snapshot_hcm j = silent_hcm\<lparr>getBatchBalances := returnM j\<rparr>"

lemma snapshot_hcm_laws: "hcm_client_laws (snapshot_hcm j) undo"
  by unfold_locales (simp_all add: snapshot_hcm_def silent_hcm_def)

lemma sample_decoded: "decode_batch sample_snapshot = Inr [\<lparr>h_employeeId = Some ''E1'', h_locationId = Some ''L1'',
    h_leaveType = Some ''VACATION'', h_totalBalance = Fin 12, h_version = None\<rparr>]"
  by (simp add: sample_snapshot_def json_field_def)

theorem batch_never_reduces_witness:
  "grows pending_tables (tables (snd (runBatchSync mem_orm (snapshot_hcm sample_snapshot) 5 (node_of pending_tables))))"
proof -
  have sane: "sane (h_totalBalance rec)" if "getBatchBalances (snapshot_hcm sample_snapshot) s = (Inr j, t)"
      "decode_batch j = Inr recs" "rec \<in> set recs" for s j t recs rec
    using that by (auto simp: snapshot_hcm_def sample_decoded sane_def)
  obtain r t where run: "runBatchSync mem_orm (snapshot_hcm sample_snapshot) 5 (node_of pending_tables) = (r, t)"
    by (cases "runBatchSync mem_orm (snapshot_hcm sample_snapshot) 5 (node_of pending_tables)")
  have "ledger_inv (tables t) \<and> grows (tables (node_of pending_tables)) (tables t)"
    by (rule batch_never_reduces[OF mem.orm_laws_axioms snapshot_hcm_laws _ pending_inv run]) (rule sane)
  with run show ?thesis by (simp add: sample_sel)
qed

section \<open>The flag\<close>

text \<open>
  C23: Runs do not overlap, and the flag that sees to it is released by every run that got as far as
  writing its log, however the run ends. A run that finds the flag set returns at once and changes
  nothing. But the flag is set before the log row is saved and outside the \<open>try\<close>: when that save
  throws, the run throws with the flag still set, every later run returns at once, and the
  administrator's trigger refuses for good.
\<close>

theorem batch_flag:
  "(batchRunning s \<longrightarrow> runBatchSync D H now s = (Inr (), s)) \<and>
   (\<not> batchRunning s \<longrightarrow>
      (case repo_save (syncLogRepository D) (new_log now) (s\<lparr>batchRunning := True\<rparr>) of
         (Inr l, u) \<Rightarrow> \<not> batchRunning (snd (runBatchSync D H now s))
       | (Inl e, u) \<Rightarrow> batchRunning u \<longrightarrow> runBatchSync D H now s = (Inl e, u) \<and> runBatchSync D H later u = (Inr (), u) \<and>
           triggerManualBatchSync u = (Inl (JsError ''Batch sync already in progress''), u)))"
  by (auto simp: runBatchSync_def set_running_def bindM_app finallyM_def triggerManualBatchSync_def
      split: prod.split sum.split)

text \<open>A database that is read-only for the moment.\<close>

definition read_only_log :: "(tables \<times> unit) orm" where
  "read_only_log = mem_orm\<lparr>syncLogRepository := (syncLogRepository mem_orm)\<lparr>repo_save :=
     (\<lambda>l s. (Inl (DriverError (Some ''SQLITE_READONLY'') ''attempt to write a readonly database''), s))\<rparr>\<rparr>"

theorem batch_flag_witness:
  "\<exists>e u. runBatchSync read_only_log silent_hcm 5 (node_of start_tables) = (Inl e, u) \<and> batchRunning u \<and>
     runBatchSync read_only_log silent_hcm 6 u = (Inr (), u)"
  using batch_flag[of "node_of start_tables" read_only_log silent_hcm 5 6]
  by (simp add: read_only_log_def node_of_def)

section \<open>A request between the read and the write\<close>

definition race_record :: hcm_record where
  "race_record = \<lparr>h_employeeId = Some ''E1'', h_locationId = Some ''L1'', h_leaveType = Some ''VACATION'', h_totalBalance = Fin 12,
     h_version = None\<rparr>"

context orm_laws
begin

lemma reconcile_read_row:
  "reconcile_read D rec s = (Inr (Some b), t) \<Longrightarrow> b \<in> set (balances (tables s))"
  unfolding reconcile_read_def by (drule bal.findOne_ok) simp_all

lemma stale_write_row:
  assumes "exact b0" and "h_totalBalance rec = Fin h" and "grid h" and "acc_total (account_of b0) + 1 / 100 < h"
    and run: "reconcile_write D now rec (Some b0) u = (Inr r, t)"
  shows "r \<and> list_all2 (\<lambda>x y. if b_id x = b_id b0 then b_id y = b_id x \<and>
      account_of y = (account_of x)\<lparr>acc_available := acc_available (account_of b0) + (h - acc_total (account_of b0)), acc_total := h\<rparr>
      else y = x) (balances (tables u)) (balances (tables t))"
proof -
  note patch = reconcile_patch_raises[OF assms(1,3,2,4)]
  from run obtain i where i: "b_id b0 = Some i" and r: r
    and w: "repo_update (balanceRepository D) i (fst (reconcile_patch now rec b0)) u = (Inr (), t)"
    by (cases "b_id b0") (auto simp: reconcile_write_def update_balance_def patch elim!: bindM_Inr_E)
  have row: "account_of y = (account_of x)\<lparr>acc_available := acc_available (account_of b0) + (h - acc_total (account_of b0)), acc_total := h\<rparr>"
    if "core_balance y = core_balance (fst (reconcile_patch now rec b0) x)" for x y
    using core_balanceD[OF that] by (simp add: account_of_def patch)
  from bal.update_ok[OF w] show ?thesis
    using r row by (auto simp: i elim!: list.rel_mono_strong split: if_splits)
qed

end

text \<open>
  C24: The read and the write of a reconciliation are not one transaction. The statement says exactly
  what a write does that rests on a row read earlier, whatever happened to the ledger in between:
  when the HCM's total is above the one that was read, the row ends with that total, with the days
  reserved and used by now, and with the available days of the row that was read plus the growth. So
  its parts differ from its total by exactly the days that were reserved or used in between (less
  those that were released), and the account is in order only if there were none. Every other row
  is untouched.
\<close>

theorem stale_write_imbalance:
  assumes "orm_laws D undo" and "ledger_inv (tables s)" and "reconcile_read D rec s = (Inr (Some b0), s')"
    and "h_totalBalance rec = Fin h" and "grid h" and "acc_total (account_of b0) + 1 / 100 < h"
    and "ledger_inv (tables u)" and "b1 \<in> set (balances (tables u))" and "b_id b1 = b_id b0"
    and "reconcile_write D now rec (Some b0) u = (Inr r, t)"
  shows "r \<and> (\<exists>b\<in>set (balances (tables t)). b_id b = b_id b1 \<and>
      account_of b = \<lparr>acc_available = acc_available (account_of b0) + (h - acc_total (account_of b0)),
        acc_pending = acc_pending (account_of b1), acc_used = acc_used (account_of b1), acc_total = h\<rparr> \<and>
      acc_available (account_of b) + acc_pending (account_of b) + acc_used (account_of b) - acc_total (account_of b) =
        (acc_pending (account_of b1) + acc_used (account_of b1)) - (acc_pending (account_of b0) + acc_used (account_of b0)) \<and>
      (sound (account_of b) \<longleftrightarrow>
        acc_pending (account_of b1) + acc_used (account_of b1) = acc_pending (account_of b0) + acc_used (account_of b0))) \<and>
    (\<forall>b\<in>set (balances (tables u)). b_id b \<noteq> b_id b1 \<longrightarrow> b \<in> set (balances (tables t)))"
proof -
  have b0: "exact b0" using orm_laws.reconcile_read_row[OF assms(1,3)] assms(2) by (simp add: exact_row)
  have b1: "exact b1" using assms(7,8) by (rule exact_row)
  note w = orm_laws.stale_write_row[OF assms(1) b0 assms(4,5,6,10)]
  from list_all2_mem'[OF conjunct2[OF w] assms(8)] assms(9) obtain b where
    b: "b \<in> set (balances (tables t))" "b_id b = b_id b1" "account_of b = (account_of b1)\<lparr>acc_available :=
      acc_available (account_of b0) + (h - acc_total (account_of b0)), acc_total := h\<rparr>" by auto
  have sound: "sound (account_of b0)" "sound (account_of b1)" using b0 b1 by (simp_all add: exact_def)
  have "y \<in> set (balances (tables t))" if "y \<in> set (balances (tables u))" "b_id y \<noteq> b_id b1" for y
    using list_all2_mem'[OF conjunct2[OF w] that(1)] that(2) assms(9) by auto
  then show ?thesis
    using w b sound assms(6) by (intro conjI bexI[of _ b]) (auto simp: sound_def)
qed

text \<open>A request for three days commits after the row was read; the write then rests on the old row.\<close>

definition race_row :: employee_balance where
  "race_row = (new_balance 0 ''E1'' ''L1'' ''VACATION'' (Fin 10))\<lparr>b_id := Some ''b1''\<rparr>"

lemma race_read: "reconcile_read mem_orm race_record (node_of start_tables) = (Inr (Some race_row), node_of start_tables)"
  by (simp add: reconcile_read_def record_where_def id_matches_def run_simps start_tables_def race_record_def race_row_def new_balance_def)

lemma race_run:
  obtains v s x b' t row where
    "createRequest mem_orm sample_env sample_dto (Some ''k1'') (node_of start_tables) = (Inr v, s)"
    and "ledger_inv (tables s)" and "requests (tables s) = [x]" and "daysRequested x = Fin 3"
    and "balances (tables s) = [b']" and "b_id b' = b_id race_row" and "pendingBalance b' = Fin 3" and "usedBalance b' = Fin 0"
    and "reconcile_write mem_orm 5 race_record (Some race_row) s = (Inr True, t)"
    and "balances (tables t) = [row]" and "requests (tables t) = [x]"
    and "availableBalance row = Fin 12" and "pendingBalance row = Fin 3" and "totalBalance row = Fin 12"
proof -
  obtain v s where c: "createRequest mem_orm sample_env sample_dto (Some ''k1'') (node_of start_tables) = (Inr v, s)"
    by (rule sample_create)
  have "\<not> known_response ''k1'' ''h'' v start_tables" by (simp add: known_response_def start_tables_def)
  then obtain saved k where cr: "created (Some 86400000) (clk sample_env k) sample_dto ''k1'' (Fin 3) ''h'' saved start_tables (tables s)"
    using orm_laws.createRequest_run[OF mem.orm_laws_axioms c ledger_inv_wf[OF start_inv]] sample_hash sample_length
    by (auto simp: sample_sel)
  then obtain b' where b': "balances (tables s) = [b']" "core_balance b' = core_balance (deducted (Fin 3) race_row)" "b_id b' = Some ''b1''"
    and rs: "requests (tables s) = [saved]" "core_request saved = core_request (new_request sample_dto ''k1'' (Fin 3))"
    by (auto simp: created_def start_tables_def upsert_def race_row_def)
  have amounts: "carryOverBalance b' = Fin 0" "pendingBalance b' = Fin 3" "usedBalance b' = Fin 0"
    using core_balanceD[OF b'(2)] arg_cong[OF b'(2), of carryOverBalance]
    by (simp_all add: deducted_def race_row_def new_balance_def js_simps core_balance_def)
  have patch: "reconcile_patch 5 race_record race_row = (\<lambda>x. x\<lparr>totalBalance := Fin 12,
      availableBalance := Fin 12, hcmTotalBalance := Fin 12, hcmLastSync := Some 5, hcmVersion := None,
      hasDiscrepancy := False, discrepancyAmount := None\<rparr>, True)"
    using fl_hundredth
    by (simp add: reconcile_patch_def Let_def race_record_def race_row_def local_total_def new_balance_def DRIFT_TOLERANCE_def js_simps js_sub_def)
  have id: "b_id race_row = Some ''b1''" by (simp add: race_row_def)
  let ?row = "b'\<lparr>totalBalance := Fin 12, availableBalance := Fin 12, hcmTotalBalance := Fin 12, hcmLastSync := Some 5,
      hcmVersion := None, hasDiscrepancy := False, discrepancyAmount := None, b_version := Suc (b_version b')\<rparr>"
  have w: "reconcile_write mem_orm 5 race_record (Some race_row) s = (Inr True, s\<lparr>tables := (tables s)\<lparr>balances := [?row]\<rparr>\<rparr>)"
    using amounts id by (simp add: reconcile_write_def update_balance_def patch run_simps b')
  show ?thesis
    by (rule that[where row = ?row, OF c createRequest_inv[OF mem.orm_laws_axioms start_inv c] rs(1) _ b'(1) _ amounts(2,3) w])
      (use rs b' amounts core_requestD[OF rs(2)] in \<open>simp_all add: race_row_def new_request_def\<close>)
qed

text \<open>Twelve days stay available beside three pending ones where the HCM grants twelve.\<close>

theorem stale_write_imbalance_witness:
  "\<exists>v s t row. createRequest mem_orm sample_env sample_dto (Some ''k1'') (node_of start_tables) = (Inr v, s) \<and>
     reconcile_write mem_orm 5 race_record (Some race_row) s = (Inr True, t) \<and> balances (tables t) = [row] \<and>
     account_of row = \<lparr>acc_available = 12, acc_pending = 3, acc_used = 0, acc_total = 12\<rparr> \<and> \<not> ledger_inv (tables t)"
proof -
  obtain v s x b' t row where c: "createRequest mem_orm sample_env sample_dto (Some ''k1'') (node_of start_tables) = (Inr v, s)"
    and inv: "ledger_inv (tables s)" and b': "balances (tables s) = [b']" "b_id b' = b_id race_row" "pendingBalance b' = Fin 3"
      "usedBalance b' = Fin 0"
    and w: "reconcile_write mem_orm 5 race_record (Some race_row) s = (Inr True, t)" and t: "balances (tables t) = [row]"
    by (rule race_run)
  have acc: "account_of race_row = \<lparr>acc_available = 10, acc_pending = 0, acc_used = 0, acc_total = 10\<rparr>"
    "acc_pending (account_of b') = 3" "acc_used (account_of b') = 0"
    using b' by (simp_all add: account_of_def race_row_def new_balance_def)
  have h: "h_totalBalance race_record = Fin 12" "grid 12" "acc_total (account_of race_row) + 1 / 100 < 12"
    by (simp_all add: race_record_def acc grid_def)
  have m: "b' \<in> set (balances (tables s))" using b' by simp
  have row: "account_of row = \<lparr>acc_available = 12, acc_pending = 3, acc_used = 0, acc_total = 12\<rparr>"
    using stale_write_imbalance[OF mem.orm_laws_axioms start_inv race_read h inv m b'(2) w]
    unfolding acc t by auto
  then have "\<not> sound (account_of row)" by (simp add: sound_def)
  with t have "\<not> ledger_inv (tables t)" by (auto simp: ledger_inv_def balance_inv_def exact_def)
  with c w t row show ?thesis by blast
qed

section \<open>Partial records\<close>

text \<open>
  A record that lacks its leave type is no error: the query ignores the condition, so the record is
  reconciled with whatever row of the employee and the location comes first, and gives that row the
  total of an unknown leave type. The same run then flags the row as missing from the snapshot.
\<close>

definition partial_snapshot :: json where
  "partial_snapshot = JArr [JObj [(''employeeId'', JStr ''E1''), (''locationId'', JStr ''L1''), (''totalBalance'', JNum (Fin 20))]]"

lemma partial_record_overwrites:
  "map (\<lambda>b. (b_leaveType b, totalBalance b, availableBalance b, hasDiscrepancy b)) (balances (tables (snd
     (runBatchSync mem_orm (snapshot_hcm partial_snapshot) 5 (node_of start_tables))))) = [(''VACATION'', Fin 20, Fin 20, True)]"
proof -
  let ?b = "(new_balance 0 ''E1'' ''L1'' ''VACATION'' (Fin 10))\<lparr>b_id := Some ''b1''\<rparr>"
  let ?rec = "\<lparr>h_employeeId = Some ''E1'', h_locationId = Some ''L1'', h_leaveType = None, h_totalBalance = Fin 20, h_version = None\<rparr>"
  have dec: "decode_batch partial_snapshot = Inr [?rec]"
    by (simp add: partial_snapshot_def json_field_def)
  have patch: "reconcile_patch 5 ?rec ?b = (\<lambda>x. x\<lparr>totalBalance := Fin 20, availableBalance := Fin 20, hcmTotalBalance := Fin 20,
      hcmLastSync := Some 5, hcmVersion := None, hasDiscrepancy := False, discrepancyAmount := None\<rparr>, True)"
    using fl_hundredth
    by (simp add: reconcile_patch_def Let_def local_total_def new_balance_def DRIFT_TOLERANCE_def js_simps js_sub_def)
  show ?thesis
    using patch
    by (simp add: runBatchSync_def batch_after_log_def batch_body_def sync_all_def snapshot_hcm_def dec set_running_def
      new_log_def node_of_def start_tables_def run_simps finallyM_def reconcileRecord_def reconcile_read_def record_where_def
      id_matches_def reconcile_write_def update_balance_def new_balance_def key_string_def record_key_def missing_patch_def
      close_log_def no_count_def)
qed

end
