(* ===== verification/Ledger_System.thy ===== *)
theory Ledger_System
  imports Batch_Sync
begin

text \<open>
  The running service. Requests of clients, the queue of deferred callbacks, and the two scheduled
  jobs are the steps of one transition system on a node; the outcomes of single steps are proved in
  the theories of the components, and here they are put together for every sequence of steps. A
  step is a whole handler; \<open>Interleaving\<close> cuts the handlers into transactions and single statements.
\<close>

section \<open>Steps\<close>

fun run_job :: "'h orm \<Rightarrow> 'h hcm_client \<Rightarrow> int \<Rightarrow> job \<Rightarrow> ('h, unit) service" where
  "run_job D H now (NotifyHcm requestId e l lt d) = notifyHcmAsync D H now requestId e l lt d"
| "run_job D H now (NotifyApproval request requestId) = notifyApprovalToHcmAsync D H now request requestId"
| "run_job D H now RunBatchSync = runBatchSync D H now"

inductive step :: "'h orm \<Rightarrow> 'h hcm_client \<Rightarrow> 'h node \<Rightarrow> 'h node \<Rightarrow> bool" for D H where
  create: "createRequest D E dto header s = (r, t) \<Longrightarrow> step D H s t"
| approve: "approveRequest D now requestId approverId s = (r, t) \<Longrightarrow> step D H s t"
| reject: "rejectRequest D now requestId approverId reason s = (r, t) \<Longrightarrow> step D H s t"
| cancel: "cancelRequest D requestId reason' s = (r, t) \<Longrightarrow> step D H s t"
| seed: "sane (js_parseFloat tot) \<Longrightarrow> seedBalance D threshold now e l lt tot s = (b, t) \<Longrightarrow> step D H s t"
| trigger: "triggerManualBatchSync s = (u, t) \<Longrightarrow> step D H s t"
| callback: "jobs s = j # js \<Longrightarrow> run_job D H now j (s\<lparr>jobs := js\<rparr>) = (u, t) \<Longrightarrow> step D H s t"
| nightly: "runBatchSync D H now s = (u, t) \<Longrightarrow> step D H s t"
| quarterly: "retryPendingHcmSyncs D H now s = (u, t) \<Longrightarrow> step D H s t"

inductive_cases stepE: "step D H s t"

definition reaches :: "'h orm \<Rightarrow> 'h hcm_client \<Rightarrow> 'h node \<Rightarrow> 'h node \<Rightarrow> bool" where
  "reaches D H = (step D H)\<^sup>*\<^sup>*"

text \<open>
  What a step may do to the rows: requests stay with what they ask for and move along the
  transition table, records of idempotency keys stay as they are.
\<close>

definition follows :: "timeoff_request \<Rightarrow> timeoff_request \<Rightarrow> bool" where
  "follows r r' \<longleftrightarrow> r_id r' = r_id r \<and> request_key r' = request_key r \<and> daysRequested r' = daysRequested r \<and>
     startDate r' = startDate r \<and> endDate r' = endDate r \<and> r_idempotencyKey r' = r_idempotencyKey r \<and>
     r_status r \<le> r_status r'"

definition history :: "tables \<Rightarrow> tables \<Rightarrow> bool" where
  "history T T' \<longleftrightarrow> (\<forall>r\<in>set (requests T). \<exists>r'\<in>set (requests T'). follows r r') \<and>
     set (idempotency T) \<subseteq> set (idempotency T')"

lemma follows_refl [simp]: "follows r r"
  by (simp add: follows_def)

lemma follows_trans: "follows x y \<Longrightarrow> follows y z \<Longrightarrow> follows x z"
  unfolding follows_def by (auto intro: order_trans)

interpretation hist: table_preorder history
proof
  show "history T T" for T by (auto simp: history_def intro: follows_refl)
  show "history T U \<Longrightarrow> history U V \<Longrightarrow> history T V" for T U V
    unfolding history_def by (meson follows_trans subset_trans)
qed

lemma same_request_follows: "same_request x y \<Longrightarrow> follows x y"
  by (simp add: same_request_def follows_def)

lemma hcm_only_history: "hcm_only T T' \<Longrightarrow> history T T'"
  unfolding hcm_only_def history_def by (metis list_all2_mem' same_request_follows subset_refl)

lemma grows_history: "grows T T' \<Longrightarrow> history T T'"
  by (auto simp: grows_def history_def intro: follows_refl)

lemma created_history: "created lifetime now dto key days hash saved T T' \<Longrightarrow> history T T'"
  unfolding created_def history_def by (elim conjE bexE exE) (auto intro: follows_refl)

lemma settled_history:
  assumes "settled requestId upd f r' T T'" and "keeps_request upd" and "\<And>r. r_idempotencyKey (upd r) = r_idempotencyKey r"
    and "\<And>r. r_status (upd r) \<noteq> PENDING" and "wf_tables T"
  shows "history T T'"
proof -
  from assms(1) obtain r where r: "r \<in> set (requests T)" "r_status r = PENDING" "core_request r' = core_request (upd r)"
    "r_id r' = r_id r" and T': "requests T' = upsert r_id r' (requests T)" "idempotency T' = idempotency T"
    by (auto simp: settled_def)
  have "follows r r'"
    using core_requestD[OF r(3)] r(2,4) assms(2,3) by (simp add: follows_def keeps_request_def request_key_def)
  moreover have "x = r" if "x \<in> set (requests T)" "r_id x = r_id r" for x
    using assms(5) that r(1) by (auto simp: wf_tables_def dest: ids_unique)
  ultimately show ?thesis
    using r(4) by (auto simp: history_def T' set_upsert intro: follows_refl)
qed

section \<open>Every step\<close>

definition sane_hcm :: "'h hcm_client \<Rightarrow> bool" where
  "sane_hcm H \<longleftrightarrow> (\<forall>s j t recs. getBatchBalances H s = (Inr j, t) \<longrightarrow> decode_batch j = Inr recs \<longrightarrow>
     (\<forall>rec\<in>set recs. sane (h_totalBalance rec)))"

text \<open>The relation every step keeps, and through it every run.\<close>

definition keeps_order :: "tables \<Rightarrow> tables \<Rightarrow> bool" where
  "keeps_order T T' \<longleftrightarrow> (ledger_inv T \<longrightarrow> ledger_inv T' \<and> history T T')"

interpretation order: table_preorder keeps_order
proof
  show "keeps_order T T" for T by (simp add: keeps_order_def hist.refl)
  show "keeps_order T U \<Longrightarrow> keeps_order U V \<Longrightarrow> keeps_order T V" for T U V
    by (auto simp: keeps_order_def intro: hist.trans)
qed

lemma keeps_order_hcm_only: "hcm_only T T' \<Longrightarrow> keeps_order T T'"
  by (simp add: keeps_order_def hcm_only_history hcm_only_inv)

lemma keeps_order_reconciled: "reconciled T T' \<Longrightarrow> keeps_order T T'"
  by (auto simp: keeps_order_def reconciled_def grows_history)

lemma settlement_order:
  assumes "ledger_inv (tables s) \<Longrightarrow> settlement requestId upd f s r t" and "keeps_request upd"
    and "\<And>r. r_idempotencyKey (upd r) = r_idempotencyKey r" and "\<And>r. r_status (upd r) \<noteq> PENDING"
  shows "keeps_order (tables s) (tables t)"
  unfolding keeps_order_def
proof
  assume inv: "ledger_inv (tables s)"
  note st = assms(1)[OF inv, unfolded settlement_def]
  then show "ledger_inv (tables t) \<and> history (tables s) (tables t)"
    using settled_history[OF _ assms(2-4) ledger_inv_wf[OF inv]] by (cases r) (auto simp: hist.refl)
qed

lemma createRequest_order:
  assumes "orm_laws D undo" and "createRequest D E dto header s = (r, t)"
  shows "keeps_order (tables s) (tables t)"
  unfolding keeps_order_def
proof
  assume inv: "ledger_inv (tables s)"
  have "history (tables s) (tables t)"
    using orm_laws.createRequest_run[OF assms ledger_inv_wf[OF inv]]
    by (cases r) (auto simp: hist.refl dest: created_history)
  with createRequest_inv[OF assms(1) inv assms(2)] show "ledger_inv (tables t) \<and> history (tables s) (tables t)" by simp
qed

context orm_laws
begin

lemma seedBalance_reconciled:
  assumes "sane (js_parseFloat tot)" and run: "seedBalance D threshold now e l lt tot s = (r, t)"
  shows "reconciled (tables s) (tables t)"
proof -
  let ?q = "where_all (has_key e l lt)"
  obtain x u where x: "findOne (balanceRepository D) ?q s = (x, u)" by (cases "findOne (balanceRepository D) ?q s")
  have T: "tables u = tables s"
    using x by (cases x) (auto dest: bal.findOne_err bal.findOne_ok)
  have new: "(new_balance now e l lt a)\<lparr>hcmVersion := None\<rparr> = new_balance now e l lt a" for a
    by (simp add: new_balance_def)
  show ?thesis
  proof (cases "x = Inr None")
    case True
    with run x obtain y
      where "repo_save (balanceRepository D) ((new_balance now e l lt (js_parseFloat tot))\<lparr>hcmVersion := None\<rparr>) u = (y, t)"
      unfolding new by (auto simp: seedBalance_def upsertBalance_def bindM_app split: prod.splits sum.splits)
    from save_new_row[OF this assms(1)] show ?thesis by (simp add: T)
  next
    case False
    with run x have "t = u"
      by (auto simp: seedBalance_def upsertBalance_def bindM_app split: sum.splits option.splits)
    with T show ?thesis by (simp add: recon.refl)
  qed
qed

end

context background
begin

lemma run_job_order:
  assumes "sane_hcm H" and "run_job D H now j s = (u, t)"
  shows "keeps_order (tables s) (tables t)"
proof (cases j)
  case (NotifyHcm i e l lt d)
  with assms(2) movesD[OF hcm_moves(1)] show ?thesis by (simp add: keeps_order_hcm_only)
next
  case (NotifyApproval request i)
  with assms(2) movesD[OF hcm_moves(2)] show ?thesis by (simp add: keeps_order_hcm_only)
next
  case RunBatchSync
  have "moves reconciled (runBatchSync D H now)"
    using assms(1) by (intro batch_moves) (auto simp: sane_hcm_def)
  from movesD[OF this] RunBatchSync assms(2) show ?thesis by (simp add: keeps_order_reconciled)
qed

lemma step_order:
  assumes "sane_hcm H" and "step D H s t"
  shows "keeps_order (tables s) (tables t)"
  using assms(2)
proof cases
  case (create E dto header r)
  then show ?thesis by (rule createRequest_order[OF orm_laws_axioms])
next
  case (approve now requestId approverId r)
  then show ?thesis
    by (intro settlement_order[OF settlements(1)[OF orm_laws_axioms]]) (auto simp: keeps_request_updates)
next
  case (reject now requestId approverId reason r)
  then show ?thesis
    by (intro settlement_order[OF settlements(2)[OF orm_laws_axioms]]) (auto simp: keeps_request_updates)
next
  case (cancel requestId reason' r)
  then show ?thesis
    by (intro settlement_order[OF settlements(3)[OF orm_laws_axioms]]) (auto simp: keeps_request_updates)
next
  case (seed tot threshold now e l lt b)
  then show ?thesis by (intro keeps_order_reconciled seedBalance_reconciled)
next
  case (trigger u)
  then show ?thesis by (auto simp: triggerManualBatchSync_def setImmediate_def order.refl split: if_splits)
next
  case (callback j js now u)
  from run_job_order[OF assms(1) callback(2)] show ?thesis by simp
next
  case (nightly now u)
  then have "run_job D H now RunBatchSync s = (u, t)" by simp
  then show ?thesis by (rule run_job_order[OF assms(1)])
next
  case (quarterly now u)
  from movesD[OF hcm_moves(3) this] show ?thesis by (rule keeps_order_hcm_only)
qed

lemma reaches_order:
  assumes "sane_hcm H" and "reaches D H s t"
  shows "keeps_order (tables s) (tables t)"
  using assms(2) unfolding reaches_def
proof (induction rule: rtranclp_induct)
  case base
  show ?case by (rule order.refl)
next
  case (step u t)
  from order.trans[OF step.IH step_order[OF assms(1) step.hyps(2)]] show ?case .
qed

end

lemma final_follows: "follows r r' \<Longrightarrow> r_status r \<noteq> PENDING \<Longrightarrow> r_status r' = r_status r"
  by (simp add: follows_def decided_maximal)

section \<open>Properties of every run\<close>

definition no_tables :: tables where
  "no_tables = \<lparr>balances = [], requests = [], idempotency = [], sync_logs = []\<rparr>"

text \<open>
  Whatever sequence of client requests, callbacks and scheduled jobs a node runs from an empty
  database, in every state it reaches the books balance. In every balance row available, pending
  and used days are not negative and add up to the total, the pending days are exactly the days of
  the pending requests against that row, and the used days exactly those of the approved ones; no
  two pending or approved requests of an employee at a location share a day; and every such request
  has a balance row.
\<close>

theorem books_balance:
  assumes "orm_laws D undo" and "hcm_client_laws H undo" and "sane_hcm H"
    and "tables s = no_tables" and "reaches D H s t"
  shows "(\<forall>b\<in>set (balances (tables t)).
      0 \<le> acc_available (account_of b) \<and> 0 \<le> acc_pending (account_of b) \<and> 0 \<le> acc_used (account_of b) \<and>
      acc_available (account_of b) + acc_pending (account_of b) + acc_used (account_of b) = acc_total (account_of b) \<and>
      acc_pending (account_of b) = held PENDING (balance_key b) (requests (tables t)) \<and>
      acc_used (account_of b) = held APPROVED (balance_key b) (requests (tables t))) \<and>
    (\<forall>x\<in>set (requests (tables t)). \<forall>y\<in>set (requests (tables t)). r_id x \<noteq> r_id y \<longrightarrow>
      active x \<longrightarrow> active y \<longrightarrow> r_employeeId x = r_employeeId y \<longrightarrow> r_locationId x = r_locationId y \<longrightarrow>
      \<not> datesOverlap (startDate x) (endDate x) (startDate y) (endDate y)) \<and>
    (\<forall>x\<in>set (requests (tables t)). active x \<longrightarrow> request_key x \<in> balance_key ` set (balances (tables t)))"
proof -
  have "background D H undo" using assms(1,2) by (simp add: background_def)
  from background.reaches_order[OF this assms(3,5)] have "ledger_inv (tables t)"
    by (simp add: keeps_order_def assms(4) no_tables_def ledger_inv_empty)
  then show ?thesis
    by (auto simp: ledger_inv_def balance_inv_def exact_def sound_def request_inv_def clash_def)
qed

text \<open>
  A request is never lost and a decision is never reversed. In every state that is reachable
  from one in order, each request of that state still exists with the same dates, days and balance;
  its status has changed at most along the transition table, so that an approved, rejected or
  cancelled request keeps that status for good; and every idempotency record is still there.
\<close>

theorem decisions_are_final:
  assumes "orm_laws D undo" and "hcm_client_laws H undo" and "sane_hcm H"
    and "ledger_inv (tables s)" and "reaches D H s t" and "r \<in> set (requests (tables s))"
  shows "set (idempotency (tables s)) \<subseteq> set (idempotency (tables t)) \<and>
    (\<exists>r'\<in>set (requests (tables t)). r_id r' = r_id r \<and> request_key r' = request_key r \<and>
      daysRequested r' = daysRequested r \<and> startDate r' = startDate r \<and> endDate r' = endDate r \<and>
      (r_status r' = r_status r \<or> r_status r' \<in> set (VALID_TRANSITIONS (r_status r))) \<and>
      (r_status r \<noteq> PENDING \<longrightarrow> r_status r' = r_status r))"
proof -
  have "background D H undo" using assms(1,2) by (simp add: background_def)
  from background.reaches_order[OF this assms(3,5)] assms(4) have h: "history (tables s) (tables t)"
    by (simp add: keeps_order_def)
  with assms(6) obtain r' where r': "r' \<in> set (requests (tables t))" "follows r r'" by (auto simp: history_def)
  show ?thesis
    using h final_follows[OF r'(2)] r'
    by (auto simp: history_def follows_def less_eq_request_status_def intro!: bexI[of _ r'])
qed

lemma silent_sane: "sane_hcm silent_hcm"
  by (simp add: sane_hcm_def silent_hcm_def)

text \<open>A run: a balance is seeded and a request created against it.\<close>

lemma sample_reaches: "\<exists>t. reaches mem_orm silent_hcm (node_of no_tables) t \<and> balances (tables t) \<noteq> []"
proof -
  have "js_parseFloat ''10'' = Fin 10" by code_simp
  then have "sane (js_parseFloat ''10'')" by (simp add: sane_def)
  moreover have "\<exists>b t. seedBalance mem_orm None 0 ''E1'' ''L1'' ''VACATION'' ''10'' (node_of no_tables) = (b, t) \<and> balances (tables t) \<noteq> []"
    using \<open>js_parseFloat ''10'' = Fin 10\<close>
    by (simp add: seedBalance_def upsertBalance_def run_simps no_tables_def new_balance_def)
  ultimately show ?thesis unfolding reaches_def by (blast intro: step.seed)
qed

theorem books_balance_witness:
  "\<exists>t. reaches mem_orm silent_hcm (node_of no_tables) t \<and> balances (tables t) \<noteq> [] \<and>
     (\<forall>b\<in>set (balances (tables t)). acc_pending (account_of b) = held PENDING (balance_key b) (requests (tables t)))"
proof -
  obtain t where t: "reaches mem_orm silent_hcm (node_of no_tables) t" "balances (tables t) \<noteq> []"
    using sample_reaches by blast
  from books_balance[OF mem.orm_laws_axioms silent_hcm_laws silent_sane _ t(1)] t show ?thesis
    by (auto simp: sample_sel)
qed

theorem decisions_are_final_witness:
  "\<exists>t. reaches mem_orm silent_hcm (node_of pending_tables) t \<and>
     (\<exists>r'\<in>set (requests (tables t)). r_id r' = Some ''r1'' \<and> daysRequested r' = Fin 3)"
proof -
  obtain v t where "approveRequest mem_orm 0 ''r1'' ''boss'' (node_of pending_tables) = (Inr v, t)"
    by (rule sample_approve)
  then have t: "reaches mem_orm silent_hcm (node_of pending_tables) t"
    unfolding reaches_def by (blast intro: step.approve)
  have r: "sample_request \<in> set (requests (tables (node_of pending_tables)))" by (simp add: sample_sel pending_tables_def)
  from decisions_are_final[OF mem.orm_laws_axioms silent_hcm_laws silent_sane pending_inv t r] t show ?thesis
    by (auto simp: sample_request_def new_request_def)
qed

end
