(* ===== verification/Interleaving.thy ===== *)
theory Interleaving
  imports Ledger_System
begin

text \<open>
  Handlers that run at the same time. A handler gives way at every \<open>await\<close>, so between two of its
  statements other handlers may run. What cannot be cut in two is a transaction or a single
  statement; every handler, callback and scheduled job of the service is made of such actions, and
  whatever order the actions of any number of them come in, the books balance, as long as no
  reconciliation writes from a row whose available days or sum of days have changed since it was read
  (\<open>stale_write_imbalance\<close> shows what such a write does, and \<open>Racing\<close> what holds even then). The read
  and the write of a reconciliation are two statements here; only the write changes the tables.
\<close>

section \<open>Atomic actions\<close>

text \<open>
  The actions that change the tables. What a statement writes may have been computed from rows that
  were read long before: the columns of an update and the row of a log are arbitrary.
\<close>

inductive atomic :: "'h orm \<Rightarrow> tables \<Rightarrow> tables \<Rightarrow> bool" for D where
  create_attempt: "transaction D (create_tx D lifetime now dto key (calculateDaysRequested (d_startDate dto) (d_endDate dto)) hash) s = (r, t) \<Longrightarrow>
    atomic D (tables s) (tables t)"
| approve_attempt: "approveRequest D now requestId approverId s = (r, t) \<Longrightarrow> atomic D (tables s) (tables t)"
| reject_attempt: "rejectRequest D now requestId approverId reason s = (r, t) \<Longrightarrow> atomic D (tables s) (tables t)"
| cancel_attempt: "cancelRequest D requestId reason' s = (r, t) \<Longrightarrow> atomic D (tables s) (tables t)"
| hcm_columns: "hcm_patch f \<Longrightarrow> update_request D i f s = (r, t) \<Longrightarrow> atomic D (tables s) (tables t)"
| fresh_write: "sane (h_totalBalance rec) \<Longrightarrow> fresh localBalance (tables s) \<Longrightarrow>
    reconcile_write D now rec localBalance s = (r, t) \<Longrightarrow> atomic D (tables s) (tables t)"
| missing_row: "update_balance D i (missing_patch now b) s = (r, t) \<Longrightarrow> atomic D (tables s) (tables t)"
| new_row: "sane tot \<Longrightarrow> repo_save (balanceRepository D) (new_balance now e l lt tot) s = (r, t) \<Longrightarrow> atomic D (tables s) (tables t)"
| opened_log: "repo_save (syncLogRepository D) entry s = (r, t) \<Longrightarrow> atomic D (tables s) (tables t)"
| closed_log: "repo_update (syncLogRepository D) x f s = (r, t) \<Longrightarrow> atomic D (tables s) (tables t)"

text \<open>Any number of actions of any number of handlers, in any order.\<close>

definition interleaved :: "'h orm \<Rightarrow> tables \<Rightarrow> tables \<Rightarrow> bool" where
  "interleaved D = (atomic D)\<^sup>*\<^sup>*"

interpretation woven: table_preorder "interleaved D"
  by unfold_locales (auto simp: interleaved_def)

lemma interleavedI: "atomic D T T' \<Longrightarrow> interleaved D T T'"
  by (simp add: interleaved_def)

lemma moves_atomic: "(\<And>s r t. m s = (r, t) \<Longrightarrow> atomic D (tables s) (tables t)) \<Longrightarrow> moves (interleaved D) m"
  by (rule movesI) (rule interleavedI)

section \<open>Every action keeps the order\<close>

context orm_laws
begin

lemma new_row_reconciled:
  assumes "sane tot" and "repo_save (balanceRepository D) (new_balance now e l lt tot) s = (r, t)"
  shows "reconciled (tables s) (tables t)"
proof -
  have "(new_balance now e l lt tot)\<lparr>hcmVersion := None\<rparr> = new_balance now e l lt tot" by (simp add: new_balance_def)
  with save_new_row[where now = now and e = e and l = l and lt = lt and tot = tot and v = None and u = s and y = r and t = t] assms show ?thesis by simp
qed

lemma create_attempt_order:
  assumes "transaction D (create_tx D lifetime now dto key (calculateDaysRequested (d_startDate dto) (d_endDate dto)) hash) s = (r, t)"
  shows "keeps_order (tables s) (tables t)"
  unfolding keeps_order_def
proof
  assume inv: "ledger_inv (tables s)"
  from create_transaction_run[OF assms ledger_inv_wf[OF inv]] show "ledger_inv (tables t) \<and> history (tables s) (tables t)"
    by (cases r) (auto simp: inv hist.refl intro: created_inv[OF inv] dest: created_history)
qed

lemma atomic_order:
  assumes "atomic D T T'"
  shows "keeps_order T T'"
  using assms
proof cases
  case (create_attempt lifetime now dto key hash s r t)
  then show ?thesis using create_attempt_order by simp
next
  case (approve_attempt now requestId approverId s r t)
  have "keeps_order (tables s) (tables t)"
    by (rule settlement_order[OF settlements(1)[OF orm_laws_axioms]]) (use approve_attempt in \<open>auto simp: keeps_request_updates\<close>)
  with approve_attempt show ?thesis by simp
next
  case (reject_attempt now requestId approverId reason s r t)
  have "keeps_order (tables s) (tables t)"
    by (rule settlement_order[OF settlements(2)[OF orm_laws_axioms]]) (use reject_attempt in \<open>auto simp: keeps_request_updates\<close>)
  with reject_attempt show ?thesis by simp
next
  case (cancel_attempt requestId reason' s r t)
  have "keeps_order (tables s) (tables t)"
    by (rule settlement_order[OF settlements(3)[OF orm_laws_axioms]]) (use cancel_attempt in \<open>auto simp: keeps_request_updates\<close>)
  with cancel_attempt show ?thesis by simp
next
  case (hcm_columns f i s r t)
  then show ?thesis using movesD[OF update_request_moves] by (simp add: keeps_order_hcm_only)
next
  case (fresh_write rec localBalance s now r t)
  then show ?thesis using reconcile_write_reconciled by (simp add: keeps_order_reconciled)
next
  case (missing_row i now b s r t)
  have "reconciled (tables s) (tables t)"
    by (rule update_balance_reconciled[OF missing_row(3)]) (auto dest: exact_row missing_patch_grown)
  with missing_row show ?thesis by (simp add: keeps_order_reconciled)
next
  case (new_row tot now e l lt s r t)
  then show ?thesis using new_row_reconciled by (simp add: keeps_order_reconciled)
next
  case (opened_log entry s r t)
  then show ?thesis using movesD[OF log_save_moves] by (simp add: keeps_order_reconciled)
next
  case (closed_log x f s r t)
  then show ?thesis using movesD[OF log_update_moves] by (simp add: keeps_order_reconciled)
qed

lemma interleaved_order:
  assumes "interleaved D T T'"
  shows "keeps_order T T'"
  using assms unfolding interleaved_def
  by (induction rule: rtranclp_induct) (auto intro: order.refl order.trans[OF _ atomic_order])

end

section \<open>Handlers are made of actions\<close>

context repository_laws
begin

lemma findOne_tables: "findOne R q s = (r, t) \<Longrightarrow> tables t = tables s"
  by (auto simp: findOne_def bindM_def split: prod.splits sum.splits dest: find_ok find_err)

end

lemma moves_quiet: "(\<And>s r t. m s = (r, t) \<Longrightarrow> tables t = tables s) \<Longrightarrow> moves (interleaved D) m"
  by (rule movesI) (simp add: woven.refl)

context orm_laws
begin

lemma findOne_moves:
  "moves (interleaved D) (findOne (balanceRepository D) q)" "moves (interleaved D) (findOne (requestRepository D) q')"
  "moves (interleaved D) (findOne (idempotencyRepository D) q'')"
  by (rule moves_quiet, erule bal.findOne_tables req.findOne_tables idem.findOne_tables)+

lemma retry_attempts_moves:
  "(\<And>k. moves (interleaved D) (runTx k)) \<Longrightarrow> moves (interleaved D) (retry_attempts runTx n)"
proof (induction runTx n rule: retry_attempts.induct)
  case (1 runTx n)
  have "moves (interleaved D) (if \<not> isSqliteTransientTxError err \<or> maxAttempts \<le> n then throwM err
      else retry_attempts runTx (n + 1))" for err
    using 1(1)[of err] 1(2) by (simp add: woven.returns)
  then show ?case
    by (subst retry_attempts.simps) (rule woven.catchM[OF 1(2)])
qed

lemma attempt_moves: "moves (interleaved D) (transaction D
    (create_tx D lifetime now dto key (calculateDaysRequested (d_startDate dto) (d_endDate dto)) hash))"
  by (rule moves_atomic) (rule atomic.create_attempt)

lemma new_row_moves: "sane tot \<Longrightarrow> moves (interleaved D) (repo_save (balanceRepository D) (new_balance now e l lt tot))"
  by (rule moves_atomic) (rule atomic.new_row)

lemma createRequest_moves: "moves (interleaved D) (createRequest D E dto header)"
proof -
  have check: "moves (interleaved D) (checkIdempotency D now key hash)" for now key hash
    unfolding checkIdempotency_def
    by (auto intro!: woven.bindM woven.returns findOne_moves split: option.split)
  have recover: "moves (interleaved D) (recoverAfterConstraint D now key hash)" for now key hash
    unfolding recoverAfterConstraint_def
    by (auto intro!: woven.bindM woven.returns check findOne_moves split: option.split)
  have failed: "moves (interleaved D) (create_failed D E key hash err)" for key hash err
    unfolding create_failed_def
    by (auto intro!: woven.bindM woven.returns recover split: option.split)
  have locked: "moves (interleaved D) (create_locked D E dto key (calculateDaysRequested (d_startDate dto) (d_endDate dto)) hash)" for key hash
    unfolding create_locked_def runCreateTransactionWithRetry_def
    by (auto intro!: woven.bindM woven.catchM woven.returns check failed retry_attempts_moves attempt_moves
        split: option.split)
  show ?thesis
    unfolding createRequest_def Let_def
    by (auto intro!: woven.bindM woven.returns check locked split: option.split)
qed

lemma seedBalance_moves: "sane (js_parseFloat tot) \<Longrightarrow> moves (interleaved D) (seedBalance D threshold now e l lt tot)"
  unfolding seedBalance_def upsertBalance_def
  by (auto intro!: woven.bindM woven.returns findOne_moves new_row_moves split: option.split)

end

context orm_laws
begin

lemma record_moves:
  assumes "sane (h_totalBalance rec)"
  shows "moves (interleaved D) (reconcileRecord D now rec)"
proof (rule movesI)
  fix s r t assume run: "reconcileRecord D now rec s = (r, t)"
  obtain x u where f: "reconcile_read D rec s = (x, u)" by (cases "reconcile_read D rec s")
  note T = reconcile_read_tables[OF f]
  show "interleaved D (tables s) (tables t)"
  proof (cases x)
    case (Inl e)
    with run f T show ?thesis by (auto simp: reconcileRecord_def bindM_app woven.refl)
  next
    case (Inr lb)
    with run f have "reconcile_write D now rec lb u = (r, t)" by (simp add: reconcileRecord_def bindM_app)
    with reconcile_read_fresh[OF f[unfolded Inr]] have "atomic D (tables u) (tables t)"
      by (blast intro: atomic.fresh_write[OF assms])
    with T show ?thesis by (simp add: interleavedI)
  qed
qed

end

sublocale background < woven_hcm: notification_pieces D H undo "interleaved D"
  by unfold_locales (blast intro: moves_atomic atomic.hcm_columns)

sublocale background < woven_batch: batch_pieces D H undo "interleaved D" "\<lambda>rec. sane (h_totalBalance rec)"
  by unfold_locales (blast intro: record_moves moves_atomic atomic.intros)+

context background
begin

lemma run_job_interleaves:
  assumes "sane_hcm H" and "run_job D H now j s = (u, t)"
  shows "interleaved D (tables s) (tables t)"
proof (cases j)
  case (NotifyHcm i e l lt d)
  with assms(2) movesD[OF woven_hcm.notifyHcmAsync_moves] show ?thesis by simp
next
  case (NotifyApproval request i)
  with assms(2) movesD[OF woven_hcm.notifyApprovalToHcmAsync_moves] show ?thesis by simp
next
  case RunBatchSync
  have "moves (interleaved D) (runBatchSync D H now)"
    using assms(1) by (intro woven_batch.runBatchSync_moves) (auto simp: sane_hcm_def)
  from movesD[OF this] RunBatchSync assms(2) show ?thesis by simp
qed

lemma step_interleaves:
  assumes "sane_hcm H" and "step D H s t"
  shows "interleaved D (tables s) (tables t)"
  using assms(2)
proof cases
  case (create E dto header r)
  then show ?thesis by (rule movesD[OF createRequest_moves])
next
  case (seed tot threshold now e l lt b)
  then show ?thesis by (intro movesD[OF seedBalance_moves])
next
  case (trigger u)
  then show ?thesis by (auto simp: triggerManualBatchSync_def setImmediate_def woven.refl split: if_splits)
next
  case (callback j js now u)
  from run_job_interleaves[OF assms(1) callback(2)] show ?thesis by simp
next
  case (nightly now u)
  then have "run_job D H now RunBatchSync s = (u, t)" by simp
  then show ?thesis by (rule run_job_interleaves[OF assms(1)])
next
  case (quarterly now u)
  then show ?thesis by (rule movesD[OF woven_hcm.retryPendingHcmSyncs_moves])
qed (auto intro!: interleavedI intro: atomic.intros)

lemma reaches_interleaves:
  assumes "sane_hcm H" and "reaches D H s t"
  shows "interleaved D (tables s) (tables t)"
  using assms(2) unfolding reaches_def
  by (induction rule: rtranclp_induct) (auto intro: woven.refl woven.trans step_interleaves[OF assms(1)])

end

text \<open>
  Every run of the service is made of atomic actions: whatever handlers, callbacks and scheduled
  jobs a node has run one after the other, the same tables are reached by transactions and single
  statements in which other handlers could have been interleaved. So what holds of every
  interleaving holds of every run.
\<close>

theorem runs_interleave:
  assumes "orm_laws D undo" and "hcm_client_laws H undo" and "sane_hcm H" and "reaches D H s t"
  shows "interleaved D (tables s) (tables t)"
proof -
  have "background D H undo" using assms(1,2) by (simp add: background_def)
  from background.reaches_interleaves[OF this assms(3,4)] show ?thesis .
qed

abbreviation mem_db :: "(tables \<times> unit) orm" where
  "mem_db \<equiv> mem_orm"

lemma sample_decided:
  obtains t where "reaches mem_db silent_hcm (node_of pending_tables) t" and "map r_status (requests (tables t)) = [APPROVED]"
proof -
  have "\<exists>v t. approveRequest mem_orm 0 ''r1'' ''boss'' (node_of pending_tables) = (Inr v, t) \<and>
      map r_status (requests (tables t)) = [APPROVED]"
    by (simp add: run_simps approveRequest_def approve_tx_def pending_tables_def getRequestLockedOrThrow_def
        assertValidTransition_def finalizeUsed_def finalized_def sample_request_def sample_balance_def
        new_balance_def new_request_def)
  then obtain v t where t: "approveRequest mem_orm 0 ''r1'' ''boss'' (node_of pending_tables) = (Inr v, t)"
    "map r_status (requests (tables t)) = [APPROVED]" by (elim exE conjE)
  have "step mem_db silent_hcm (node_of pending_tables) t" by (rule step.approve[OF t(1)])
  then have "reaches mem_db silent_hcm (node_of pending_tables) t" by (auto simp: reaches_def)
  then show ?thesis using t(2) by (rule that)
qed

theorem runs_interleave_witness:
  "\<exists>T. interleaved mem_db pending_tables T \<and> map r_status (requests T) = [APPROVED]"
proof -
  obtain t where t: "reaches mem_db silent_hcm (node_of pending_tables) t" "map r_status (requests (tables t)) = [APPROVED]"
    by (rule sample_decided)
  from runs_interleave[OF mem.orm_laws_axioms silent_hcm_laws silent_sane t(1)] t(2) show ?thesis by (auto simp: sample_sel)
qed

section \<open>Properties of every interleaving\<close>

text \<open>
  C1: However the transactions and statements of any number of concurrent handlers, callbacks and
  scheduled jobs interleave, the books balance, as long as no reconciliation writes from a row whose
  available days, or whose sum of available, pending and used days, are no longer what it read. From
  any ledger in order, such as an empty one, on: in every balance row available, pending and used
  days are not negative and add up to the total, the pending days are exactly the days of the pending
  requests against that row, and the used days exactly those of the approved ones; no two pending or
  approved requests of an employee at a location share a day; and every such request has a balance
  row.
\<close>

theorem books_balance_interleaved:
  assumes "orm_laws D undo" and "ledger_inv T0" and "interleaved D T0 T"
  shows "(\<forall>b\<in>set (balances T).
      0 \<le> acc_available (account_of b) \<and> 0 \<le> acc_pending (account_of b) \<and> 0 \<le> acc_used (account_of b) \<and>
      acc_available (account_of b) + acc_pending (account_of b) + acc_used (account_of b) = acc_total (account_of b) \<and>
      acc_pending (account_of b) = held PENDING (balance_key b) (requests T) \<and>
      acc_used (account_of b) = held APPROVED (balance_key b) (requests T)) \<and>
    (\<forall>x\<in>set (requests T). \<forall>y\<in>set (requests T). r_id x \<noteq> r_id y \<longrightarrow>
      active x \<longrightarrow> active y \<longrightarrow> r_employeeId x = r_employeeId y \<longrightarrow> r_locationId x = r_locationId y \<longrightarrow>
      \<not> datesOverlap (startDate x) (endDate x) (startDate y) (endDate y)) \<and>
    (\<forall>x\<in>set (requests T). active x \<longrightarrow> request_key x \<in> balance_key ` set (balances T))"
proof -
  have "ledger_inv T"
    using orm_laws.interleaved_order[OF assms(1,3)] assms(2) by (simp add: keeps_order_def)
  then show ?thesis
    by (auto simp: ledger_inv_def balance_inv_def exact_def sound_def request_inv_def clash_def)
qed

lemma empty_ledger: "ledger_inv no_tables"
  by (simp add: no_tables_def ledger_inv_empty)

text \<open>
  An approval between the read and the write of a reconciliation: the row is read with three pending
  days, the approval turns them into used ones, and the write raises the total to twelve from the
  row that was read.
\<close>

lemma approve_in_between:
  obtains v t t' row x where "approveRequest mem_orm 0 ''r1'' ''boss'' (node_of pending_tables) = (Inr v, t)"
    and "fresh (Some sample_balance) (tables t)" and "reconcile_write mem_orm 5 race_record (Some sample_balance) t = (Inr True, t')"
    and "balances (tables t') = [row]" and "availableBalance row = Fin 9" and "totalBalance row = Fin 12"
    and "requests (tables t') = [x]" and "r_status x = APPROVED" and "daysRequested x = Fin 3" and "request_key x = balance_key row"
proof -
  have "\<exists>v t b x. approveRequest mem_orm 0 ''r1'' ''boss'' (node_of pending_tables) = (Inr v, t) \<and> balances (tables t) = [b] \<and>
      availableBalance b = Fin 7 \<and> local_total b = Fin 10 \<and> b_id b = Some ''b1'' \<and>
      pendingBalance b = Fin 0 \<and> usedBalance b = Fin 3 \<and> carryOverBalance b = Fin 0 \<and>
      requests (tables t) = [x] \<and> r_status x = APPROVED \<and> daysRequested x = Fin 3 \<and> request_key x = balance_key b"
    by (simp add: run_simps approveRequest_def approve_tx_def pending_tables_def getRequestLockedOrThrow_def
        assertValidTransition_def finalizeUsed_def finalized_def sample_request_def sample_balance_def
        new_balance_def new_request_def local_total_def request_key_def balance_key_def)
  then obtain v t b x where a: "approveRequest mem_orm 0 ''r1'' ''boss'' (node_of pending_tables) = (Inr v, t)" "balances (tables t) = [b]"
    "availableBalance b = Fin 7" "local_total b = Fin 10" "b_id b = Some ''b1''"
    "pendingBalance b = Fin 0" "usedBalance b = Fin 3" "carryOverBalance b = Fin 0"
    and x: "requests (tables t) = [x]" "r_status x = APPROVED" "daysRequested x = Fin 3" "request_key x = balance_key b"
    by (elim exE conjE)
  have row: "b_id sample_balance = Some ''b1''" "availableBalance sample_balance = Fin 7" "local_total sample_balance = Fin 10"
    by (simp_all add: sample_balance_def new_balance_def local_total_def js_simps)
  have patch: "reconcile_patch 5 race_record sample_balance = (\<lambda>x. x\<lparr>totalBalance := Fin 12, availableBalance := Fin 9,
      hcmTotalBalance := Fin 12, hcmLastSync := Some 5, hcmVersion := None, hasDiscrepancy := False, discrepancyAmount := None\<rparr>, True)"
    using fl_hundredth by (simp add: reconcile_patch_def Let_def race_record_def row DRIFT_TOLERANCE_def js_simps js_sub_def)
  let ?row = "b\<lparr>totalBalance := Fin 12, availableBalance := Fin 9, hcmTotalBalance := Fin 12, hcmLastSync := Some 5,
      hcmVersion := None, hasDiscrepancy := False, discrepancyAmount := None, b_version := Suc (b_version b)\<rparr>"
  have "reconcile_write mem_orm 5 race_record (Some sample_balance) t = (Inr True, t\<lparr>tables := (tables t)\<lparr>balances := [?row]\<rparr>\<rparr>)"
    using a row by (simp add: reconcile_write_def update_balance_def patch run_simps)
  moreover have "fresh (Some sample_balance) (tables t)" using a row by (simp add: fresh_def same_days_def)
  ultimately show ?thesis using that[OF a(1), where row = ?row and x = x] x by (simp add: balance_key_def)
qed

theorem books_balance_interleaved_witness:
  "\<exists>T row. interleaved mem_db pending_tables T \<and> balances T = [row] \<and> map r_status (requests T) = [APPROVED] \<and>
     account_of row = \<lparr>acc_available = 9, acc_pending = 0, acc_used = 3, acc_total = 12\<rparr>"
proof -
  obtain v t t' row x where a: "approveRequest mem_orm 0 ''r1'' ''boss'' (node_of pending_tables) = (Inr v, t)"
    and f: "fresh (Some sample_balance) (tables t)" and w: "reconcile_write mem_orm 5 race_record (Some sample_balance) t = (Inr True, t')"
    and row: "balances (tables t') = [row]" "availableBalance row = Fin 9" "totalBalance row = Fin 12"
    and x: "requests (tables t') = [x]" "r_status x = APPROVED" "daysRequested x = Fin 3" "request_key x = balance_key row"
    by (rule approve_in_between)
  have "sane (h_totalBalance race_record)" by (simp add: sane_def race_record_def)
  from atomic.fresh_write[OF this f w] have "interleaved mem_db (tables t) (tables t')" by (rule interleavedI)
  then have T: "interleaved mem_db pending_tables (tables t')"
    using interleavedI[OF atomic.approve_attempt[OF a]] by (auto simp: sample_sel intro: woven.trans)
  have inv: "ledger_inv pending_tables" using pending_inv by (simp add: sample_sel)
  have "acc_pending (account_of row) = 0 \<and> acc_used (account_of row) = 3"
    using conjunct1[OF books_balance_interleaved[OF mem.orm_laws_axioms inv T]] row(1) x by (simp add: held_def days_in_def)
  then have "account_of row = \<lparr>acc_available = 9, acc_pending = 0, acc_used = 3, acc_total = 12\<rparr>"
    using row by (simp add: account_of_def)
  with T row(1) x(1,2) show ?thesis by auto
qed

end
