(* ===== verification/Racing.thy ===== *)
theory Racing
  imports Interleaving
begin

text \<open>
  What is left when the write of a reconciliation rests on a row that was read at any time and has
  changed since. Available days and totals can then be wrong
  (\<open>Batch_Sync\<close>). What the requests themselves claim is not touched by that: the pending and the used
  days of every row are still exactly those of its pending and approved requests, no two active
  requests of an employee at a location overlap, and no decision is lost or reversed. Nothing is asked of the
  HCM's totals here, and the amounts are exact as long as all requests together ask for at most
  \<open>2 ^ 42\<close> days.
\<close>

section \<open>Actions\<close>

inductive racing_step :: "'h orm \<Rightarrow> tables \<Rightarrow> tables \<Rightarrow> bool" for D where
  action: "atomic D T T' \<Longrightarrow> racing_step D T T'"
| stale_write: "reconcile_write D now rec localBalance s = (r, t) \<Longrightarrow> racing_step D (tables s) (tables t)"

definition racing :: "'h orm \<Rightarrow> tables \<Rightarrow> tables \<Rightarrow> bool" where
  "racing D = (racing_step D)\<^sup>*\<^sup>*"

interpretation race: table_preorder "racing D"
  by unfold_locales (auto simp: racing_def)

lemma moves_racing: "(\<And>s r t. m s = (r, t) \<Longrightarrow> racing_step D (tables s) (tables t)) \<Longrightarrow> moves (racing D) m"
  by (rule movesI) (auto simp: racing_def)

section \<open>The invariant\<close>

definition total_days :: "tables \<Rightarrow> rat" where
  "total_days T = sum_list (map (amount \<circ> daysRequested) (requests T))"

definition claims_match :: "timeoff_request list \<Rightarrow> employee_balance \<Rightarrow> bool" where
  "claims_match rs b \<longleftrightarrow> pendingBalance b = Fin (held PENDING (balance_key b) rs) \<and>
     usedBalance b = Fin (held APPROVED (balance_key b) rs)"

definition race_inv :: "tables \<Rightarrow> bool" where
  "race_inv T \<longleftrightarrow> tables_inv T \<and> (total_days T \<le> 2 ^ 42 \<longrightarrow> (\<forall>b\<in>set (balances T). claims_match (requests T) b))"

lemma ledger_race_inv: "ledger_inv T \<Longrightarrow> race_inv T"
  by (auto simp: race_inv_def ledger_inv_iff balance_inv_def claims_match_def account_of_def elim!: exactE)

text \<open>Sums of days stay on the grid, and none is larger than the sum of all.\<close>

lemma held_multiple:
  assumes "\<forall>r\<in>set rs. request_inv bs r"
  shows "\<exists>n. held st k rs = of_int n / 1024"
  using assms
proof (induction rs)
  case (Cons r rs)
  then obtain n where "held st k rs = of_int n / 1024" by auto
  moreover obtain m where "amount (daysRequested r) = of_int m / 1024"
    using Cons.prems by (auto simp: request_inv_def elim!: on_gridE gridE)
  ultimately have "held st k (r # rs) = of_int (if request_key r = k \<and> r_status r = st then m + n else n) / 1024"
    by (auto simp: held_def days_in_def add_divide_distrib)
  then show ?case by blast
qed (auto simp: held_def intro: exI[of _ 0])

lemma held_bounds:
  assumes "\<forall>r\<in>set (requests T). request_inv (balances T) r"
  shows "0 \<le> held st k (requests T)" and "held st k (requests T) \<le> total_days T"
proof -
  have pos: "0 \<le> amount (daysRequested r)" if "r \<in> set (requests T)" for r
    using assms that by (force simp: request_inv_def)
  show "0 \<le> held st k (requests T)"
    unfolding held_def by (rule sum_list_nonneg) (auto simp: days_in_def pos)
  show "held st k (requests T) \<le> total_days T"
    unfolding held_def total_days_def by (rule sum_list_mono) (auto simp: days_in_def pos)
qed

lemma held_grid:
  assumes "tables_inv T" and "total_days T \<le> 2 ^ 42"
  shows "grid (held st k (requests T))"
proof -
  have ri: "\<forall>r\<in>set (requests T). request_inv (balances T) r" using assms(1) by (simp add: tables_inv_def)
  from held_multiple[OF ri] obtain n where "held st k (requests T) = of_int n / 1024" by blast
  moreover have "\<bar>held st k (requests T)\<bar> \<le> 2 ^ 42" using held_bounds[OF ri, of st k] assms(2) by linarith
  ultimately show ?thesis by (rule gridI)
qed

definition keeps_claims :: "tables \<Rightarrow> tables \<Rightarrow> bool" where
  "keeps_claims T T' \<longleftrightarrow> (race_inv T \<longrightarrow> race_inv T' \<and> total_days T \<le> total_days T' \<and> history T T')"

interpretation claims: table_preorder keeps_claims
proof
  show "keeps_claims T T" for T by (simp add: keeps_claims_def hist.refl)
  show "keeps_claims T U \<Longrightarrow> keeps_claims U V \<Longrightarrow> keeps_claims T V" for T U V
    by (auto simp: keeps_claims_def intro: hist.trans)
qed

section \<open>Creating and settling\<close>

lemma created_claims:
  assumes "created lifetime now dto key days hash saved T T'"
    and "days = calculateDaysRequested (d_startDate dto) (d_endDate dto)"
  shows "keeps_claims T T'"
  unfolding keeps_claims_def
proof
  assume inv: "race_inv T"
  then have T: "tables_inv T" and wf: "wf_tables T" by (auto simp: race_inv_def tables_inv_def)
  show "race_inv T' \<and> total_days T \<le> total_days T' \<and> history T T'"
    using assms(1) wf assms(2)
  proof (rule created_facts)
    fix b b' d recs
    assume b: "b \<in> set (balances T)" "balance_key b = request_key saved"
      and c: "core_balance b' = core_balance (deducted (Fin d) b)" "b_id b' = b_id b"
      and st: "r_status saved = PENDING"
      and r: "daysRequested saved = Fin d" "grid d" "1 \<le> d" "r_id saved \<noteq> None"
        "r_id saved \<notin> r_id ` set (requests T)" "\<forall>x\<in>set (requests T). \<not> clash saved x"
      and ok: "balances_ok (upsert b_id b' (balances T))" "requests_ok (requests T @ [saved])" "ids_ok i_id recs" "idempotency_ok recs"
      and T': "T' = T\<lparr>balances := upsert b_id b' (balances T), requests := requests T @ [saved], idempotency := recs\<rparr>"
    have b': "balance_key b' = balance_key b" "pendingBalance b' = js_add (pendingBalance b) (Fin d)" "usedBalance b' = usedBalance b"
      using core_balanceD[OF c(1)] by (simp_all add: deducted_def balance_key_def)
    have inv': "tables_inv T'" unfolding T' by (rule tables_inv_create[OF T b b'(1) c(2) r ok])
    have days: "total_days T' = total_days T + d" by (simp add: T' total_days_def r(1))
    have "claims_match (requests T') x" if small: "total_days T' \<le> 2 ^ 42" and x: "x \<in> set (balances T')" for x
    proof -
      have m: "claims_match (requests T) y" if "y \<in> set (balances T)" for y
        using inv small days r(3) that by (auto simp: race_inv_def)
      have g: "grid (held PENDING (balance_key b) (requests T'))" by (rule held_grid[OF inv' small])
      have h: "held PENDING (balance_key b) (requests T') = held PENDING (balance_key b) (requests T) + d"
        using b(2) st r(1) by (simp add: T' days_in_def)
      have ids: "balances_ok (balances T)" "ids_ok b_id (balances T)" using wf by (auto simp: wf_tables_def)
      have "x \<in> set (upsert b_id b' (balances T))" using x T' by simp
      with ids b(1) c(2) show ?thesis
      proof (cases rule: upserted_row)
        case 1
        with m[OF b(1)] b' g h b(2) st show ?thesis
          by (simp add: claims_match_def T' days_in_def js_of_grid)
      next
        case 2
        with m[OF 2(1)] b(2) show ?thesis by (simp add: claims_match_def T' days_in_def)
      qed
    qed
    with inv' days r(3) created_history[OF assms(1)] show ?thesis by (simp add: race_inv_def)
  qed
qed

lemma settled_claims:
  assumes st: "settled requestId upd f r' T T'" and upd: "keeps_request upd" "\<And>r. r_status (upd r) = target" "target \<noteq> PENDING"
    and key: "\<And>r. r_idempotencyKey (upd r) = r_idempotencyKey r" and f: "f = (if target = APPROVED then finalized else released)"
  shows "keeps_claims T T'"
  unfolding keeps_claims_def
proof
  assume inv: "race_inv T"
  then have T: "tables_inv T" and wf: "wf_tables T" by (auto simp: race_inv_def tables_inv_def)
  have hist: "history T T'" by (rule settled_history[OF st upd(1) key _ wf]) (simp add: upd)
  show "race_inv T' \<and> total_days T \<le> total_days T' \<and> history T T'"
    using st upd(1,2)
  proof (rule settled_facts)
    fix r b b'
    assume r: "r \<in> set (requests T)" "r_status r = PENDING"
      and req: "r_id r' = r_id r" "request_key r' = request_key r" "daysRequested r' = daysRequested r" "startDate r' = startDate r"
        "endDate r' = endDate r" and tg: "r_status r' = target"
      and b: "b \<in> set (balances T)" "balance_key b = request_key r"
      and c: "core_balance b' = core_balance (f (daysRequested r) b)" "b_id b' = b_id b"
      and ok: "balances_ok (upsert b_id b' (balances T))" "requests_ok (upsert r_id r' (requests T))"
      and T': "T' = T\<lparr>balances := upsert b_id b' (balances T), requests := upsert r_id r' (requests T)\<rparr>"
    from T r(1) obtain d where d: "daysRequested r = Fin d"
      by (auto simp: tables_inv_def request_inv_def elim!: on_gridE)
    have b': "balance_key b' = balance_key b" "pendingBalance b' = js_sub (pendingBalance b) (Fin d)"
      "usedBalance b' = (if target = APPROVED then js_add (usedBalance b) (Fin d) else usedBalance b)"
      using core_balanceD[OF c(1)] by (simp_all add: f d finalized_def released_def balance_key_def)
    have inv': "tables_inv T'" unfolding T' by (rule tables_inv_settle[OF T r req b b'(1) c(2) ok])
    have ids: "balances_ok (balances T)" "ids_ok b_id (balances T)" "distinct (map r_id (requests T))"
      using wf by (auto simp: wf_tables_def ids_ok_def)
    have held: "held st k (requests T') = held st k (requests T) - days_in st k r + days_in st k r'" for st k
      using held_upsert[OF ids(3) r(1) req(1)] by (simp add: T')
    have days: "total_days T' = total_days T"
      using sum_list_upsert_old[OF ids(3) r(1) req(1), of "amount \<circ> daysRequested"] req(3) by (simp add: T' total_days_def)
    have "claims_match (requests T') x" if small: "total_days T' \<le> 2 ^ 42" and x: "x \<in> set (balances T')" for x
    proof -
      have m: "claims_match (requests T) y" if "y \<in> set (balances T)" for y
        using inv small days that by (auto simp: race_inv_def)
      have g: "grid (held st (balance_key b) (requests T'))" for st by (rule held_grid[OF inv' small])
      have "x \<in> set (upsert b_id b' (balances T))" using x T' by simp
      with ids(1,2) b(1) c(2) show ?thesis
      proof (cases rule: upserted_row)
        case 1
        with m[OF b(1)] b' g[of PENDING] g[of APPROVED] b(2) r(2) req tg upd(3) d show ?thesis
          by (auto simp: claims_match_def held days_in_def js_sub_def js_of_grid)
      next
        case 2
        with m[OF 2(1)] b(2) req(2) show ?thesis by (simp add: claims_match_def held days_in_def)
      qed
    qed
    with inv' days hist show ?thesis by (simp add: race_inv_def)
  qed
qed

section \<open>Rows and columns that claim nothing\<close>

lemma hcm_only_claims: "hcm_only T T' \<Longrightarrow> keeps_claims T T'"
proof -
  assume h: "hcm_only T T'"
  have "map (amount \<circ> daysRequested) (requests T') = map (amount \<circ> daysRequested) (requests T)"
    using h by (intro list_all2_map_eq[where P = same_request]) (simp_all add: hcm_only_def same_request_def)
  then have days: "total_days T' = total_days T" unfolding total_days_def by (rule arg_cong)
  have "balances T' = balances T" using h by (simp add: hcm_only_def)
  then show ?thesis
    using hcm_only_tables[OF _ h] hcm_only_history[OF h] hcm_only_held[OF h] days
    by (simp add: keeps_claims_def race_inv_def claims_match_def)
qed

definition same_claims :: "employee_balance \<Rightarrow> employee_balance \<Rightarrow> bool" where
  "same_claims b b' \<longleftrightarrow> b_id b' = b_id b \<and> balance_key b' = balance_key b \<and> pendingBalance b' = pendingBalance b \<and>
     usedBalance b' = usedBalance b"

lemma history_balances: "history T (T\<lparr>balances := bs\<rparr>)" "history T (T\<lparr>sync_logs := ls\<rparr>)"
  by (auto simp: history_def intro: follows_refl)

lemma rows_claims:
  assumes l: "list_all2 same_claims (balances T) bs" and "balances_ok bs"
  shows "keeps_claims T (T\<lparr>balances := bs\<rparr>)"
proof -
  have "tables_inv (T\<lparr>balances := bs\<rparr>)" if "tables_inv T"
    using that l assms(2) by (rule tables_inv_rows) (simp add: same_claims_def)
  moreover have "claims_match (requests T) b'" if "\<forall>b\<in>set (balances T). claims_match (requests T) b" "b' \<in> set bs" for b'
    using list_all2_mem[OF l that(2)] that(1) by (auto simp: same_claims_def claims_match_def)
  ultimately show ?thesis
    by (auto simp: keeps_claims_def race_inv_def total_days_def history_balances)
qed

lemma new_row_claims:
  assumes "ids_ok b_id (balances T) \<Longrightarrow> ids_ok b_id (balances T @ [b])" and "balances_ok (balances T @ [b])"
    and "pendingBalance b = Fin 0" and "usedBalance b = Fin 0"
  shows "keeps_claims T (T\<lparr>balances := balances T @ [b]\<rparr>)"
proof -
  have "tables_inv (T\<lparr>balances := balances T @ [b]\<rparr>)" if "tables_inv T"
    using that assms(1,2) by (intro tables_inv_new_row) (auto simp: tables_inv_def wf_tables_def)
  moreover have "claims_match (requests T) b" if "tables_inv T"
    using assms(3,4) new_row_held[OF that assms(2)] by (simp add: claims_match_def)
  ultimately show ?thesis
    by (auto simp: keeps_claims_def race_inv_def total_days_def history_balances)
qed

lemma logs_claims: "(ids_ok l_id (sync_logs T) \<Longrightarrow> ids_ok l_id ls) \<Longrightarrow> keeps_claims T (T\<lparr>sync_logs := ls\<rparr>)"
  by (auto simp: keeps_claims_def race_inv_def total_days_def history_balances tables_inv_def wf_tables_def)

section \<open>Every action keeps the claims\<close>

lemma patches_same_claims:
  "same_claims b (fst (reconcile_patch now rec b0) b)" "same_claims b (missing_patch now b0 b)"
  by (simp_all add: same_claims_def reconcile_patch_def missing_patch_def balance_key_def Let_def)

context orm_laws
begin

lemma update_balance_claims:
  assumes run: "update_balance D i f s = (r, t)" and f: "\<And>b. same_claims b (f b)"
  shows "keeps_claims (tables s) (tables t)"
proof (cases r)
  case (Inl e)
  with run have "tables t = tables s" by (cases i) (auto simp: update_balance_def dest: bal.update_err)
  then show ?thesis by (simp add: claims.refl)
next
  case (Inr u)
  with run obtain x where "repo_update (balanceRepository D) x f s = (Inr u, t)"
    by (cases i) (auto simp: update_balance_def)
  from bal.update_ok[OF this] obtain bs where bs: "tables t = (tables s)\<lparr>balances := bs\<rparr>" "balances_ok bs"
    and l: "list_all2 (\<lambda>a b. if b_id a = Some x then core_balance b = core_balance (f a) \<and> b_id b = b_id a else b = a)
       (balances (tables s)) bs" by auto
  have "same_claims a b" if "if b_id a = Some x then core_balance b = core_balance (f a) \<and> b_id b = b_id a else b = a" for a b
    using that f[of a] core_balanceD[of b "f a"] by (auto simp: same_claims_def split: if_splits)
  with l have "list_all2 same_claims (balances (tables s)) bs" by (rule list_all2_mono)
  with bs show ?thesis by (simp add: rows_claims)
qed

lemma save_row_claims:
  assumes run: "repo_save (balanceRepository D) b s = (r, t)" and b: "b_id b = None" "pendingBalance b = Fin 0" "usedBalance b = Fin 0"
  shows "keeps_claims (tables s) (tables t)"
proof (cases r)
  case (Inl e)
  with run bal.save_err[of b s e t] show ?thesis by (simp add: claims.refl)
next
  case (Inr b')
  note sv = bal.save_ok[OF run[unfolded Inr], unfolded b(1), simplified]
  have up: "upsert b_id b' (balances (tables s)) = balances (tables s) @ [b']"
    using sv by (intro upsert_new) simp
  from sv have "core_balance b' = core_balance b" by blast
  then have "pendingBalance b' = Fin 0" "usedBalance b' = Fin 0" using core_balanceD[of b' b] b by simp_all
  moreover have "ids_ok b_id (balances (tables s) @ [b'])" if "ids_ok b_id (balances (tables s))"
    using that sv by (auto simp: ids_ok_def)
  ultimately show ?thesis using sv up by (auto intro: new_row_claims)
qed

lemma reconcile_write_claims:
  assumes "reconcile_write D now rec localBalance s = (r, t)"
  shows "keeps_claims (tables s) (tables t)"
proof (cases localBalance)
  case (Some b)
  with assms obtain r' where "update_balance D (b_id b) (fst (reconcile_patch now rec b)) s = (r', t)"
    by (auto simp: reconcile_write_def bindM_app split: prod.splits sum.splits)
  then show ?thesis by (rule update_balance_claims) (rule patches_same_claims)
next
  case None
  with assms obtain y where "save_new D now rec s = (y, t)"
    by (auto simp: reconcile_write_def bindM_app split: prod.splits sum.splits)
  then show ?thesis
    by (auto simp: save_new_def claims.refl new_balance_def split: option.splits elim!: save_row_claims)
qed

lemma settle_claims:
  assumes run: "transaction D (settle_tx D requestId target upd f after) s = (r, t)"
    and upd: "keeps_request upd" "\<And>r. r_status (upd r) = target" "target \<noteq> PENDING" "\<And>r. r_idempotencyKey (upd r) = r_idempotencyKey r"
    and f: "f = (if target = APPROVED then finalized else released)"
    and after: "\<And>r s x t. after r s = (x, t) \<Longrightarrow> tables t = tables s"
    and frame: "frame_on (\<lambda>s. undo (conn s)) (settle_tx D requestId target upd f after)"
  shows "keeps_claims (tables s) (tables t)"
proof (cases r)
  case (Inr v)
  from run[unfolded Inr] obtain s1 s2 where t: "tables s1 = tables s" "tables t = tables s2"
    "settle_tx D requestId target upd f after s1 = (Inr v, s2)"
    by (rule transaction_Inr)
  have "\<exists>r'. settled requestId upd f r' (tables s) (tables t)" if "wf_tables (tables s)"
    using settle_tx_ok[OF t(3) _ upd(1)] that t(1,2) after by (auto simp: f)
  then show ?thesis
    using settled_claims[OF _ upd(1-3) upd(4) f] by (auto simp: keeps_claims_def race_inv_def tables_inv_def)
next
  case (Inl e)
  from transaction_Inl[OF run[unfolded Inl]] frame have "tables t = tables s" by (auto simp: frame_on_def)
  then show ?thesis by (simp add: claims.refl)
qed

end

lemma decisions_claims:
  assumes "orm_laws D undo"
  shows "approveRequest D now requestId approverId s = (r, t) \<Longrightarrow> keeps_claims (tables s) (tables t)"
    and "rejectRequest D now requestId approverId reason s = (r, t) \<Longrightarrow> keeps_claims (tables s) (tables t)"
    and "cancelRequest D requestId reason' s = (r, t) \<Longrightarrow> keeps_claims (tables s) (tables t)"
  unfolding approveRequest_def rejectRequest_def cancelRequest_def settle_txs
  by (erule orm_laws.settle_claims[OF assms];
      use orm_frames[OF assms] in \<open>auto simp: keeps_request_updates settle_txs dest: setImmediate_tables\<close>)+

context orm_laws
begin

lemma atomic_claims:
  assumes "atomic D T T'"
  shows "keeps_claims T T'"
  using assms
proof cases
  case (create_attempt lifetime now dto key hash s r t)
  then have "keeps_claims (tables s) (tables t)" if "wf_tables (tables s)"
    using create_transaction_run[OF create_attempt(3) that] by (cases r) (auto simp: claims.refl intro: created_claims)
  with create_attempt show ?thesis by (auto simp: keeps_claims_def race_inv_def tables_inv_def)
next
  case (hcm_columns f i s r t)
  then show ?thesis using movesD[OF update_request_moves] by (simp add: hcm_only_claims)
next
  case (missing_row i now b s r t)
  then show ?thesis by (auto intro: update_balance_claims patches_same_claims)
next
  case (new_row tot now e l lt s r t)
  then show ?thesis by (auto simp: new_balance_def intro: save_row_claims)
next
  case (opened_log entry s r t)
  then show ?thesis by (metis log_save_tables logs_claims)
next
  case (closed_log x f s r t)
  then show ?thesis by (metis log_update_tables logs_claims)
qed (use decisions_claims[OF orm_laws_axioms] reconcile_write_claims in auto)

lemma racing_claims:
  assumes "racing D T T'"
  shows "keeps_claims T T'"
proof -
  have "keeps_claims T T'" if "racing_step D T T'" for T T'
    using that by cases (auto intro: atomic_claims reconcile_write_claims)
  with assms show ?thesis
    unfolding racing_def by (induction rule: rtranclp_induct) (auto intro: claims.refl claims.trans)
qed

lemma record_races: "moves (racing D) (reconcileRecord D now rec)"
proof -
  have "moves (racing D) (reconcile_read D rec)"
    unfolding reconcile_read_def by (rule movesI) (simp add: bal.findOne_tables race.refl)
  moreover have "moves (racing D) (reconcile_write D now rec localBalance)" for localBalance
    by (rule moves_racing) (rule racing_step.stale_write)
  ultimately show ?thesis unfolding reconcileRecord_def by (rule race.bindM)
qed

end

sublocale background < race_batch: batch_pieces D H undo "racing D" "\<lambda>_. True"
  by unfold_locales (blast intro: record_races moves_racing racing_step.action atomic.intros)+

context background
begin

lemma runBatchSync_races: "moves (racing D) (runBatchSync D H now)"
  by (rule race_batch.runBatchSync_moves) simp

end

text \<open>A batch run is made of such actions whatever the HCM reports.\<close>

lemma batch_races:
  assumes "orm_laws D undo" and "hcm_client_laws H undo" and "runBatchSync D H now s = (r, t)"
  shows "racing D (tables s) (tables t)"
proof -
  have b: "background D H undo" using assms(1,2) by (simp add: background_def)
  from movesD[OF background.runBatchSync_races[OF b] assms(3)] show ?thesis .
qed

lemma interleaved_racing: "interleaved D T T' \<Longrightarrow> racing D T T'"
  unfolding interleaved_def racing_def by (erule rtranclp_mono[THEN predicate2D, rotated]) (auto intro: racing_step.action)

section \<open>Properties of every race\<close>

text \<open>
  C7: Even when reconciliations race with the handlers, what requests have claimed is booked. However
  the transactions and statements of any number of handlers, callbacks and jobs interleave, with
  reconciliations that write from rows read at any time and an HCM that reports anything, from a
  ledger in order (such as an empty one) on the pending days of every row are exactly the days of its pending requests and its used
  days exactly those of its approved ones; no two pending or approved requests of an employee at a
  location share a day; and every such request has a balance row. The days asked for by all requests
  together are at most \<open>2 ^ 42\<close>, where doubles are exact.
\<close>

theorem claims_booked_racing:
  assumes "orm_laws D undo" and "ledger_inv T0" and "racing D T0 T" and "total_days T \<le> 2 ^ 42"
  shows "(\<forall>b\<in>set (balances T). pendingBalance b = Fin (held PENDING (balance_key b) (requests T)) \<and>
      usedBalance b = Fin (held APPROVED (balance_key b) (requests T))) \<and>
    (\<forall>x\<in>set (requests T). \<forall>y\<in>set (requests T). r_id x \<noteq> r_id y \<longrightarrow>
      active x \<longrightarrow> active y \<longrightarrow> r_employeeId x = r_employeeId y \<longrightarrow> r_locationId x = r_locationId y \<longrightarrow>
      \<not> datesOverlap (startDate x) (endDate x) (startDate y) (endDate y)) \<and>
    (\<forall>x\<in>set (requests T). active x \<longrightarrow> request_key x \<in> balance_key ` set (balances T))"
proof -
  have "race_inv T"
    using orm_laws.racing_claims[OF assms(1,3)] ledger_race_inv[OF assms(2)] by (simp add: keeps_claims_def)
  then show ?thesis
    using assms(4) by (auto simp: race_inv_def tables_inv_def claims_match_def request_inv_def clash_def)
qed

text \<open>The race of \<open>Batch_Sync\<close>: the ledger is no longer in order, the claims are still booked.\<close>

theorem claims_booked_racing_witness:
  "\<exists>T. racing mem_db start_tables T \<and> \<not> ledger_inv T \<and>
     (\<exists>b\<in>set (balances T). pendingBalance b = Fin (held PENDING (balance_key b) (requests T)) \<and> availableBalance b = Fin 12)"
proof -
  obtain v s x b' t row where c: "createRequest mem_orm sample_env sample_dto (Some ''k1'') (node_of start_tables) = (Inr v, s)"
    and x: "daysRequested x = Fin 3"
    and w: "reconcile_write mem_orm 5 race_record (Some race_row) s = (Inr True, t)"
    and t: "balances (tables t) = [row]" "requests (tables t) = [x]"
    and row: "availableBalance row = Fin 12" "pendingBalance row = Fin 3" "totalBalance row = Fin 12"
    by (rule race_run)
  have "interleaved mem_db start_tables (tables s)"
    using movesD[OF mem.createRequest_moves c] by (simp add: sample_sel)
  moreover have "racing mem_db (tables s) (tables t)"
    using racing_step.stale_write[OF w] by (simp add: racing_def)
  ultimately have T: "racing mem_db start_tables (tables t)"
    by (blast intro: race.trans interleaved_racing)
  have inv: "ledger_inv start_tables" using start_inv by (simp add: sample_sel)
  have days: "total_days (tables t) \<le> 2 ^ 42" by (simp add: total_days_def t x)
  have "\<not> ledger_inv (tables t)"
    using row t by (auto simp: ledger_inv_def balance_inv_def exact_def sound_def account_of_def)
  with claims_booked_racing[OF mem.orm_laws_axioms inv T days] T t row show ?thesis by auto
qed

text \<open>
  C5: However concurrent handlers interleave, and whatever rows reconciliations write from, a request
  is never lost and a decision is never reversed: each request of a ledger in order still exists later
  with the same dates, days and balance; its status has changed at most along the transition table, so
  that an approved, rejected or cancelled request keeps that status for good; and every idempotency
  record is still there.
\<close>

theorem decisions_final_racing:
  assumes "orm_laws D undo" and "ledger_inv T" and "racing D T T'" and "r \<in> set (requests T)"
  shows "set (idempotency T) \<subseteq> set (idempotency T') \<and>
    (\<exists>r'\<in>set (requests T'). r_id r' = r_id r \<and> request_key r' = request_key r \<and>
      daysRequested r' = daysRequested r \<and> startDate r' = startDate r \<and> endDate r' = endDate r \<and>
      (r_status r' = r_status r \<or> r_status r' \<in> set (VALID_TRANSITIONS (r_status r))) \<and>
      (r_status r \<noteq> PENDING \<longrightarrow> r_status r' = r_status r))"
proof -
  have h: "history T T'"
    using orm_laws.racing_claims[OF assms(1,3)] ledger_race_inv[OF assms(2)] by (simp add: keeps_claims_def)
  with assms(4) obtain r' where r': "r' \<in> set (requests T')" "follows r r'" by (auto simp: history_def)
  show ?thesis
    using h final_follows[OF r'(2)] r'
    by (auto simp: history_def follows_def less_eq_request_status_def intro!: bexI[of _ r'])
qed

theorem decisions_final_racing_witness:
  "\<exists>T. racing mem_db pending_tables T \<and>
     (\<exists>r'\<in>set (requests T). r_id r' = Some ''r1'' \<and> daysRequested r' = Fin 3)"
proof -
  obtain v t where run: "approveRequest mem_orm 0 ''r1'' ''boss'' (node_of pending_tables) = (Inr v, t)"
    by (rule sample_approve)
  have T: "racing mem_db pending_tables (tables t)"
    using interleaved_racing[OF interleavedI[OF atomic.approve_attempt[OF run]]] by (simp add: sample_sel)
  have inv: "ledger_inv pending_tables" using pending_inv by (simp add: sample_sel)
  have r: "sample_request \<in> set (requests pending_tables)" by (simp add: pending_tables_def)
  from decisions_final_racing[OF mem.orm_laws_axioms inv T r] T show ?thesis
    by (auto simp: sample_request_def new_request_def)
qed

end
