(* ===== verification/Batch_Report.thy ===== *)
theory Batch_Report
  imports Batch_Sync
begin

text \<open>
  What a nightly run reports and what it marks. The run is compared with its trace: the outcome of
  each reconciliation in turn, the rows that were found missing, and what was thrown. The log row it
  leaves carries exactly the counts of that trace, and after a run in which nothing failed every
  balance row is marked by exactly what the snapshot says about it.
\<close>

section \<open>The trace of a run\<close>

text \<open>The local rows the snapshot omits.\<close>

definition omitted :: "hcm_record list \<Rightarrow> employee_balance list \<Rightarrow> employee_balance list" where
  "omitted recs bs = filter (\<lambda>b. \<forall>rec\<in>set recs. key_string (b_employeeId b) (b_locationId b) (b_leaveType b) \<noteq>
     record_key rec) bs"

fun record_runs :: "'h orm \<Rightarrow> int \<Rightarrow> hcm_record list \<Rightarrow> 'h node \<Rightarrow> (hcm_record \<times> (exc + bool)) list \<times> 'h node" where
  "record_runs D now [] s = ([], s)"
| "record_runs D now (rec # recs) s =
     (case reconcileRecord D now rec s of (x, u) \<Rightarrow>
        (case record_runs D now recs u of (os, t) \<Rightarrow> ((rec, x) # os, t)))"

fun flag_runs :: "'h orm \<Rightarrow> int \<Rightarrow> employee_balance list \<Rightarrow> 'h node \<Rightarrow> (employee_balance list \<times> exc option) \<times> 'h node" where
  "flag_runs D now [] s = (([], None), s)"
| "flag_runs D now (b # bs) s =
     (case update_balance D (b_id b) (missing_patch now b) s of
        (Inl e, t) \<Rightarrow> (([b], Some e), t)
      | (Inr _, t) \<Rightarrow> (case flag_runs D now bs t of ((fs, e), u) \<Rightarrow> ((b # fs, e), u)))"

text \<open>The records with their outcomes, the missing rows that were reached, and what ended the run early.\<close>

definition batch_trace ::
  "'h orm \<Rightarrow> 'h hcm_client \<Rightarrow> int \<Rightarrow> 'h node \<Rightarrow>
     ((hcm_record \<times> (exc + bool)) list \<times> employee_balance list \<times> exc option) \<times> 'h node" where
  "batch_trace D H now s = (case getBatchBalances H s of
      (Inl e, t) \<Rightarrow> (([], [], Some e), t)
    | (Inr j, t) \<Rightarrow> (case decode_batch j of
        Inl e \<Rightarrow> (([], [], Some e), t)
      | Inr recs \<Rightarrow> (case record_runs D now recs t of (os, t1) \<Rightarrow>
          (case repo_find (balanceRepository D) (where_all (\<lambda>_. True)) t1 of
             (Inl e, t2) \<Rightarrow> ((os, [], Some e), t2)
           | (Inr bs, t2) \<Rightarrow> (case flag_runs D now (omitted recs bs) t2 of ((fs, e), t3) \<Rightarrow> ((os, fs, e), t3))))))"

definition record_failure :: "hcm_record \<times> (exc + bool) \<Rightarrow> sync_error" where
  "record_failure p = record_error (h_employeeId (fst p)) (h_locationId (fst p)) (h_leaveType (fst p)) (exc_message (projl (snd p)))"

definition missing_failure :: "employee_balance \<Rightarrow> sync_error" where
  "missing_failure b = record_error (Some (b_employeeId b)) (Some (b_locationId b)) (Some (b_leaveType b))
     ''Balance missing from HCM batch payload''"

text \<open>The counters a trace adds to those there are.\<close>

definition tallied :: "batch_count \<Rightarrow> (hcm_record \<times> (exc + bool)) list \<Rightarrow> employee_balance list \<Rightarrow> batch_count" where
  "tallied acc os fs =
     \<lparr>n_processed = n_processed acc + length os + length fs,
      n_updated = n_updated acc + length (filter (\<lambda>p. snd p = Inr True) os),
      n_failed = n_failed acc + length (filter (\<lambda>p. isl (snd p)) os) + length fs,
      n_errors = n_errors acc @ map record_failure (filter (\<lambda>p. isl (snd p)) os) @ map missing_failure fs\<rparr>"

lemma sync_records_trace:
  "record_runs D now recs s = (os, t) \<Longrightarrow> sync_records D now recs acc s = (Inr (tallied acc os []), t)"
proof (induction recs arbitrary: acc s os)
  case (Cons rec recs)
  obtain x u where x: "reconcileRecord D now rec s = (x, u)" by (cases "reconcileRecord D now rec s")
  with Cons.prems obtain os' where os: "record_runs D now recs u = (os', t)" "os = (rec, x) # os'"
    by (auto split: prod.splits)
  note ih = Cons.IH[OF os(1)]
  show ?case
    using x ih by (cases x) (auto simp: bindM_app catchM_app os(2) tallied_def record_failure_def)
qed (simp add: tallied_def)

lemma flag_missing_trace:
  "flag_runs D now (omitted recs bs) s = ((fs, e), t) \<Longrightarrow>
     flag_missing D now (map record_key recs) bs acc s = (Inr (tallied acc [] fs, e), t)"
proof (induction bs arbitrary: acc s fs)
  case (Cons b bs)
  show ?case
  proof (cases "key_string (b_employeeId b) (b_locationId b) (b_leaveType b) \<in> set (map record_key recs)")
    case True
    then have "omitted recs (b # bs) = omitted recs bs" by (auto simp: omitted_def)
    with True Cons show ?thesis by simp
  next
    case False
    then have om: "omitted recs (b # bs) = b # omitted recs bs" by (auto simp: omitted_def)
    obtain x u where x: "update_balance D (b_id b) (missing_patch now b) s = (x, u)"
      by (cases "update_balance D (b_id b) (missing_patch now b) s")
    show ?thesis
    proof (cases x)
      case (Inl e')
      with Cons.prems False x om show ?thesis by (cases acc) (auto simp: Let_def tallied_def missing_failure_def)
    next
      case (Inr y)
      with Cons.prems x om obtain fs' where fs: "flag_runs D now (omitted recs bs) u = ((fs', e), t)" "fs = b # fs'"
        by (auto split: prod.splits)
      with Inr False x Cons.IH[OF fs(1)] show ?thesis by (cases acc) (simp add: Let_def tallied_def missing_failure_def)
    qed
  qed
qed (auto simp: omitted_def tallied_def)

lemma batch_body_trace:
  assumes "batch_trace D H now s = ((os, fs, ended), t)"
  shows "batch_body D H now s = (Inr (tallied no_count os fs, ended), t)"
proof -
  have none: "tallied no_count [] [] = no_count" by (simp add: tallied_def no_count_def)
  have two: "tallied (tallied no_count xs []) [] ys = tallied no_count xs ys" for xs ys by (simp add: tallied_def)
  show ?thesis
    using assms
    by (auto simp: batch_trace_def batch_body_def sync_all_def bindM_app none two
        split: prod.splits sum.splits dest!: sync_records_trace[where acc = no_count] flag_missing_trace[where acc = "tallied no_count os []"])
qed

section \<open>The log row\<close>

definition same_logs :: "tables \<Rightarrow> tables \<Rightarrow> bool" where
  "same_logs T T' \<longleftrightarrow> sync_logs T' = sync_logs T"

interpretation slogs: table_preorder same_logs
  by unfold_locales (auto simp: same_logs_def)

context orm_laws
begin

lemma update_balance_tables:
  assumes "update_balance D i f s = (r, t)"
  obtains bs where "tables t = (tables s)\<lparr>balances := bs\<rparr>"
proof (cases r)
  case (Inl e)
  with assms have "tables t = tables s" by (cases i) (auto simp: update_balance_def dest: bal.update_err)
  then show ?thesis using that[of "balances (tables s)"] by simp
next
  case (Inr u)
  with assms obtain x where "repo_update (balanceRepository D) x f s = (Inr u, t)" by (cases i) (auto simp: update_balance_def)
  from bal.update_ok[OF this] show ?thesis using that by auto
qed

lemma update_balance_logs: "moves same_logs (update_balance D i f)"
  by (rule movesI, erule update_balance_tables) (simp add: same_logs_def)

lemma save_new_logs: "moves same_logs (save_new D now rec)"
proof -
  have "moves same_logs (repo_save (balanceRepository D) b)" for b
  proof (rule movesI)
    fix s r t assume "repo_save (balanceRepository D) b s = (r, t)"
    then show "same_logs (tables s) (tables t)" by (cases r) (auto simp: same_logs_def dest: bal.save_ok bal.save_err)
  qed
  then show ?thesis by (auto simp: save_new_def intro: slogs.returns split: option.split)
qed

lemma reconcileRecord_logs: "moves same_logs (reconcileRecord D now rec)"
proof -
  have "moves same_logs (reconcile_read D rec)" by (rule movesI) (simp add: reconcile_read_tables same_logs_def)
  then show ?thesis
    unfolding reconcileRecord_def reconcile_write_def
    by (auto intro!: slogs.bindM slogs.returns update_balance_logs save_new_logs split: option.split)
qed

end

sublocale background < logs: body_pieces D H undo same_logs "\<lambda>_. True"
  by unfold_locales (rule reconcileRecord_logs update_balance_logs)+

context background
begin

lemma batch_body_logs: "batch_body D H now s = (r, t) \<Longrightarrow> sync_logs (tables t) = sync_logs (tables s)"
  using movesD[OF logs.batch_body_moves] by (simp add: same_logs_def)

end

definition closed_row :: "int \<Rightarrow> sync_log_status \<Rightarrow> batch_count \<Rightarrow> sync_error list option \<Rightarrow> sync_log \<Rightarrow> sync_log" where
  "closed_row now st acc errs l = l\<lparr>l_status := st, recordsProcessed := n_processed acc, recordsUpdated := n_updated acc,
     recordsFailed := n_failed acc, errorDetails := errs, completedAt := Some now\<rparr>"

context orm_laws
begin

lemma close_log_row:
  assumes "l \<in> set (sync_logs (tables s))" and "close_log D now (l_id l) st acc errs s = (Inr u, t)"
  shows "closed_row now st acc errs l \<in> set (sync_logs (tables t))"
proof -
  from assms(2) obtain x where x: "l_id l = Some x" by (cases "l_id l") (auto simp: close_log_def)
  then have "repo_update (syncLogRepository D) x (closed_row now st acc errs) s = (Inr u, t)"
    using assms(2) by (simp add: close_log_def closed_row_def[abs_def])
  from log.update_ok[OF this] obtain ls where
    ls: "tables t = (tables s)\<lparr>sync_logs := ls\<rparr>" "list_all2 (\<lambda>a b. if l_id a = Some x
       then core_log b = core_log (closed_row now st acc errs a) \<and> l_id b = l_id a else b = a) (sync_logs (tables s)) ls"
    by auto
  from list_all2_mem'[OF ls(2) assms(1)] x obtain l' where l': "l' \<in> set ls" "l_id l' = l_id l"
    "core_log l' = core_log (closed_row now st acc errs l)" by auto
  from l'(2,3) have "l' = closed_row now st acc errs l" by (cases l; cases l') (simp add: core_log_def closed_row_def)
  with l'(1) ls(1) show ?thesis by auto
qed

lemma close_log_err: "close_log D now i st acc errs s = (Inl e, t) \<Longrightarrow> tables t = tables s"
  by (cases i) (auto simp: close_log_def dest: log.update_err)

lemma opened_log_row:
  assumes "repo_save (syncLogRepository D) (new_log now) s = (Inr l, t)"
  shows "l \<in> set (sync_logs (tables t)) \<and> core_log l = core_log (new_log now)"
  using log.save_ok[OF assms] by (auto simp: upsert_def)

end

text \<open>
  C22: The log row a nightly run leaves tells what happened. For a run that wrote its log row and
  returned, the row has been closed with the counts of the trace: as processed, the records of the
  snapshot that were reconciled in turn and the local rows it omits; as updated, the records whose
  reconciliation returned true; as failed, those whose reconciliation threw and the omitted rows.
  When something ended the run early the status is FAILED with that error alone. Otherwise the status
  is COMPLETED when nothing failed, PARTIAL when not everything did and FAILED when all did, with one
  error entry per failure in order; only when this very update throws is the row closed as FAILED
  with the error of the update instead, with the same counts.
\<close>

theorem batch_counters:
  assumes "orm_laws D undo" and "hcm_client_laws H undo" and "\<not> batchRunning s"
    and "repo_save (syncLogRepository D) (new_log now) (s\<lparr>batchRunning := True\<rparr>) = (Inr l, u)"
    and "batch_trace D H now u = ((os, fs, ended), v)" and "runBatchSync D H now s = (Inr (), t)"
  shows "\<exists>l'\<in>set (sync_logs (tables t)). l_id l' = l_id l \<and> syncType l' = BATCH \<and> startedAt l' = now \<and> completedAt l' = Some now \<and>
    recordsProcessed l' = length os + length fs \<and>
    recordsUpdated l' = length (filter (\<lambda>p. snd p = Inr True) os) \<and>
    recordsFailed l' = length (filter (\<lambda>p. isl (snd p)) os) + length fs \<and>
    (case ended of
       Some e \<Rightarrow> l_status l' = LogFAILED \<and> errorDetails l' = Some [record_error None None None (exc_message e)]
     | None \<Rightarrow>
         l_status l' = (if recordsFailed l' = 0 then LogCOMPLETED
           else if recordsFailed l' < recordsProcessed l' then LogPARTIAL else LogFAILED) \<and>
         errorDetails l' = (if recordsFailed l' = 0 then None
           else Some (map record_failure (filter (\<lambda>p. isl (snd p)) os) @ map missing_failure fs)) \<or>
         (\<exists>f e w. repo_update (syncLogRepository D) (the (l_id l)) f v = (Inl e, w) \<and> l_status l' = LogFAILED \<and>
           errorDetails l' = Some [record_error None None None (exc_message e)]))"
proof -
  have b: "background D H undo" using assms(1,2) by (simp add: background_def)
  let ?acc = "tallied no_count os fs"
  have body: "batch_body D H now u = (Inr (?acc, ended), v)" by (rule batch_body_trace[OF assms(5)])
  have l: "l \<in> set (sync_logs (tables v))" "core_log l = core_log (new_log now)"
    using orm_laws.opened_log_row[OF assms(1,4)] background.batch_body_logs[OF b body] by simp_all
  have new: "syncType l = BATCH" "startedAt l = now"
    using arg_cong[OF l(2), of syncType] arg_cong[OF l(2), of startedAt] by (simp_all add: core_log_def new_log_def)
  have acc: "n_processed ?acc = length os + length fs" "n_updated ?acc = length (filter (\<lambda>p. snd p = Inr True) os)"
    "n_failed ?acc = length (filter (\<lambda>p. isl (snd p)) os) + length fs"
    "n_errors ?acc = map record_failure (filter (\<lambda>p. isl (snd p)) os) @ map missing_failure fs"
    by (simp_all add: tallied_def no_count_def)
  obtain t0 where run: "batch_after_log D H now l u = (Inr (), t0)" and t: "tables t = tables t0"
    using assms(3,4,6)
    by (auto simp: runBatchSync_def set_running_def bindM_app finallyM_def split: prod.splits sum.splits)
  have fail: "closed_row now LogFAILED ?acc (Some [record_error None None None (exc_message e)]) l \<in> set (sync_logs (tables t))"
    if "fail_log D now (l_id l) ?acc e w = (Inr (), t0)" "tables w = tables v" for e w
    using orm_laws.close_log_row[OF assms(1), of l w now] that l(1) by (auto simp: fail_log_def record_error_def t)
  show ?thesis
  proof (cases ended)
    case (Some e)
    with run body have "fail_log D now (l_id l) ?acc e v = (Inr (), t0)" by (simp add: batch_after_log_def bindM_app)
    from fail[OF this refl] show ?thesis by (rule bexI[rotated]) (simp add: new acc Some closed_row_def)
  next
    case None
    let ?errs = "if n_errors ?acc = [] then None else Some (n_errors ?acc)"
    obtain x w where x: "close_log D now (l_id l) (final_status ?acc) ?acc ?errs v = (x, w)" by fastforce
    show ?thesis
    proof (cases x)
      case (Inl e)
      with x obtain f where f: "repo_update (syncLogRepository D) (the (l_id l)) f v = (Inl e, w)"
        by (cases "l_id l") (use run body None in \<open>auto simp: close_log_def batch_after_log_def fail_log_def bindM_app catchM_app\<close>)
      have "fail_log D now (l_id l) ?acc e w = (Inr (), t0)"
        using run body None x Inl by (simp add: batch_after_log_def bindM_app catchM_app)
      from fail[OF this orm_laws.close_log_err[OF assms(1) x[unfolded Inl]]] show ?thesis
        by (rule bexI[rotated]) (use f in \<open>auto simp: new acc None closed_row_def\<close>)
    next
      case (Inr y)
      have "t0 = w" using run body None x Inr by (simp add: batch_after_log_def bindM_app catchM_app)
      have none: "n_errors ?acc = [] \<longleftrightarrow> n_failed ?acc = 0" by (auto simp: acc)
      from orm_laws.close_log_row[OF assms(1) l(1) x[unfolded Inr]]
      have "closed_row now (final_status ?acc) ?acc ?errs l \<in> set (sync_logs (tables t))" by (simp add: t \<open>t0 = w\<close>)
      then show ?thesis by (rule bexI[rotated]) (auto simp: new acc None final_status_def closed_row_def)
    qed
  qed
qed

section \<open>The rows\<close>

definition names :: "hcm_record \<Rightarrow> employee_balance \<Rightarrow> bool" where
  "names rec b \<longleftrightarrow> (h_employeeId rec, h_locationId rec, h_leaveType rec) =
     (Some (b_employeeId b), Some (b_locationId b), Some (b_leaveType b))"

definition complete_record :: "hcm_record \<Rightarrow> bool" where
  "complete_record rec \<longleftrightarrow> h_employeeId rec \<noteq> None \<and> h_locationId rec \<noteq> None \<and> h_leaveType rec \<noteq> None \<and>
     (\<exists>h. h_totalBalance rec = Fin h \<and> grid h \<and> 0 \<le> h)"

definition record_names :: "hcm_record \<Rightarrow> string option \<times> string option \<times> string option" where
  "record_names rec = (h_employeeId rec, h_locationId rec, h_leaveType rec)"

lemma complete_sane: "complete_record rec \<Longrightarrow> sane (h_totalBalance rec)"
  by (auto simp: complete_record_def sane_def)

lemma complete_where: "complete_record rec \<Longrightarrow> record_where rec b \<longleftrightarrow> names rec b"
  by (auto simp: complete_record_def record_where_def id_matches_def names_def)

lemma names_key: "balance_key b' = balance_key b \<Longrightarrow> names rec b' = names rec b"
  by (simp add: names_def balance_key_def)


context orm_laws
begin

lemma update_balance_rows:
  assumes "update_balance D i f s = (Inr u, t)" and "b \<in> set (balances (tables s))"
  shows "\<exists>b'\<in>set (balances (tables t)). if b_id b = i then core_balance b' = core_balance (f b) \<and> b_id b' = b_id b else b' = b"
proof -
  from assms(1) obtain x where x: "i = Some x" "repo_update (balanceRepository D) x f s = (Inr u, t)"
    by (cases i) (auto simp: update_balance_def)
  from bal.update_ok[OF x(2)] obtain bs where "tables t = (tables s)\<lparr>balances := bs\<rparr>"
    and l: "list_all2 (\<lambda>a b. if b_id a = Some x then core_balance b = core_balance (f a) \<and> b_id b = b_id a else b = a)
       (balances (tables s)) bs" by auto
  with list_all2_mem'[OF l assms(2)] x(1) show ?thesis by auto
qed

text \<open>A record touches the row it names and no other.\<close>

lemma reconcileRecord_rows:
  assumes inv: "ledger_inv (tables s)" and rec: "complete_record rec" and run: "reconcileRecord D now rec s = (Inr r, t)"
    and b: "b \<in> set (balances (tables s))"
  shows "\<exists>b'\<in>set (balances (tables t)). b_id b' = b_id b \<and>
    (if names rec b then core_balance b' = core_balance (fst (reconcile_patch now rec b) b) else b' = b)"
proof -
  from run obtain lb u where f: "reconcile_read D rec s = (Inr lb, u)" and w: "reconcile_write D now rec lb u = (Inr r, t)"
    by (auto simp: reconcileRecord_def elim!: bindM_Inr_E)
  have T: "tables u = tables s" using reconcile_read_tables[OF f] .
  note fo = bal.findOne_ok[OF f[unfolded reconcile_read_def]]
  have keys: "distinct (map balance_key (balances (tables s)))" and ids: "ids_ok b_id (balances (tables s))"
    using inv by (auto simp: ledger_inv_def wf_tables_def balances_ok_def)
  show ?thesis
  proof (cases lb)
    case (Some c)
    with fo rec have c: "c \<in> set (balances (tables s))" "names rec c" by (auto simp: complete_where)
    from w Some have up: "update_balance D (b_id c) (fst (reconcile_patch now rec c)) u = (Inr (), t)"
      by (auto simp: reconcile_write_def elim!: bindM_Inr_E)
    have id: "b_id b = b_id c \<longleftrightarrow> b = c" using ids_unique[OF ids b c(1)] by auto
    have "balance_key b = balance_key c" if "names rec b" using that c(2) by (simp add: names_def balance_key_def)
    then have nm: "names rec b \<longleftrightarrow> b = c" using c inj_onD[of balance_key _ b c] keys b by (auto simp: distinct_map)
    have "b \<in> set (balances (tables u))" using b T by simp
    from update_balance_rows[OF up this] show ?thesis using nm c(2) by (cases "b = c") (auto simp: id)
  next
    case None
    with fo rec b have n: "\<not> names rec b" by (auto simp: complete_where)
    from w None obtain y where "save_new D now rec u = (Inr y, t)" by (auto simp: reconcile_write_def elim!: bindM_Inr_E)
    with rec obtain e l lt where sv: "repo_save (balanceRepository D)
        ((new_balance now e l lt (h_totalBalance rec))\<lparr>hcmVersion := h_version rec\<rparr>) u = (Inr y, t)"
      by (auto simp: save_new_def complete_record_def)
    have "b_id ((new_balance now e l lt (h_totalBalance rec))\<lparr>hcmVersion := h_version rec\<rparr>) = None" by (simp add: new_balance_def)
    then have "balances (tables t) = balances (tables u) @ [y]"
      using bal.save_ok[OF sv] upsert_new[of b_id y "balances (tables u)"] by auto
    with b n T show ?thesis by auto
  qed
qed

lemma patch_keeps_key:
  assumes "core_balance b' = core_balance (fst (reconcile_patch now rec b) b)"
  shows "balance_key b' = balance_key b"
  unfolding core_balanceD(3)[OF assms] by (simp add: reconcile_patch_def Let_def balance_key_def)

text \<open>Every record in turn, each naming a row of its own.\<close>

lemma record_runs_rows:
  assumes "record_runs D now recs s = (os, t)" and "ledger_inv (tables s)" and "\<forall>rec\<in>set recs. complete_record rec"
    and "distinct (map record_names recs)" and "\<forall>p\<in>set os. \<not> isl (snd p)" and "b \<in> set (balances (tables s))"
  shows "ledger_inv (tables t) \<and> (\<exists>b'\<in>set (balances (tables t)). b_id b' = b_id b \<and>
    (\<forall>rec\<in>set recs. names rec b \<longrightarrow> core_balance b' = core_balance (fst (reconcile_patch now rec b) b)) \<and>
    ((\<forall>rec\<in>set recs. \<not> names rec b) \<longrightarrow> b' = b))"
  using assms
proof (induction recs arbitrary: s os b)
  case (Cons rec recs)
  obtain x u where x: "reconcileRecord D now rec s = (x, u)" by (cases "reconcileRecord D now rec s")
  with Cons.prems obtain os' where os: "record_runs D now recs u = (os', t)" "os = (rec, x) # os'"
    by (auto split: prod.splits)
  with Cons.prems(5) obtain r where r: "x = Inr r" by (cases x) auto
  have rec: "complete_record rec" using Cons.prems(3) by simp
  have inv: "ledger_inv (tables u)"
    using movesD[OF reconcileRecord_moves[OF complete_sane[OF rec]] x] Cons.prems(2) by (simp add: reconciled_def)
  from reconcileRecord_rows[OF Cons.prems(2) rec x[unfolded r] Cons.prems(6)] obtain b1 where
    b1: "b1 \<in> set (balances (tables u))" "b_id b1 = b_id b"
    "if names rec b then core_balance b1 = core_balance (fst (reconcile_patch now rec b) b) else b1 = b" by blast
  have rest: "\<forall>rec\<in>set recs. complete_record rec" "distinct (map record_names recs)" "\<forall>p\<in>set os'. \<not> isl (snd p)"
    using Cons.prems(3-5) os(2) by auto
  note ih = Cons.IH[OF os(1) inv rest b1(1)]
  have inv': "ledger_inv (tables t)" using ih by (rule conjunct1)
  from conjunct2[OF ih] obtain b' where b': "b' \<in> set (balances (tables t))" "b_id b' = b_id b"
    "\<forall>rec\<in>set recs. names rec b1 \<longrightarrow> core_balance b' = core_balance (fst (reconcile_patch now rec b1) b1)"
    "(\<forall>rec\<in>set recs. \<not> names rec b1) \<longrightarrow> b' = b1" unfolding b1(2) by blast
  show ?case
  proof (cases "names rec b")
    case True
    with b1(3) have "balance_key b1 = balance_key b" using patch_keeps_key by simp
    then have n: "names c b1 = names c b" for c by (rule names_key)
    have "record_names c = record_names rec" if "names c b" for c using that True by (simp add: names_def record_names_def)
    then have "\<not> names c b" if "c \<in> set recs" for c using Cons.prems(4) that by (auto simp: image_iff)
    with b' b1(3) True n inv' show ?thesis by auto
  next
    case False
    with b' b1(3) inv' show ?thesis by auto
  qed
qed auto

lemma flag_runs_rows:
  assumes "flag_runs D now bs s = ((fs, None), t)" and "b \<in> set (balances (tables s))"
  shows "\<exists>b'\<in>set (balances (tables t)). b_id b' = b_id b \<and> balance_key b' = balance_key b \<and> account_of b' = account_of b \<and>
    (hasDiscrepancy b \<longrightarrow> hasDiscrepancy b') \<and> (b_id b \<in> b_id ` set bs \<longrightarrow> hasDiscrepancy b') \<and> (b_id b \<notin> b_id ` set bs \<longrightarrow> b' = b)"
  using assms
proof (induction bs arbitrary: s fs b)
  case (Cons c bs)
  from Cons.prems(1) obtain u fs' where u: "update_balance D (b_id c) (missing_patch now c) s = (Inr (), u)"
    and fs: "flag_runs D now bs u = ((fs', None), t)" by (auto split: prod.splits sum.splits)
  from update_balance_rows[OF u Cons.prems(2)] obtain b1 where b1: "b1 \<in> set (balances (tables u))"
    "if b_id b = b_id c then core_balance b1 = core_balance (missing_patch now c b) \<and> b_id b1 = b_id b else b1 = b" by blast
  from b1(2) have m: "b_id b1 = b_id b" "balance_key b1 = balance_key b" "account_of b1 = account_of b"
    "hasDiscrepancy b \<longrightarrow> hasDiscrepancy b1" "b_id b = b_id c \<longrightarrow> hasDiscrepancy b1" "b_id b \<noteq> b_id c \<longrightarrow> b1 = b"
    using core_balanceD[of b1 "missing_patch now c b"]
    by (auto simp: missing_patch_def balance_key_def account_of_def split: if_splits)
  from Cons.IH[OF fs b1(1)] m show ?case by (auto simp: m)
qed auto

end

lemma names_key_string:
  assumes "names rec b"
  shows "key_string (b_employeeId b) (b_locationId b) (b_leaveType b) = record_key rec"
  using assms by (simp add: names_def record_key_def)

context background
begin

lemma batch_trace_rows:
  assumes "batch_trace D H now s = ((os, fs, None), t)" and inv: "ledger_inv (tables s)"
    and recs: "\<forall>p\<in>set os. complete_record (fst p) \<and> \<not> isl (snd p)" "distinct (map (record_names \<circ> fst) os)"
    and b: "b \<in> set (balances (tables s))"
  shows "\<exists>b'\<in>set (balances (tables t)). b_id b' = b_id b \<and>
    (\<forall>rec\<in>fst ` set os. names rec b \<longrightarrow> core_balance b' = core_balance (fst (reconcile_patch now rec b) b)) \<and>
    ((\<forall>rec\<in>fst ` set os. key_string (b_employeeId b) (b_locationId b) (b_leaveType b) \<noteq> record_key rec) \<longrightarrow>
       hasDiscrepancy b' \<and> account_of b' = account_of b \<and> balance_key b' = balance_key b)"
proof -
  have fst_runs: "record_runs D now rs x = (ps, y) \<Longrightarrow> map fst ps = rs" for rs x ps y
    by (induction rs arbitrary: x ps) (auto split: prod.splits)
  obtain j u rs u1 bs u2 where j: "getBatchBalances H s = (Inr j, u)" and r: "record_runs D now rs u = (os, u1)"
    and f: "repo_find (balanceRepository D) (where_all (\<lambda>_. True)) u1 = (Inr bs, u2)"
    and g: "flag_runs D now (omitted rs bs) u2 = ((fs, None), t)"
    using assms(1) by (auto simp: batch_trace_def split: prod.splits sum.splits)
  have rs: "rs = map fst os" using fst_runs[OF r] by simp
  have T: "tables u = tables s" using statelessD[OF getBatchBalances_stateless j] by simp
  have T2: "tables u2 = tables u1" using find_tables[OF f] .
  have "ledger_inv (tables u)" "\<forall>rec\<in>set rs. complete_record rec" "distinct (map record_names rs)"
    "\<forall>p\<in>set os. \<not> isl (snd p)" "b \<in> set (balances (tables u))"
    using inv recs b by (auto simp: T rs)
  from record_runs_rows[OF r this] obtain b1 where inv1: "ledger_inv (tables u1)" and
    b1: "b1 \<in> set (balances (tables u1))" "b_id b1 = b_id b"
    "\<forall>rec\<in>set rs. names rec b \<longrightarrow> core_balance b1 = core_balance (fst (reconcile_patch now rec b) b)"
    "(\<forall>rec\<in>set rs. \<not> names rec b) \<longrightarrow> b1 = b"
    by blast
  have "mset bs = mset (balances (tables u1))" using bal.find_ok[OF f] by (auto simp: page_def where_all_def)
  then have bs: "set bs = set (balances (tables u1))" by (metis set_mset_mset)
  have ids: "ids_ok b_id (balances (tables u1))" using inv1 by (simp add: ledger_inv_def wf_tables_def)
  have om: "b_id b1 \<in> b_id ` set (omitted rs bs) \<longleftrightarrow> b1 \<in> set (omitted rs bs)"
    using ids_unique[OF ids b1(1)] by (auto simp: omitted_def bs)
  from flag_runs_rows[OF g, of b1] b1(1) T2 obtain b' where b': "b' \<in> set (balances (tables t))" "b_id b' = b_id b1"
    "balance_key b' = balance_key b1" "account_of b' = account_of b1" "b1 \<in> set (omitted rs bs) \<longrightarrow> hasDiscrepancy b'"
    "b1 \<notin> set (omitted rs bs) \<longrightarrow> b' = b1" by (auto simp: om)
  have "core_balance b' = core_balance (fst (reconcile_patch now rec b) b)" if "rec \<in> set rs" "names rec b" for rec
  proof -
    have c: "core_balance b1 = core_balance (fst (reconcile_patch now rec b) b)" using b1(3) that by blast
    then have "balance_key b1 = balance_key b" by (rule patch_keeps_key)
    then have "b1 \<notin> set (omitted rs bs)" using that names_key_string[of rec b1] names_key[of b1 b rec] by (auto simp: omitted_def)
    then show ?thesis using b'(6) c by simp
  qed
  moreover have "hasDiscrepancy b' \<and> account_of b' = account_of b \<and> balance_key b' = balance_key b"
    if k: "\<forall>rec\<in>set rs. key_string (b_employeeId b) (b_locationId b) (b_leaveType b) \<noteq> record_key rec"
  proof -
    have "\<not> names rec b" if "rec \<in> set rs" for rec using k that names_key_string by blast
    with b1(4) have "b1 = b" by blast
    with k b1(1) bs have "b1 \<in> set (omitted rs bs)" by (simp add: omitted_def)
    with b' \<open>b1 = b\<close> show ?thesis by simp
  qed
  ultimately show ?thesis using b'(1,2) b1(2) by (auto simp: rs)
qed

end


section \<open>A run that finds a discrepancy\<close>

text \<open>The HCM knows eight days for an employee who has ten here, and a second employee is not in its snapshot.\<close>

definition two_tables :: tables where
  "two_tables = start_tables\<lparr>balances := balances start_tables @
     [(new_balance 0 ''E2'' ''L1'' ''VACATION'' (Fin 5))\<lparr>b_id := Some ''b2''\<rparr>]\<rparr>"

definition lower_snapshot :: json where
  "lower_snapshot = JArr [JObj [(''employeeId'', JStr ''E1''), (''locationId'', JStr ''L1''),
     (''leaveType'', JStr ''VACATION''), (''totalBalance'', JNum (Fin 8))]]"

definition lower_record :: hcm_record where
  "lower_record = \<lparr>h_employeeId = Some ''E1'', h_locationId = Some ''L1'', h_leaveType = Some ''VACATION'', h_totalBalance = Fin 8,
     h_version = None\<rparr>"

lemma lower_decoded: "decode_batch lower_snapshot = Inr [lower_record]"
  by (simp add: lower_snapshot_def lower_record_def json_field_def)


lemma lower_patch:
  "reconcile_patch 5 lower_record ((new_balance 0 ''E1'' ''L1'' ''VACATION'' (Fin 10))\<lparr>b_id := Some ''b1''\<rparr>) =
     (\<lambda>x. x\<lparr>hcmTotalBalance := Fin 8, hcmLastSync := Some 5, hcmVersion := None, hasDiscrepancy := True,
       discrepancyAmount := Some (Fin 2)\<rparr>, True)"
  using fl_hundredth
  by (simp add: reconcile_patch_def Let_def lower_record_def local_total_def new_balance_def DRIFT_TOLERANCE_def js_simps js_sub_def)

lemma lower_run:
  obtains l u b v t where
    "repo_save (syncLogRepository mem_orm) (new_log 5) ((node_of two_tables)\<lparr>batchRunning := True\<rparr>) = (Inr l, u)"
    and "batch_trace mem_orm (snapshot_hcm lower_snapshot) 5 u = (([(lower_record, Inr True)], [b], None), v)"
    and "runBatchSync mem_orm (snapshot_hcm lower_snapshot) 5 (node_of two_tables) = (Inr (), t)"
proof -
  have 1: "\<exists>l u b v. repo_save (syncLogRepository mem_orm) (new_log 5) ((node_of two_tables)\<lparr>batchRunning := True\<rparr>) = (Inr l, u) \<and>
     batch_trace mem_orm (snapshot_hcm lower_snapshot) 5 u = (([(lower_record, Inr True)], [b], None), v)"
    using lower_patch
    by (simp add: batch_trace_def snapshot_hcm_def lower_decoded run_simps reconcileRecord_def reconcile_read_def record_where_def
      id_matches_def reconcile_write_def update_balance_def new_balance_def key_string_def record_key_def missing_patch_def omitted_def
      two_tables_def start_tables_def node_of_def new_log_def lower_record_def balance_key_def)
  have "\<exists>t. runBatchSync mem_orm (snapshot_hcm lower_snapshot) 5 (node_of two_tables) = (Inr (), t)"
    using lower_patch
    by (simp add: runBatchSync_def batch_after_log_def batch_body_def sync_all_def snapshot_hcm_def lower_decoded set_running_def
      new_log_def node_of_def start_tables_def two_tables_def run_simps finallyM_def reconcileRecord_def reconcile_read_def record_where_def
      id_matches_def reconcile_write_def update_balance_def new_balance_def key_string_def record_key_def missing_patch_def
      close_log_def no_count_def lower_record_def balance_key_def)
  with 1 that show ?thesis by blast
qed

text \<open>One record updated, one row missing: two processed, one failed, PARTIAL.\<close>

theorem batch_counters_witness:
  "\<exists>t. runBatchSync mem_orm (snapshot_hcm lower_snapshot) 5 (node_of two_tables) = (Inr (), t) \<and>
     (\<exists>l'\<in>set (sync_logs (tables t)). recordsProcessed l' = 2 \<and> recordsUpdated l' = 1 \<and> recordsFailed l' = 1 \<and>
       l_status l' \<noteq> LogCOMPLETED)"
proof -
  obtain l u b v t where r:
    "repo_save (syncLogRepository mem_orm) (new_log 5) ((node_of two_tables)\<lparr>batchRunning := True\<rparr>) = (Inr l, u)"
    "batch_trace mem_orm (snapshot_hcm lower_snapshot) 5 u = (([(lower_record, Inr True)], [b], None), v)"
    "runBatchSync mem_orm (snapshot_hcm lower_snapshot) 5 (node_of two_tables) = (Inr (), t)"
    by (rule lower_run)
  have "\<not> batchRunning (node_of two_tables)" by (simp add: node_of_def)
  from batch_counters[OF mem.orm_laws_axioms snapshot_hcm_laws this r] r(3) show ?thesis by (auto intro!: bexI)
qed


end
