(* ===== verification/Hcm_Retries.thy ===== *)
theory Hcm_Retries
  imports Batch_Sync Concrete_Runs
begin

text \<open>
  The job that retries HCM notifications (\<open>retryPendingHcmSyncs\<close> of
  \<open>src/src/modules/hcm/hcm-sync.service.js\<close>): what one retry does to the rows of the request table, and
  that the job comes to rest. The attempts still owed to the pending requests are the measure.
\<close>

section \<open>One retry\<close>

text \<open>
  The row of the request moves on by one attempt, or is marked as failed when its attempts are used
  up; other rows stay. A computation \<open>leaves W\<close> when it either throws with the tables as they were, or
  leaves request rows that are related to the earlier ones by \<open>W\<close>.
\<close>

definition advanced :: "timeoff_request \<Rightarrow> timeoff_request \<Rightarrow> bool" where
  "advanced r y \<longleftrightarrow> (if hcmSyncAttempts r < MAX_PENDING_SYNC_RETRIES then hcmSyncAttempts y = hcmSyncAttempts r + 1
     else hcmSyncAttempts y = hcmSyncAttempts r \<and> hcmSyncStatus y = SyncFAILED)"

definition retried :: "timeoff_request \<Rightarrow> timeoff_request list \<Rightarrow> timeoff_request list \<Rightarrow> bool" where
  "retried r = list_all2 (\<lambda>x y. if r_id x = r_id r then same_request x y \<and> (x = r \<longrightarrow> advanced r y) else y = x)"

definition leaves :: "(timeoff_request list \<Rightarrow> timeoff_request list \<Rightarrow> bool) \<Rightarrow> ('h, 'a) service \<Rightarrow> bool" where
  "leaves W m \<longleftrightarrow> (\<forall>s x t. m s = (x, t) \<longrightarrow> (case x of
      Inl e \<Rightarrow> tables t = tables s
    | Inr _ \<Rightarrow> W (requests (tables s)) (requests (tables t))))"

lemma leavesI:
  assumes "\<And>s e t. m s = (Inl e, t) \<Longrightarrow> tables t = tables s"
    and "\<And>s v t. m s = (Inr v, t) \<Longrightarrow> W (requests (tables s)) (requests (tables t))"
  shows "leaves W m"
  using assms by (auto simp: leaves_def split: sum.split)

lemma leavesD:
  "leaves W m \<Longrightarrow> m s = (Inl e, t) \<Longrightarrow> tables t = tables s"
  "leaves W m \<Longrightarrow> m s = (Inr u, t) \<Longrightarrow> W (requests (tables s)) (requests (tables t))"
  unfolding leaves_def by fastforce+

lemma leaves_bindM: "stateless undo m \<Longrightarrow> (\<And>x. leaves W (k x)) \<Longrightarrow> leaves W (bindM m k)"
  by (rule leavesI; elim bindM_Inl_E bindM_Inr_E) (metis statelessD leavesD)+

lemma leaves_catchM: "leaves W m \<Longrightarrow> (\<And>e. leaves W (h e)) \<Longrightarrow> leaves W (catchM m h)"
  by (rule leavesI) (auto simp: catchM_app split: prod.splits sum.splits; metis leavesD)+

lemma leaves_if: "leaves W m \<Longrightarrow> leaves W n \<Longrightarrow> leaves W (if c then m else n)"
  by simp

lemma core_request_sync:
  assumes "core_request x = core_request y"
  shows "hcmSyncAttempts x = hcmSyncAttempts y" and "hcmSyncStatus x = hcmSyncStatus y"
  using arg_cong[OF assms, of hcmSyncAttempts] arg_cong[OF assms, of hcmSyncStatus] by (simp_all add: core_request_def)

lemma core_request_same:
  assumes "core_request y = core_request (f x)" "r_id y = r_id x" "same_request x (f x)"
  shows "same_request x y"
proof -
  have "core_request y = core_request (f x)" by fact
  from core_requestD[OF this] assms(2,3) show ?thesis by (simp add: same_request_def request_key_def)
qed

context background
begin

lemma update_request_leaves:
  assumes "hcm_patch f" and "\<And>y. core_request y = core_request (f r) \<Longrightarrow> advanced r y"
  shows "leaves (retried r) (update_request D (r_id r) f)"
proof (rule leavesI)
  fix s e t assume "update_request D (r_id r) f s = (Inl e, t)"
  then show "tables t = tables s" by (cases "r_id r") (auto simp: update_request_def dest: req.update_err)
next
  fix s v t assume run: "update_request D (r_id r) f s = (Inr v, t)"
  then obtain i where i: "r_id r = Some i" by (cases "r_id r") (auto simp: update_request_def)
  with run have "repo_update (requestRepository D) i f s = (Inr v, t)" by (simp add: update_request_def)
  from req.update_ok[OF this] obtain rs where rs: "tables t = (tables s)\<lparr>requests := rs\<rparr>"
    and l: "list_all2 (\<lambda>x y. if r_id x = Some i then core_request y = core_request (f x) \<and> r_id y = r_id x else y = x)
       (requests (tables s)) rs" by auto
  show "retried r (requests (tables s)) (requests (tables t))"
    unfolding retried_def rs i using assms core_request_same[of _ f]
    by (auto simp: hcm_patch_def intro!: list_all2_mono[OF l] split: if_splits)
qed

lemma updateSyncAttempt_leaves:
  assumes "hcm_patch patch" and "hcmSyncAttempts r < MAX_PENDING_SYNC_RETRIES"
  shows "leaves (retried r) (updateSyncAttempt D now r patch)"
proof -
  let ?f = "\<lambda>x. (patch x)\<lparr>hcmSyncAttempts := hcmSyncAttempts r + 1, hcmLastSyncAt := Some now\<rparr>"
  have "hcm_patch ?f"
    using assms(1) by (simp add: hcm_patch_def same_request_def request_key_def)
  moreover have "advanced r y" if "core_request y = core_request (?f r)" for y
    using core_request_sync(1)[OF that] assms(2) by (simp add: advanced_def)
  ultimately show ?thesis
    unfolding updateSyncAttempt_def by (rule update_request_leaves)
qed

lemmas leave_rules = leaves_bindM[OF stateless_json_prop] leaves_bindM[OF validateRequest_stateless]
  leaves_bindM[OF notifyApproval_stateless] leaves_bindM[OF stateless_returnM] leaves_catchM leaves_if
  updateSyncAttempt_leaves

lemma resend_approval_leaves:
  assumes "hcmSyncAttempts r < MAX_PENDING_SYNC_RETRIES"
  shows "leaves (retried r) (resend_approval D H now r)"
proof -
  have accepted: "stateless undo (if a = JNull then returnM False
      else bindM (json_prop a ''success'') (\<lambda>ok. returnM (ok \<noteq> JBool False)))" for a
    by (auto intro: stateless_bindM)
  show ?thesis
    unfolding resend_approval_def
    by (intro leaves_bindM[OF notifyApproval_stateless] leaves_bindM[OF accepted] updateSyncAttempt_leaves assms)
      (simp add: hcm_patch_def same_request_def request_key_def)
qed

lemma retry_branches_leave:
  assumes True: "hcmSyncAttempts r < MAX_PENDING_SYNC_RETRIES"
  shows "leaves (retried r) (case r_status r of
      PENDING \<Rightarrow> retryValidationOnly D H now r
    | APPROVED \<Rightarrow> retryApprovalFlow D H now r
    | _ \<Rightarrow> updateSyncAttempt D now r (\<lambda>r. r\<lparr>hcmSyncStatus := SyncSKIPPED\<rparr>))"
proof -
  have same: "hcm_patch (\<lambda>r. r\<lparr>hcmSyncStatus := a\<rparr>)" "hcm_patch (\<lambda>r. r\<lparr>hcmSyncStatus := a, hcmValidated := b\<rparr>)" for a b
    by (simp_all add: hcm_patch_def same_request_def request_key_def)
  have "leaves (retried r) (retryValidationOnly D H now r)" "leaves (retried r) (retryApprovalFlow D H now r)"
    unfolding retryValidationOnly_def retryApprovalFlow_def
    by (simp_all add: resend_approval_leaves True; intro conjI impI; intro leave_rules resend_approval_leaves same True)+
  then show ?thesis using True by (auto simp: same intro!: updateSyncAttempt_leaves split: request_status.split)
qed

lemma retry_one_leaves: "leaves (retried r) (retry_one D H now r)"
proof (cases "hcmSyncAttempts r < MAX_PENDING_SYNC_RETRIES")
  case True
  have "hcm_patch (\<lambda>r. r\<lparr>hcmSyncStatus := SyncPENDING\<rparr>)" by (simp add: hcm_patch_def same_request_def request_key_def)
  with True retry_branches_leave[OF True, of now] show ?thesis
    unfolding retry_one_def by (simp add: not_le leaves_catchM updateSyncAttempt_leaves)
next
  case False
  then show ?thesis
    unfolding retry_one_def
    by (simp add: not_less) (rule update_request_leaves, auto simp: advanced_def dest: core_request_sync)
qed

end

text \<open>
  Every retry that returns brings the request closer to a settled state with the HCM: below ten
  attempts it leaves the row with exactly one attempt more on record, whether the HCM answered,
  refused, failed or could not be reached; at ten attempts it stops without asking the HCM again and
  marks the notification as failed. A retry that throws changes nothing. The request itself is the
  same in all cases, and so are all other requests.
\<close>

theorem retry_progress:
  assumes "orm_laws D undo" and "hcm_client_laws H undo" and "request \<in> set (requests (tables s))"
    and "retry_one D H now request s = (x, t)"
  shows "case x of Inl e \<Rightarrow> tables t = tables s
    | Inr _ \<Rightarrow> (\<forall>r\<in>set (requests (tables s)). r_id r \<noteq> r_id request \<longrightarrow> r \<in> set (requests (tables t))) \<and>
        (\<exists>r'\<in>set (requests (tables t)). same_request request r' \<and>
          (if hcmSyncAttempts request < 10 then hcmSyncAttempts r' = hcmSyncAttempts request + 1
           else hcmSyncAttempts r' = hcmSyncAttempts request \<and> hcmSyncStatus r' = SyncFAILED))"
proof -
  have "background D H undo" using assms(1,2) by (simp add: background_def)
  note l = background.retry_one_leaves[OF this, of request now]
  show ?thesis
  proof (cases x)
    case (Inl e)
    with leavesD(1)[OF l] assms(4) show ?thesis by simp
  next
    case (Inr u)
    with leavesD(2)[OF l] assms(4) have r: "retried request (requests (tables s)) (requests (tables t))" by simp
    from list_all2_mem'[OF this[unfolded retried_def]] assms(3) Inr show ?thesis
      by (fastforce simp: advanced_def MAX_PENDING_SYNC_RETRIES_def)
  qed
qed

theorem retry_progress_witness:
  "\<exists>t r'. retry_one mem_orm silent_hcm 5 sample_request (node_of pending_tables) = (Inr (), t) \<and>
     r' \<in> set (requests (tables t)) \<and> hcmSyncAttempts r' = 1"
proof -
  have "sample_request \<in> set (requests (tables (node_of pending_tables)))" by (simp add: sample_sel pending_tables_def)
  from retry_progress[OF mem.orm_laws_axioms silent_hcm_laws this, of 5]
  have "case fst (retry_one mem_orm silent_hcm 5 sample_request (node_of pending_tables)) of Inl e \<Rightarrow> True
    | Inr _ \<Rightarrow> \<exists>r'\<in>set (requests (tables (snd (retry_one mem_orm silent_hcm 5 sample_request (node_of pending_tables))))).
        hcmSyncAttempts r' = 1"
    by (cases "retry_one mem_orm silent_hcm 5 sample_request (node_of pending_tables)")
      (force simp: sample_request_def new_request_def split: sum.splits)
  moreover have "\<exists>t. retry_one mem_orm silent_hcm 5 sample_request (node_of pending_tables) = (Inr (), t)"
    by (simp add: retry_one_def MAX_PENDING_SYNC_RETRIES_def sample_request_def new_request_def retryValidationOnly_def
        silent_hcm_def updateSyncAttempt_def update_request_def run_simps pending_tables_def)
  ultimately show ?thesis by auto
qed

section \<open>The job comes to rest\<close>

text \<open>What is still owed to a request, and to all of them.\<close>

definition owed :: "timeoff_request \<Rightarrow> nat" where
  "owed r = (if hcmSyncStatus r = SyncPENDING then MAX_PENDING_SYNC_RETRIES + 1 - min (hcmSyncAttempts r) MAX_PENDING_SYNC_RETRIES else 0)"

definition total_owed :: "tables \<Rightarrow> nat" where
  "total_owed T = sum_list (map owed (requests T))"

lemma owed_pos: "0 < owed r \<longleftrightarrow> hcmSyncStatus r = SyncPENDING"
  by (auto simp: owed_def MAX_PENDING_SYNC_RETRIES_def)

lemma owed_le: "owed r \<le> 11"
  by (simp add: owed_def MAX_PENDING_SYNC_RETRIES_def)

lemma advanced_owed: "advanced r y \<Longrightarrow> hcmSyncStatus r = SyncPENDING \<Longrightarrow> owed y < owed r"
  unfolding advanced_def owed_def MAX_PENDING_SYNC_RETRIES_def by (auto simp: min_def split: if_splits)

definition request_rows_ok :: "'h node \<Rightarrow> bool" where
  "request_rows_ok s \<longleftrightarrow> ids_ok r_id (requests (tables s)) \<and> requests_ok (requests (tables s))"

lemma retried_ids: "retried r rs rs' \<Longrightarrow> map r_id rs' = map r_id rs"
  unfolding retried_def by (induction rule: list_all2_induct) (auto simp: same_request_def split: if_splits)

lemma retried_keys: "retried r rs rs' \<Longrightarrow> map r_idempotencyKey rs' = map r_idempotencyKey rs \<and> map daysRequested rs' = map daysRequested rs"
  unfolding retried_def by (induction rule: list_all2_induct) (auto simp: same_request_def split: if_splits)

lemma retried_ok:
  assumes "retried r (requests (tables s)) (requests (tables t))" and "request_rows_ok s"
  shows "request_rows_ok t"
proof -
  have "list_all (\<lambda>d. d \<noteq> NaN) (map daysRequested (requests (tables s)))"
    using assms(2) by (simp add: request_rows_ok_def requests_ok_def list_all_length)
  then have "list_all (\<lambda>r. daysRequested r \<noteq> NaN) (requests (tables t))"
    using retried_keys[OF assms(1)] by (metis (no_types, lifting) list.pred_map list_all_cong comp_apply)
  then show ?thesis
    using assms(2) retried_ids[OF assms(1)] retried_keys[OF assms(1)]
    by (simp add: request_rows_ok_def ids_ok_def requests_ok_def)
qed

lemma retried_mem: "retried r rs rs' \<Longrightarrow> x \<in> set rs \<Longrightarrow> r_id x \<noteq> r_id r \<Longrightarrow> x \<in> set rs'"
  unfolding retried_def by (fastforce dest: list_all2_mem')

lemma retried_owed:
  assumes "retried r rs rs'" and "distinct (map r_id rs)" and "r \<in> set rs" and "hcmSyncStatus r = SyncPENDING"
  shows "sum_list (map owed rs') < sum_list (map owed rs)"
proof -
  have same: "map owed ys = map owed xs" if "retried r xs ys" "r_id r \<notin> r_id ` set xs" for xs ys
    using that unfolding retried_def by (induction rule: list_all2_induct) auto
  show ?thesis
    using assms(1)[unfolded retried_def] assms(2,3)
  proof (induction rule: list_all2_induct)
    case (Cons x xs y ys)
    show ?case
    proof (cases "x = r")
      case True
      with Cons.hyps same[of xs ys] Cons.prems advanced_owed[of r y] assms(4) show ?thesis
        by (simp add: retried_def)
    next
      case False
      with Cons have "r_id x \<noteq> r_id r" by auto
      with Cons False show ?thesis by auto
    qed
  qed simp
qed

text \<open>
  A database that answers: queries return, and an update that leaves the key and the days of the rows
  alone breaks no constraint and returns. The laws of \<open>orm_laws\<close> alone also allow every statement to fail.
\<close>

locale answering_orm = orm_laws D undo for D :: "'h orm" and undo +
  assumes find_answers: "\<exists>xs t. repo_find (requestRepository D) q s = (Inr xs, t)"
    and update_answers: "hcm_patch f \<Longrightarrow> requests_ok (requests (tables s)) \<Longrightarrow>
      \<exists>u t. repo_update (requestRepository D) i f s = (Inr u, t)"

lemma mem_update_ok:
  assumes "hcm_patch f" and "requests_ok rs"
  shows "requests_ok (map (\<lambda>x. if r_id x = Some i then (f x)\<lparr>r_id := Some i, r_version := Suc (r_version ((f x)\<lparr>r_id := Some i\<rparr>))\<rparr> else x) rs)"
proof -
  let ?g = "\<lambda>x. if r_id x = Some i then (f x)\<lparr>r_id := Some i, r_version := Suc (r_version ((f x)\<lparr>r_id := Some i\<rparr>))\<rparr> else x"
  have "r_idempotencyKey (?g x) = r_idempotencyKey x" "daysRequested (?g x) = daysRequested x" for x
    using assms(1) by (simp_all add: hcm_patch_def same_request_def)
  then show ?thesis using assms(2) by (simp add: requests_ok_def list.pred_map comp_def cong: map_cong)
qed

interpretation mem_db: answering_orm mem_orm fst
proof (unfold_locales, goal_cases)
  case (1 q s)
  show ?case by (simp add: run_simps)
next
  case (2 f s i)
  from mem_update_ok[OF this, of i] show ?case by (simp add: mem_orm_def mem_repo_def Let_def)
qed

locale answering_background = background D H undo + answering_orm D undo
  for D :: "'h orm" and H :: "'h hcm_client" and undo
begin

lemma update_request_answers:
  "hcm_patch f \<Longrightarrow> request_rows_ok s \<Longrightarrow> r_id r \<noteq> None \<Longrightarrow> \<exists>u t. update_request D (r_id r) f s = (Inr u, t)"
  using update_answers by (auto simp: update_request_def request_rows_ok_def)

lemma retry_one_answers:
  assumes "request_rows_ok s" and "r_id r \<noteq> None"
  shows "\<exists>u t. retry_one D H now r s = (Inr u, t)"
proof -
  have again: "\<exists>u t. updateSyncAttempt D now r (\<lambda>r. r\<lparr>hcmSyncStatus := SyncPENDING\<rparr>) s' = (Inr u, t)"
    if "tables s' = tables s" for s'
    unfolding updateSyncAttempt_def using assms that by (intro update_request_answers) (simp_all add: request_rows_ok_def)
  have caught: "\<exists>u t. catchM m (\<lambda>_. updateSyncAttempt D now r (\<lambda>r. r\<lparr>hcmSyncStatus := SyncPENDING\<rparr>)) s = (Inr u, t)"
    if "leaves W m" for W m
    using leavesD(1)[OF that] again by (cases "m s"; cases "fst (m s)") (auto simp: catchM_app)
  show ?thesis
  proof (cases "MAX_PENDING_SYNC_RETRIES \<le> hcmSyncAttempts r")
    case True
    with update_request_answers[of "\<lambda>r. r\<lparr>hcmSyncStatus := SyncFAILED, hcmLastSyncAt := Some now\<rparr>" s r] assms
    show ?thesis by (simp add: retry_one_def)
  next
    case False
    then have "leaves (retried r) (case r_status r of
           PENDING \<Rightarrow> retryValidationOnly D H now r
         | APPROVED \<Rightarrow> retryApprovalFlow D H now r
         | _ \<Rightarrow> updateSyncAttempt D now r (\<lambda>r. r\<lparr>hcmSyncStatus := SyncSKIPPED\<rparr>))"
      by (rule retry_branches_leave[OF not_le_imp_less])
    from caught[OF this] False show ?thesis by (simp add: retry_one_def)
  qed
qed

text \<open>One sweep pays at least one owed attempt for every request it picks.\<close>

lemma retry_loop:
  assumes "request_rows_ok s" and "distinct (map r_id rs)" and "set rs \<subseteq> set (requests (tables s))"
    and "\<forall>r\<in>set rs. hcmSyncStatus r = SyncPENDING"
  shows "\<exists>u t. forM rs (retry_one D H now) s = (Inr u, t) \<and> request_rows_ok t \<and>
    total_owed (tables t) + length rs \<le> total_owed (tables s)"
  using assms
proof (induction rs arbitrary: s)
  case (Cons r rs)
  have r: "r_id r \<noteq> None" using Cons.prems(1,3) ids_ok_Some[of r_id] by (auto simp: request_rows_ok_def)
  obtain u t where t: "retry_one D H now r s = (Inr u, t)" using retry_one_answers[OF Cons.prems(1) r] by blast
  have w: "retried r (requests (tables s)) (requests (tables t))" by (rule leavesD(2)[OF retry_one_leaves t])
  have "total_owed (tables t) < total_owed (tables s)"
    unfolding total_owed_def using Cons.prems by (intro retried_owed[OF w]) (auto simp: request_rows_ok_def ids_ok_def)
  moreover have "set rs \<subseteq> set (requests (tables t))"
  proof
    fix x assume "x \<in> set rs"
    with Cons.prems(2,3) show "x \<in> set (requests (tables t))" by (intro retried_mem[OF w]) (auto simp: rev_image_eqI)
  qed
  note Cons.IH[OF retried_ok[OF w Cons.prems(1)] _ this]
  ultimately show ?case using Cons.prems(2,4) by (fastforce simp: t bindM_app)
qed (simp add: returnM_def)

lemma sweep:
  assumes "request_rows_ok s"
  shows "\<exists>u t. retryPendingHcmSyncs D H now s = (Inr u, t) \<and> request_rows_ok t \<and> total_owed (tables t) \<le> total_owed (tables s) - 1"
proof -
  let ?q = "where_all (\<lambda>r. hcmSyncStatus r = SyncPENDING)
     \<lparr>q_order := (\<lambda>x y. hcmSyncAttempts x < hcmSyncAttempts y \<or>
         hcmSyncAttempts x = hcmSyncAttempts y \<and> r_createdAt x \<le> r_createdAt y), q_take := Some (Fin 50)\<rparr>"
  obtain xs u where f: "repo_find (requestRepository D) ?q s = (Inr xs, u)" using find_answers by blast
  from req.find_ok[OF f] obtain ys where u: "tables u = tables s"
    and ys: "mset ys = mset (filter (\<lambda>r. hcmSyncStatus r = SyncPENDING) (requests (tables s)))" "xs = take 50 ys"
    by (auto simp: page_def where_all_def)
  have ok: "request_rows_ok u" using assms u by (simp add: request_rows_ok_def)
  have "mset (map r_id ys) = mset (map r_id (filter (\<lambda>r. hcmSyncStatus r = SyncPENDING) (requests (tables s))))"
    using ys(1) by (metis mset_map)
  then have "distinct (map r_id ys)"
    using assms by (metis mset_eq_imp_distinct_iff request_rows_ok_def ids_ok_def distinct_map_filter)
  then have "distinct (map r_id xs)" by (simp add: ys(2) take_map[symmetric])
  moreover have in_ys: "set ys = {r \<in> set (requests (tables s)). hcmSyncStatus r = SyncPENDING}"
    using arg_cong[OF ys(1), of set_mset] by auto
  then have "set xs \<subseteq> set (requests (tables u))" "\<forall>r\<in>set xs. hcmSyncStatus r = SyncPENDING"
    using set_take_subset[of 50 ys] by (auto simp: ys(2) u)
  ultimately obtain v t where t: "forM xs (retry_one D H now) u = (Inr v, t)" "request_rows_ok t"
    "total_owed (tables t) + length xs \<le> total_owed (tables s)"
    using retry_loop[OF ok, of xs now] u by auto
  moreover have "total_owed (tables s) = 0" if "xs = []"
  proof -
    have "ys = []" using that by (simp add: ys(2))
    with in_ys show ?thesis using owed_pos by (force simp: total_owed_def)
  qed
  ultimately have "total_owed (tables t) \<le> total_owed (tables s) - 1" by (cases xs) auto
  then show ?thesis using f t(1,2) by (simp add: retryPendingHcmSyncs_def bindM_app)
qed

lemma sweeps:
  "request_rows_ok s \<Longrightarrow> \<exists>t. forM nows (retryPendingHcmSyncs D H) s = (Inr (), t) \<and>
     total_owed (tables t) \<le> total_owed (tables s) - length nows"
proof (induction nows arbitrary: s)
  case (Cons now nows)
  from sweep[OF Cons.prems, of now] obtain u t where t: "retryPendingHcmSyncs D H now s = (Inr u, t)" "request_rows_ok t"
    "total_owed (tables t) \<le> total_owed (tables s) - 1" by blast
  from Cons.IH[OF t(2)] t show ?case by (force simp: bindM_app)
qed (simp add: returnM_def)

end

interpretation resting: answering_background mem_orm "hcm_service cfg http sleep" fst
  by (rule answering_background.intro[OF background.intro[OF mem.orm_laws_axioms hcm_service_laws]
      mem_db.answering_orm_axioms])

lemma total_owed_le: "total_owed T \<le> 11 * length (filter (\<lambda>r. hcmSyncStatus r = SyncPENDING) (requests T))"
proof -
  have "sum_list (map owed rs) \<le> 11 * length (filter (\<lambda>r. hcmSyncStatus r = SyncPENDING) rs)" for rs
  proof (induction rs)
    case (Cons r rs)
    then show ?case using owed_le[of r] owed_pos[of r] by auto
  qed simp
  then show ?thesis by (simp add: total_owed_def)
qed

text \<open>
  C25: The retry job comes to rest. On a database that answers, whatever the HCM does (answers, refuses,
  throws, is unreachable), every sweep returns, and after at most eleven sweeps for each pending
  notification no notification is pending any more: no request is retried forever.
\<close>

theorem retries_settle:
  assumes "answering_orm D undo" and "hcm_client_laws H undo"
    and "ids_ok r_id (requests (tables s))" and "requests_ok (requests (tables s))"
    and "11 * length (filter (\<lambda>r. hcmSyncStatus r = SyncPENDING) (requests (tables s))) \<le> length nows"
  shows "\<exists>t. forM nows (retryPendingHcmSyncs D H) s = (Inr (), t) \<and>
    (\<forall>r\<in>set (requests (tables t)). hcmSyncStatus r \<noteq> SyncPENDING)"
proof -
  have "answering_background D H undo"
    using assms(1,2) by (simp add: answering_background_def background_def answering_orm_def)
  from answering_background.sweeps[OF this, of s nows] assms(3,4) obtain t
    where t: "forM nows (retryPendingHcmSyncs D H) s = (Inr (), t)" "total_owed (tables t) \<le> total_owed (tables s) - length nows"
    by (auto simp: request_rows_ok_def)
  then have "\<forall>r\<in>set (requests (tables t)). owed r = 0"
    using total_owed_le[of "tables s"] assms(5) by (simp add: total_owed_def)
  then have "\<forall>r\<in>set (requests (tables t)). hcmSyncStatus r \<noteq> SyncPENDING" using owed_pos by (metis less_irrefl)
  with t(1) show ?thesis by blast
qed

theorem retries_settle_witness:
  "\<exists>t. forM (map int [0..<11]) (retryPendingHcmSyncs mem_orm silent_hcm) (node_of pending_tables) = (Inr (), t) \<and>
    (\<forall>r\<in>set (requests (tables t)). hcmSyncStatus r \<noteq> SyncPENDING)"
  using pending_inv
  by (intro retries_settle[OF mem_db.answering_orm_axioms silent_hcm_laws]; simp add: ledger_inv_def wf_tables_def)
    (simp add: sample_sel pending_tables_def)

end
