(* ===== verification/Mock_Hcm.thy ===== *)
theory Mock_Hcm
  imports Sync_Ledger
begin

text \<open>
  \<open>src/mock-hcm/src/server.js\<close>: the stand-in for the HCM that the service is developed and tested
  against. One process holds a table of balances and the switches of its behaviour; every endpoint
  is a function on that state. Request bodies are what \<open>express.json\<close> yields, a JSON object or array
  (an array has none of the fields). The keys of the table contain two underscores, so they are no
  array indices and the table keeps the order of insertion; a key that names a property of
  \<open>Object.prototype\<close> is left out of account. \<open>/admin/inject\<close> stores two amounts unchecked: they are
  numbers here. Clock readings and random numbers are arguments.
\<close>

section \<open>Conversions\<close>

fun js_toNumber :: "platform \<Rightarrow> json \<Rightarrow> js_num" where
  "js_toNumber P JUndef = NaN"
| "js_toNumber P JNull = Fin 0"
| "js_toNumber P (JBool b) = Fin (if b then 1 else 0)"
| "js_toNumber P (JNum x) = x"
| "js_toNumber P (JStr s) = js_Number s"
| "js_toNumber P (JArr xs) = js_Number (js_String P (JArr xs))"
| "js_toNumber P (JObj ps) = NaN"

text \<open>\<open>===\<close> of a stored value and a value of the body: objects are never identical.\<close>

fun strict_eq :: "json \<Rightarrow> json \<Rightarrow> bool" where
  "strict_eq JUndef JUndef = True"
| "strict_eq JNull JNull = True"
| "strict_eq (JBool a) (JBool b) = (a = b)"
| "strict_eq (JNum x) (JNum y) = (x = y \<and> x \<noteq> NaN)"
| "strict_eq (JStr s) (JStr t) = (s = t)"
| "strict_eq _ _ = False"

fun body_field :: "json \<Rightarrow> string \<Rightarrow> json" where
  "body_field (JObj ps) k = json_field ps k"
| "body_field _ k = JUndef"

section \<open>State and answers\<close>

record mock_record =
  mr_employeeId :: json
  mr_locationId :: json
  mr_leaveType :: json
  mr_totalBalance :: js_num
  mr_availableBalance :: js_num
  mr_version :: string

record mock_behavior =
  forcedFailureMode :: "string option"
  forcedFailureRemaining :: int
  validationOverride :: "string option"
  batchPartial :: bool
  staleVersionMode :: bool

record mock_hcm =
  hcmBalances :: "(string, mock_record) js_map"
  mockBehavior :: mock_behavior

record http_response =
  resp_status :: nat
  resp_body :: json

type_synonym endpoint = "mock_hcm \<Rightarrow> http_response \<times> mock_hcm"

definition answer :: "nat \<Rightarrow> (string \<times> json) list \<Rightarrow> http_response" where
  "answer st ps = \<lparr>resp_status = st, resp_body = JObj ps\<rparr>"

definition default_behavior :: mock_behavior where
  "default_behavior = \<lparr>forcedFailureMode = None, forcedFailureRemaining = 0, validationOverride = None,
     batchPartial = False, staleVersionMode = False\<rparr>"

definition mock_row :: "json \<Rightarrow> json \<Rightarrow> json \<Rightarrow> rat \<Rightarrow> mock_record" where
  "mock_row employeeId locationId leaveType days = \<lparr>mr_employeeId = employeeId, mr_locationId = locationId,
     mr_leaveType = leaveType, mr_totalBalance = Fin days, mr_availableBalance = Fin days, mr_version = ''v1''\<rparr>"

definition initial_mock :: mock_hcm where
  "initial_mock = \<lparr>hcmBalances =
     [(''EMP123_LOC1_VACATION'', mock_row (JStr ''EMP123'') (JStr ''LOC1'') (JStr ''VACATION'') 15),
      (''EMP123_LOC1_SICK'', mock_row (JStr ''EMP123'') (JStr ''LOC1'') (JStr ''SICK'') 10)],
     mockBehavior = default_behavior\<rparr>"

definition record_json :: "mock_record \<Rightarrow> json" where
  "record_json r = JObj [(''employeeId'', mr_employeeId r), (''locationId'', mr_locationId r), (''leaveType'', mr_leaveType r),
     (''totalBalance'', JNum (mr_totalBalance r)), (''availableBalance'', JNum (mr_availableBalance r)),
     (''version'', JStr (mr_version r))]"

definition option_json :: "string option \<Rightarrow> json" where
  "option_json x = (case x of None \<Rightarrow> JNull | Some s \<Rightarrow> JStr s)"

definition behavior_fields :: "mock_behavior \<Rightarrow> (string \<times> json) list" where
  "behavior_fields b = [(''forcedFailureMode'', option_json (forcedFailureMode b)),
     (''forcedFailureRemaining'', JNum (js_of (of_int (forcedFailureRemaining b)))),
     (''validationOverride'', option_json (validationOverride b)), (''batchPartial'', JBool (batchPartial b)),
     (''staleVersionMode'', JBool (staleVersionMode b))]"

definition getBalanceKey :: "platform \<Rightarrow> json \<Rightarrow> json \<Rightarrow> json \<Rightarrow> string" where
  "getBalanceKey P employeeId locationId leaveType =
     js_String P employeeId @ ''_'' @ js_String P locationId @ ''_'' @ js_String P leaveType"

definition ensureBalanceRecord ::
  "platform \<Rightarrow> json \<Rightarrow> json \<Rightarrow> json \<Rightarrow> mock_hcm \<Rightarrow> mock_record \<times> mock_hcm" where
  "ensureBalanceRecord P employeeId locationId leaveType m =
     (let key = getBalanceKey P employeeId locationId leaveType in
      case map_get (hcmBalances m) key of
        Some r \<Rightarrow> (r, m)
      | None \<Rightarrow> let r = mock_row employeeId locationId leaveType 0
          in (r, m\<lparr>hcmBalances := map_set (hcmBalances m) key r\<rparr>))"

definition store_record :: "string \<Rightarrow> mock_record \<Rightarrow> mock_hcm \<Rightarrow> mock_hcm" where
  "store_record key r m = m\<lparr>hcmBalances := map_set (hcmBalances m) key r\<rparr>"

definition version_at :: "platform \<Rightarrow> int \<Rightarrow> string" where
  "version_at P now = ''v'' @ show_number P (of_int now)"

section \<open>Instability\<close>

datatype passage = Proceed js_num | Refuse http_response

definition simulateInstability ::
  "js_num \<Rightarrow> js_num \<Rightarrow> js_num \<Rightarrow> js_num \<Rightarrow> mock_hcm \<Rightarrow> passage \<times> mock_hcm" where
  "simulateInstability timeoutProbability flakiness rand rand' m =
     (let b = mockBehavior m;
          forced = (forcedFailureMode b \<noteq> None \<and> forcedFailureMode b \<noteq> Some [] \<and> 0 < forcedFailureRemaining b);
          m1 = (if forced then m\<lparr>mockBehavior := b\<lparr>forcedFailureRemaining := forcedFailureRemaining b - 1\<rparr>\<rparr> else m)
      in if forced \<and> forcedFailureMode b = Some ''timeout'' then (Proceed (Fin 6000), m1)
         else if forced \<and> forcedFailureMode b = Some ''503''
         then (Refuse (answer 503 [(''error'', JStr ''Service Unavailable (forced)'')]), m1)
         else if js_lt rand timeoutProbability then (Proceed (Fin 6000), m1)
         else if js_lt rand (js_add timeoutProbability flakiness)
         then (Refuse (answer 503 [(''error'', JStr ''Service Unavailable'')]), m1)
         else (Proceed (js_add (Fin 50) (js_mul rand' (Fin 150))), m1))"

section \<open>The endpoints of the HCM\<close>

definition get_balance :: "platform \<Rightarrow> string \<Rightarrow> string \<Rightarrow> string \<Rightarrow> endpoint" where
  "get_balance P employeeId locationId leaveType m =
     (let r = (case map_get (hcmBalances m) (getBalanceKey P (JStr employeeId) (JStr locationId) (JStr leaveType)) of
          Some r \<Rightarrow> r
        | None \<Rightarrow> mock_row (JStr employeeId) (JStr locationId) (JStr leaveType) 0)
      in (\<lparr>resp_status = 200, resp_body = record_json r\<rparr>, m))"

definition validate :: "platform \<Rightarrow> json \<Rightarrow> endpoint" where
  "validate P body m =
     (let record' = map_get (hcmBalances m) (getBalanceKey P (body_field body ''employeeId'')
            (body_field body ''locationId'') (body_field body ''leaveType''));
          hcmBalance = JNum (case record' of Some r \<Rightarrow> mr_availableBalance r | None \<Rightarrow> Fin 0);
          reply = (\<lambda>valid message. answer 200 [(''valid'', JBool valid), (''hcmBalance'', hcmBalance), (''message'', JStr message)])
      in if validationOverride (mockBehavior m) = Some ''always-invalid''
         then (reply False ''Forced invalid validation response'', m)
         else if validationOverride (mockBehavior m) = Some ''always-valid''
         then (reply True ''Forced valid validation response'', m)
         else if (case record' of None \<Rightarrow> True
           | Some r \<Rightarrow> js_lt (mr_availableBalance r) (js_toNumber P (body_field body ''daysRequested'')))
         then (reply False ''Insufficient balance in HCM system'', m)
         else (answer 200 [(''valid'', JBool True), (''hcmBalance'', hcmBalance)], m))"

definition insufficient_message :: "platform \<Rightarrow> js_num \<Rightarrow> js_num \<Rightarrow> json" where
  "insufficient_message P days available = JStr (''Requested '' @ js_String P (JNum days) @ '' but only '' @
     js_String P (JNum available) @ '' available in HCM'')"

definition take_days :: "js_num \<Rightarrow> mock_record \<Rightarrow> mock_record" where
  "take_days days r = r\<lparr>mr_availableBalance := js_sub (mr_availableBalance r) days,
     mr_totalBalance := js_sub (mr_totalBalance r) days\<rparr>"

definition give_days :: "js_num \<Rightarrow> mock_record \<Rightarrow> mock_record" where
  "give_days days r = r\<lparr>mr_availableBalance := js_add (mr_availableBalance r) days,
     mr_totalBalance := js_add (mr_totalBalance r) days\<rparr>"

definition time_off :: "platform \<Rightarrow> int \<Rightarrow> json \<Rightarrow> endpoint" where
  "time_off P now body m =
     (let employeeId = body_field body ''employeeId''; locationId = body_field body ''locationId'';
          leaveType = body_field body ''leaveType''; requested = body_field body ''daysRequested'';
          referenceId = body_field body ''referenceId'';
          days = parseFloat_json requested
      in if \<not> json_truthy employeeId \<or> \<not> json_truthy locationId \<or> \<not> json_truthy leaveType \<or> requested = JUndef
         then (answer 400 [(''error'', JStr ''INVALID_INPUT''),
                 (''message'', JStr ''employeeId, locationId, leaveType, and daysRequested are required'')], m)
         else if \<not> isFinite days \<or> js_le days (Fin 0)
         then (answer 400 [(''error'', JStr ''INVALID_DAYS_REQUESTED''),
                 (''message'', JStr ''daysRequested must be a positive number'')], m)
         else case ensureBalanceRecord P employeeId locationId leaveType m of (r, m1) \<Rightarrow>
           if js_lt (mr_availableBalance r) days
           then (answer 422 [(''error'', JStr ''INSUFFICIENT_BALANCE''),
                   (''message'', insufficient_message P days (mr_availableBalance r)),
                   (''details'', JObj [(''employeeId'', employeeId), (''locationId'', locationId), (''leaveType'', leaveType),
                      (''availableBalance'', JNum (mr_availableBalance r))])], m1)
           else let r' = (take_days days r)\<lparr>mr_version := version_at P now\<rparr>
                in (answer 201 [(''success'', JBool True), (''referenceId'', if json_truthy referenceId then referenceId else JNull),
                      (''updatedBalance'', JNum (mr_availableBalance r')), (''version'', JStr (mr_version r'))],
                    store_record (getBalanceKey P employeeId locationId leaveType) r' m1))"

definition put_balance :: "platform \<Rightarrow> int \<Rightarrow> json \<Rightarrow> endpoint" where
  "put_balance P now body m =
     (let employeeId = body_field body ''employeeId''; locationId = body_field body ''locationId'';
          leaveType = body_field body ''leaveType''; requested = body_field body ''daysRequested'';
          days = (if json_truthy requested then parseFloat_json requested else Fin 0);
          finish = (\<lambda>r m1. let r' = r\<lparr>mr_version := if staleVersionMode (mockBehavior m1) then mr_version r else version_at P now\<rparr>
            in (answer 200 [(''success'', JBool True), (''updatedBalance'', JNum (mr_availableBalance r')),
                  (''version'', JStr (mr_version r'))],
                store_record (getBalanceKey P employeeId locationId leaveType) r' m1))
      in case ensureBalanceRecord P employeeId locationId leaveType m of (r, m1) \<Rightarrow>
        if body_field body ''action'' = JStr ''APPROVE''
        then if js_lt (mr_availableBalance r) days
             then (answer 422 [(''error'', JStr ''INSUFFICIENT_BALANCE''),
                     (''message'', insufficient_message P days (mr_availableBalance r))], m1)
             else finish (take_days days r) m1
        else if body_field body ''action'' = JStr ''REJECT'' then finish (give_days days r) m1
        else (answer 400 [(''error'', JStr ''INVALID_ACTION''), (''message'', JStr ''action must be APPROVE or REJECT'')], m1))"

fun every_second :: "'a list \<Rightarrow> 'a list" where
  "every_second [] = []"
| "every_second [x] = [x]"
| "every_second (x # y # xs) = x # every_second xs"

definition batch_sync :: endpoint where
  "batch_sync m =
     (let rows = map snd (hcmBalances m)
      in (\<lparr>resp_status = 200,
           resp_body = JArr (map record_json (if \<not> batchPartial (mockBehavior m) then rows else every_second rows))\<rparr>, m))"

section \<open>The administrative endpoints\<close>

definition admin_inject :: "platform \<Rightarrow> int \<Rightarrow> json \<Rightarrow> json \<Rightarrow> json \<Rightarrow> js_num \<Rightarrow> js_num \<Rightarrow> endpoint" where
  "admin_inject P now employeeId locationId leaveType totalDays availableDays m =
     (let r = \<lparr>mr_employeeId = employeeId, mr_locationId = locationId, mr_leaveType = leaveType, mr_totalBalance = totalDays,
            mr_availableBalance = availableDays, mr_version = version_at P now\<rparr>
      in (\<lparr>resp_status = 200, resp_body = record_json r\<rparr>, store_record (getBalanceKey P employeeId locationId leaveType) r m))"

text \<open>The loop over the records; the readings is read once for every record that is changed.\<close>

fun refresh_records ::
  "platform \<Rightarrow> (mock_record \<Rightarrow> bool) \<Rightarrow> (mock_record \<Rightarrow> mock_record) \<Rightarrow> (nat \<Rightarrow> int) \<Rightarrow> nat \<Rightarrow>
     (string, mock_record) js_map \<Rightarrow> (string, mock_record) js_map \<times> mock_record list" where
  "refresh_records P sel upd readings n [] = ([], [])"
| "refresh_records P sel upd readings n ((k, r) # rs) =
     (if sel r
      then let r' = (upd r)\<lparr>mr_version := version_at P (readings n)\<rparr>
           in map_prod (Cons (k, r')) (Cons r') (refresh_records P sel upd readings (n + 1) rs)
      else apfst (Cons (k, r)) (refresh_records P sel upd readings n rs))"

definition field_matches :: "json \<Rightarrow> json \<Rightarrow> bool" where
  "field_matches wanted actual \<longleftrightarrow> json_truthy wanted \<longrightarrow> strict_eq actual wanted"

definition anniversary_refresh :: "platform \<Rightarrow> (nat \<Rightarrow> int) \<Rightarrow> json \<Rightarrow> endpoint" where
  "anniversary_refresh P readings body m =
     (let grantDays = body_field body ''grantDays'';
          grant = (if grantDays = JUndef then Fin 1 else parseFloat_json grantDays)
      in if \<not> isFinite grant \<or> js_le grant (Fin 0)
         then (answer 400 [(''error'', JStr ''grantDays must be a positive number'')], m)
         else case refresh_records P (\<lambda>r. field_matches (body_field body ''employeeId'') (mr_employeeId r) \<and>
                 field_matches (body_field body ''locationId'') (mr_locationId r) \<and>
                 field_matches (body_field body ''leaveType'') (mr_leaveType r))
               (give_days grant) readings 0 (hcmBalances m) of (rs, updated) \<Rightarrow>
           (answer 200 [(''updatedCount'', JNum (Fin (of_nat (length updated)))), (''grantDays'', JNum grant),
              (''records'', JArr (map record_json updated))], m\<lparr>hcmBalances := rs\<rparr>))"

definition year_refresh :: "platform \<Rightarrow> (nat \<Rightarrow> int) \<Rightarrow> json \<Rightarrow> endpoint" where
  "year_refresh P readings body m =
     (let defaultTotal = body_field body ''defaultTotal'';
          days = (if defaultTotal = JUndef then Fin 15 else parseFloat_json defaultTotal)
      in if \<not> isFinite days \<or> js_lt days (Fin 0)
         then (answer 400 [(''error'', JStr ''defaultTotal must be a non-negative number'')], m)
         else case refresh_records P (\<lambda>_. True) (\<lambda>r. r\<lparr>mr_totalBalance := days, mr_availableBalance := days\<rparr>)
               readings 0 (hcmBalances m) of (rs, refreshed) \<Rightarrow>
           (answer 200 [(''refreshedCount'', JNum (Fin (of_nat (length refreshed)))), (''defaultTotal'', JNum days),
              (''records'', JArr (map record_json refreshed))], m\<lparr>hcmBalances := rs\<rparr>))"

text \<open>A switch that may be \<open>null\<close> or one of two strings.\<close>

definition one_of :: "string list \<Rightarrow> json \<Rightarrow> string option option" where
  "one_of names j = (case j of JNull \<Rightarrow> Some None | JStr s \<Rightarrow> if s \<in> set names then Some (Some s) else None | _ \<Rightarrow> None)"

text \<open>
  The five fields are checked and stored one after the other, so a field that is refused leaves the
  fields before it changed.
\<close>

definition set_behavior :: "(mock_behavior \<Rightarrow> mock_behavior) \<Rightarrow> mock_hcm \<Rightarrow> mock_hcm" where
  "set_behavior f m = m\<lparr>mockBehavior := f (mockBehavior m)\<rparr>"

definition set_flags :: "json \<Rightarrow> mock_hcm \<Rightarrow> mock_hcm" where
  "set_flags body m =
     (let m1 = (if body_field body ''batchPartial'' = JUndef then m
            else set_behavior (\<lambda>b. b\<lparr>batchPartial := json_truthy (body_field body ''batchPartial'')\<rparr>) m)
      in if body_field body ''staleVersionMode'' = JUndef then m1
         else set_behavior (\<lambda>b. b\<lparr>staleVersionMode := json_truthy (body_field body ''staleVersionMode'')\<rparr>) m1)"

definition set_mode :: "json \<Rightarrow> mock_hcm \<Rightarrow> (string + mock_hcm)" where
  "set_mode mode m = (if mode = JUndef then Inr m
     else case one_of [''503'', ''timeout''] mode of
       None \<Rightarrow> Inl ''forcedFailureMode must be null, 503, or timeout''
     | Some x \<Rightarrow> Inr (set_behavior (\<lambda>b. b\<lparr>forcedFailureMode := x\<rparr>) m))"

definition set_failures :: "platform \<Rightarrow> json \<Rightarrow> mock_hcm \<Rightarrow> (string + mock_hcm)" where
  "set_failures P failures m = (if failures = JUndef then Inr m
     else case js_parseInt10 (js_String P failures) of
       None \<Rightarrow> Inl ''forcedFailureCount must be a non-negative number''
     | Some n \<Rightarrow> if n < 0 then Inl ''forcedFailureCount must be a non-negative number''
         else Inr (set_behavior (\<lambda>b. b\<lparr>forcedFailureRemaining := n\<rparr>) m))"

definition set_override :: "json \<Rightarrow> mock_hcm \<Rightarrow> (string + mock_hcm)" where
  "set_override override m = (if override = JUndef then Inr m
     else case one_of [''always-valid'', ''always-invalid''] override of
       None \<Rightarrow> Inl ''validationOverride must be null, always-valid, or always-invalid''
     | Some x \<Rightarrow> Inr (set_behavior (\<lambda>b. b\<lparr>validationOverride := x\<rparr>) m))"

definition admin_behavior :: "platform \<Rightarrow> json \<Rightarrow> endpoint" where
  "admin_behavior P body m =
     (let refuse = (\<lambda>msg m'. (answer 400 [(''error'', JStr msg)], m'))
      in case set_mode (body_field body ''forcedFailureMode'') m of
        Inl msg \<Rightarrow> refuse msg m
      | Inr m1 \<Rightarrow> (case set_failures P (body_field body ''forcedFailureCount'') m1 of
          Inl msg \<Rightarrow> refuse msg m1
        | Inr m2 \<Rightarrow> (case set_override (body_field body ''validationOverride'') m2 of
            Inl msg \<Rightarrow> refuse msg m2
          | Inr m3 \<Rightarrow> let m4 = set_flags body m3 in (answer 200 (behavior_fields (mockBehavior m4)), m4))))"

definition reset_behavior :: endpoint where
  "reset_behavior m =
     (let m1 = m\<lparr>mockBehavior := default_behavior\<rparr> in (answer 200 (behavior_fields (mockBehavior m1)), m1))"

section \<open>Entitlements stay in order\<close>

datatype mock_request =
    GetBalanceRq string string string
  | ValidateRq json
  | TimeOffRq json
  | PutBalanceRq json
  | BatchSyncRq
  | InjectRq json json json js_num js_num
  | AnniversaryRq json
  | YearRq json
  | BehaviorRq json
  | ResetRq

fun handle :: "platform \<Rightarrow> (nat \<Rightarrow> int) \<Rightarrow> mock_request \<Rightarrow> endpoint" where
  "handle P readings (GetBalanceRq e l lt) = get_balance P e l lt"
| "handle P readings (ValidateRq body) = validate P body"
| "handle P readings (TimeOffRq body) = time_off P (readings 0) body"
| "handle P readings (PutBalanceRq body) = put_balance P (readings 0) body"
| "handle P readings BatchSyncRq = batch_sync"
| "handle P readings (InjectRq e l lt totalDays availableDays) = admin_inject P (readings 0) e l lt totalDays availableDays"
| "handle P readings (AnniversaryRq body) = anniversary_refresh P readings body"
| "handle P readings (YearRq body) = year_refresh P readings body"
| "handle P readings (BehaviorRq body) = admin_behavior P body"
| "handle P readings ResetRq = reset_behavior"

definition put_days :: "json \<Rightarrow> js_num" where
  "put_days body = (if json_truthy (body_field body ''daysRequested'') then parseFloat_json (body_field body ''daysRequested'') else Fin 0)"

text \<open>The two endpoints that check nothing get amounts that make sense.\<close>

fun sensible :: "mock_request \<Rightarrow> bool" where
  "sensible (PutBalanceRq body) = (isFinite (put_days body) \<and> nonneg (put_days body))"
| "sensible (InjectRq e l lt totalDays availableDays) = (totalDays = availableDays \<and> nonneg availableDays)"
| "sensible _ = True"

definition entitled :: "mock_record \<Rightarrow> bool" where
  "entitled r \<longleftrightarrow> mr_totalBalance r = mr_availableBalance r \<and> nonneg (mr_availableBalance r)"

definition mock_ok :: "mock_hcm \<Rightarrow> bool" where
  "mock_ok m \<longleftrightarrow> wf_map (hcmBalances m) \<and> (\<forall>(k, r)\<in>set (hcmBalances m). entitled r)"

lemma nonneg_infinite [simp]: "nonneg PInf" "\<not> nonneg NInf" "\<not> nonneg NaN"
  by (simp_all add: nonneg_def)

lemma js_of_nonneg': "0 \<le> x \<Longrightarrow> nonneg (js_of x)"
  using js_of_nonneg by (auto simp: nonneg_cases)

lemma entitled_take: "entitled r \<Longrightarrow> \<not> js_lt (mr_availableBalance r) (Fin d) \<Longrightarrow> entitled (take_days (Fin d) r)"
  by (cases "mr_availableBalance r") (auto simp: entitled_def take_days_def js_sub_def intro: js_of_nonneg')

lemma entitled_give: "entitled r \<Longrightarrow> 0 \<le> d \<Longrightarrow> entitled (give_days (Fin d) r)"
  by (cases "mr_availableBalance r") (auto simp: entitled_def give_days_def intro: js_of_nonneg')

lemma entitled_version [simp]: "entitled (r\<lparr>mr_version := v\<rparr>) = entitled r"
  by (simp add: entitled_def)

lemma entitled_mock_row [simp]: "entitled (mock_row e l lt d) \<longleftrightarrow> 0 \<le> d"
  by (simp add: entitled_def mock_row_def)

lemma map_get_in_set: "map_get m k = Some v \<Longrightarrow> (k, v) \<in> set m"
  by (simp add: map_of_SomeD)

lemma mem_update: "p \<in> set (map_set m k v) \<Longrightarrow> p = (k, v) \<or> p \<in> set m"
  by (induction m) (auto split: if_splits)

lemma mock_ok_store: "mock_ok m \<Longrightarrow> entitled r \<Longrightarrow> mock_ok (store_record k r m)"
  by (auto simp: mock_ok_def store_record_def dest!: mem_update)

lemma mock_ok_behavior [simp]: "mock_ok (m\<lparr>mockBehavior := b\<rparr>) = mock_ok m"
  by (simp add: mock_ok_def)

lemma ensure_ok:
  "ensureBalanceRecord P e l lt m = (r, m1) \<Longrightarrow> mock_ok m \<Longrightarrow> entitled r \<and> mock_ok m1"
  by (auto simp: ensureBalanceRecord_def Let_def mock_ok_def split: option.splits dest!: mem_update map_get_in_set)

lemma refresh_entitled:
  "\<forall>(k, r)\<in>set rs. entitled r \<Longrightarrow> \<forall>r. entitled r \<longrightarrow> entitled (upd r) \<Longrightarrow>
     \<forall>(k, r)\<in>set (fst (refresh_records P sel upd readings n rs)). entitled r"
  by (induction P sel upd readings n rs rule: refresh_records.induct) (simp_all add: Let_def)

lemma keys_refresh [simp]: "map fst (fst (refresh_records P sel upd readings n rs)) = map fst rs"
  by (induction P sel upd readings n rs rule: refresh_records.induct) (simp_all add: Let_def)

lemma mock_ok_refresh:
  assumes "mock_ok m" and "\<And>r. entitled r \<Longrightarrow> entitled (upd r)"
  shows "mock_ok (m\<lparr>hcmBalances := fst (refresh_records P sel upd readings n (hcmBalances m))\<rparr>)"
  using assms refresh_entitled[of "hcmBalances m" upd] by (simp add: mock_ok_def wf_map_def)

lemma time_off_ok: "mock_ok m \<Longrightarrow> mock_ok (snd (time_off P now body m))"
  by (auto simp: time_off_def Let_def isFinite_iff split: prod.splits dest: ensure_ok intro!: mock_ok_store entitled_take)

lemma put_balance_ok:
  assumes "mock_ok m" and "isFinite (put_days body)" and "nonneg (put_days body)"
  shows "mock_ok (snd (put_balance P now body m))"
proof -
  obtain d where d: "put_days body = Fin d" "0 \<le> d" using assms(2,3) by (auto simp: isFinite_iff)
  obtain r m1 where e: "ensureBalanceRecord P (body_field body ''employeeId'') (body_field body ''locationId'')
      (body_field body ''leaveType'') m = (r, m1)" by fastforce
  from ensure_ok[OF e assms(1)] d show ?thesis
    by (auto simp: put_balance_def Let_def e simp flip: put_days_def intro!: mock_ok_store entitled_take entitled_give)
qed

lemma anniversary_ok: "mock_ok m \<Longrightarrow> mock_ok (snd (anniversary_refresh P readings body m))"
  by (auto simp: anniversary_refresh_def Let_def isFinite_iff prod.case_eq_if intro!: mock_ok_refresh entitled_give)

lemma year_ok: "mock_ok m \<Longrightarrow> mock_ok (snd (year_refresh P readings body m))"
  by (auto simp: year_refresh_def Let_def isFinite_iff prod.case_eq_if entitled_def intro!: mock_ok_refresh)

lemma switch_balances:
  "set_mode mode m = Inr m1 \<Longrightarrow> hcmBalances m1 = hcmBalances m"
  "set_failures P failures m = Inr m1 \<Longrightarrow> hcmBalances m1 = hcmBalances m"
  "set_override override m = Inr m1 \<Longrightarrow> hcmBalances m1 = hcmBalances m"
  "hcmBalances (set_flags body m) = hcmBalances m"
  by (auto simp: set_mode_def set_failures_def set_override_def set_flags_def set_behavior_def Let_def
      split: option.splits if_splits)

lemma behavior_balances: "hcmBalances (snd (admin_behavior P body m)) = hcmBalances m"
  by (simp add: admin_behavior_def Let_def switch_balances split: sum.split)

lemma handle_ok:
  assumes "mock_ok m" and "sensible rq"
  shows "mock_ok (snd (handle P readings rq m))"
proof (cases rq)
  case (BehaviorRq body)
  then show ?thesis using assms(1) behavior_balances[of P body m] by (simp add: mock_ok_def)
qed (use assms in \<open>auto simp: get_balance_def validate_def Let_def batch_sync_def admin_inject_def reset_behavior_def
      entitled_def time_off_ok put_balance_ok anniversary_ok year_ok intro!: mock_ok_store\<close>)

text \<open>A run: every request with its clock readings.\<close>

fun mock_run :: "platform \<Rightarrow> ((nat \<Rightarrow> int) \<times> mock_request) list \<Rightarrow> mock_hcm \<Rightarrow> http_response list \<times> mock_hcm" where
  "mock_run P [] m = ([], m)"
| "mock_run P ((readings, rq) # rqs) m =
     (case handle P readings rq m of (a, m1) \<Rightarrow> apfst (Cons a) (mock_run P rqs m1))"

text \<open>
  C28: As long as the days of every \<open>PUT /hcm/balance\<close> are a finite non-negative number and every
  injected record has a total equal to its available days and not below zero (\<open>sensible\<close>), the HCM never
  overdraws an entitlement: from its start, whatever such requests arrive in whatever order, every
  record has available days equal to its total and not below zero. The two conditions are needed, as
  these endpoints check nothing: \<open>unreadable_days_poison\<close> runs a \<open>PUT\<close> that breaks the record. The bodies
  of \<open>/hcm/time-off\<close> and of the refreshes are arbitrary: those endpoints refuse or ignore the rest
  themselves.
\<close>

theorem mock_never_overdraws:
  assumes "\<forall>(readings, rq)\<in>set rqs. sensible rq" and "mock_run P rqs initial_mock = (answers, m)"
    and "map_get (hcmBalances m) key = Some r"
  shows "mr_availableBalance r = mr_totalBalance r \<and> nonneg (mr_availableBalance r)"
proof -
  have "mock_ok (snd (mock_run P rqs m0))" if "mock_ok m0" for m0
    using assms(1) that by (induction rqs arbitrary: m0) (auto simp: prod.case_eq_if handle_ok)
  moreover have "mock_ok initial_mock"
    by (simp add: mock_ok_def initial_mock_def wf_map_def)
  ultimately have "mock_ok m" using assms(2) by (metis snd_conv)
  then show ?thesis
    using assms(3) by (auto simp: mock_ok_def entitled_def dest!: map_get_in_set)
qed

text \<open>The body of \<open>notifyApproval\<close> and \<open>notifyRejection\<close> (\<open>hcm.service.js\<close>).\<close>

definition notification_body :: "string \<Rightarrow> string \<Rightarrow> string \<Rightarrow> js_num \<Rightarrow> string \<Rightarrow> string \<Rightarrow> json" where
  "notification_body employeeId locationId leaveType days action requestId = JObj
     [(''employeeId'', JStr employeeId), (''locationId'', JStr locationId), (''leaveType'', JStr leaveType),
      (''daysRequested'', JNum days), (''action'', JStr action), (''referenceId'', JStr requestId)]"

lemmas notification_simps = notification_body_def json_field_def js_truthy_def Let_def

lemma put_approve:
  assumes "map_get (hcmBalances m) (getBalanceKey P (JStr e) (JStr l) (JStr lt)) = Some r"
    and "\<not> js_lt (mr_availableBalance r) (Fin d)" and "d \<noteq> 0"
  shows "snd (put_balance P now (notification_body e l lt (Fin d) ''APPROVE'' i) m) =
    store_record (getBalanceKey P (JStr e) (JStr l) (JStr lt))
      ((take_days (Fin d) r)\<lparr>mr_version := if staleVersionMode (mockBehavior m) then mr_version r else version_at P now\<rparr>) m"
  using assms by (simp add: put_balance_def ensureBalanceRecord_def notification_simps take_days_def)

definition plain_platform :: platform where
  "plain_platform = \<lparr>sha256 = id, show_number = (\<lambda>q. dec_string 15 (nat \<lfloor>q\<rfloor>))\<rparr>"

definition sample_requests :: "((nat \<Rightarrow> int) \<times> mock_request) list" where
  "sample_requests =
     [(\<lambda>_. 1, PutBalanceRq (notification_body ''EMP123'' ''LOC1'' ''VACATION'' (Fin 3) ''APPROVE'' ''r1'')),
      (\<lambda>_. 2, TimeOffRq (JObj [(''employeeId'', JStr ''EMP123''), (''locationId'', JStr ''LOC1''),
         (''leaveType'', JStr ''VACATION''), (''daysRequested'', JNum (Fin 20))]))]"

lemmas sample_defs = plain_platform_def initial_mock_def default_behavior_def mock_row_def put_balance_def time_off_def
  ensureBalanceRecord_def getBalanceKey_def store_record_def take_days_def answer_def notification_simps js_sub_def

theorem mock_never_overdraws_witness:
  "\<exists>r. map_get (hcmBalances (snd (mock_run plain_platform sample_requests initial_mock))) ''EMP123_LOC1_VACATION'' = Some r \<and>
     mr_availableBalance r = Fin 12 \<and> mr_availableBalance r = mr_totalBalance r \<and> nonneg (mr_availableBalance r) \<and>
     map resp_status (fst (mock_run plain_platform sample_requests initial_mock)) = [200, 422]"
proof -
  let ?run = "mock_run plain_platform sample_requests initial_mock"
  have a: "map_option mr_availableBalance (map_get (hcmBalances (snd ?run)) ''EMP123_LOC1_VACATION'') = Some (Fin 12)"
    by (simp add: sample_defs sample_requests_def js_simps)
  have b: "map resp_status (fst ?run) = [200, 422]"
    by (simp add: sample_defs sample_requests_def js_simps)
  obtain r where r: "map_get (hcmBalances (snd ?run)) ''EMP123_LOC1_VACATION'' = Some r" "mr_availableBalance r = Fin 12"
    using a by auto
  have "\<forall>(readings, rq)\<in>set sample_requests. sensible rq"
    by (simp add: sample_requests_def put_days_def notification_body_def json_field_def js_truthy_def)
  from mock_never_overdraws[OF this prod.collapse[symmetric] r(1)]
  have n: "mr_availableBalance r = mr_totalBalance r" "nonneg (mr_availableBalance r)" by (rule conjunct1, rule conjunct2)
  show ?thesis by (rule exI[of _ r]) (intro conjI r b n)
qed

section \<open>The snapshot and the reconciliation\<close>

fun json_text :: "json \<Rightarrow> string" where
  "json_text (JStr s) = s"
| "json_text _ = []"

definition named :: "mock_record \<Rightarrow> bool" where
  "named r \<longleftrightarrow> mr_employeeId r = JStr (json_text (mr_employeeId r)) \<and> mr_locationId r = JStr (json_text (mr_locationId r)) \<and>
     mr_leaveType r = JStr (json_text (mr_leaveType r))"

definition hcm_of :: "mock_record \<Rightarrow> hcm_record" where
  "hcm_of r = \<lparr>h_employeeId = Some (json_text (mr_employeeId r)), h_locationId = Some (json_text (mr_locationId r)),
     h_leaveType = Some (json_text (mr_leaveType r)), h_totalBalance = mr_totalBalance r,
     h_version = (if mr_version r = [] then None else Some (mr_version r))\<rparr>"

lemma decode_record_json: "named r \<Longrightarrow> decode_record (record_json r) = Some (hcm_of r)"
  by (cases "mr_employeeId r"; cases "mr_locationId r"; cases "mr_leaveType r")
    (simp_all add: named_def record_json_def hcm_of_def json_field_def)

lemma decode_snapshot:
  "\<forall>r\<in>set rows. named r \<Longrightarrow> decode_batch (JArr (map record_json rows)) = Inr (map hcm_of rows)"
proof -
  assume "\<forall>r\<in>set rows. named r"
  then have "decode_records (map record_json rows) = Some (map hcm_of rows)"
    by (induction rows) (simp_all add: decode_record_json)
  then show ?thesis by simp
qed

text \<open>What the reconciliation does when the HCM reports \<open>d\<close> days less than the row has.\<close>

lemma reconcile_short:
  assumes "exact b" and "totalBalance b = Fin t" and "h_totalBalance rec = Fin (t - d)" and "grid (t - d)" and "grid d" and "1 / 100 < d"
  shows "hasDiscrepancy (fst (reconcile_patch now rec b) b) \<and> discrepancyAmount (fst (reconcile_patch now rec b) b) = Some (Fin d)"
proof -
  have "grid t" using assms(1,2) by (auto elim!: exactE)
  then have drift: "js_sub (h_totalBalance rec) (local_total b) = Fin (- d)"
    using js_sub_grid[OF assms(4)] assms(1-3,5) by (simp add: local_total_exact grid_def)
  have "fl (1 / 100) < d" using assms(5,6) by (simp add: tolerance_up)
  then have "\<not> js_le (js_abs (Fin (- d))) DRIFT_TOLERANCE" "\<not> js_lt DRIFT_TOLERANCE (Fin (- d))" "js_abs (Fin (- d)) = Fin d"
    using assms(6) fl_hundredth(1) by (simp_all add: DRIFT_TOLERANCE_def fl_hundredth(3))
  then show ?thesis by (simp add: reconcile_patch_def Let_def drift)
qed

text \<open>
  C27: The service and the HCM count approved days differently, so every approval surfaces as a
  discrepancy. When both books agree on the total and an approved request of more than a hundredth
  of a day is told to the HCM, the HCM takes the days off its total, while the row of the service
  moves them from pending to used and keeps its total; the next complete snapshot then reports that
  many days less than the row has, and the reconciliation flags the row with exactly the days
  approved.
\<close>

theorem approval_becomes_discrepancy:
  assumes "exact b" and "grid d" and "1 / 100 < d" and "\<not> js_lt (pendingBalance b) (Fin d)"
    and "map_get (hcmBalances m) (getBalanceKey P (JStr e) (JStr l) (JStr lt)) = Some r"
    and "mr_employeeId r = JStr e" and "mr_locationId r = JStr l" and "mr_leaveType r = JStr lt"
    and "mr_totalBalance r = totalBalance b" and "mr_availableBalance r = totalBalance b"
    and "\<forall>(k, x)\<in>set (hcmBalances m). named x" and "\<not> batchPartial (mockBehavior m)"
  shows "\<exists>recs rec. decode_batch (resp_body (fst (batch_sync
        (snd (put_balance P now (notification_body e l lt (Fin d) ''APPROVE'' i) m))))) = Inr recs \<and>
      rec \<in> set recs \<and> h_employeeId rec = Some e \<and> h_locationId rec = Some l \<and> h_leaveType rec = Some lt \<and>
      h_totalBalance rec = Fin (amount (totalBalance b) - d) \<and>
      hasDiscrepancy (fst (reconcile_patch now' rec (finalized (Fin d) b)) (finalized (Fin d) b)) \<and>
      discrepancyAmount (fst (reconcile_patch now' rec (finalized (Fin d) b)) (finalized (Fin d) b)) = Some (Fin d)"
proof -
  obtain t a p u where row: "totalBalance b = Fin t" "availableBalance b = Fin a" "pendingBalance b = Fin p"
    "usedBalance b = Fin u" "grid t" "grid a" "grid p" "grid u" "0 \<le> a" "0 \<le> p" "0 \<le> u" "a + p + u = t"
    using assms(1) by (rule exactE)
  have d: "0 < d" "d \<le> t" "\<not> js_lt (mr_availableBalance r) (Fin d)" using assms(3,4,10) row by auto
  have g: "grid (t - d)" using d row(5) assms(2) by (intro grid_diff) (auto simp: grid_def)
  have sub: "js_sub (Fin t) (Fin d) = Fin (t - d)" using js_sub_grid[OF row(5) assms(2)] g by (simp add: grid_def)
  define r' where "r' = (take_days (Fin d) r)\<lparr>mr_version := if staleVersionMode (mockBehavior m) then mr_version r else version_at P now\<rparr>"
  define m' where "m' = snd (put_balance P now (notification_body e l lt (Fin d) ''APPROVE'' i) m)"
  have m': "m' = store_record (getBalanceKey P (JStr e) (JStr l) (JStr lt)) r' m"
    using put_approve[OF assms(5) d(3)] d(1) by (simp add: m'_def r'_def)
  have r': "mr_totalBalance r' = Fin (t - d)" "named r'" "hcm_of r' = \<lparr>h_employeeId = Some e, h_locationId = Some l, h_leaveType = Some lt,
      h_totalBalance = Fin (t - d), h_version = h_version (hcm_of r')\<rparr>"
    using assms(6-9) row(1) sub by (simp_all add: r'_def take_days_def named_def hcm_of_def)
  have "\<forall>x\<in>set (map snd (hcmBalances m')). named x"
    using assms(11) r'(2) by (auto simp: m' store_record_def dest!: mem_update)
  from decode_snapshot[OF this] have dec: "decode_batch (resp_body (fst (batch_sync m'))) = Inr (map hcm_of (map snd (hcmBalances m')))"
    using assms(12) by (simp add: batch_sync_def Let_def m' store_record_def)
  have "map_get (hcmBalances m') (getBalanceKey P (JStr e) (JStr l) (JStr lt)) = Some r'" by (simp add: m' store_record_def)
  from map_get_in_set[OF this] have "hcm_of r' \<in> set (map hcm_of (map snd (hcmBalances m')))" by force
  moreover have "exact (finalized (Fin d) b)" "totalBalance (finalized (Fin d) b) = Fin t"
    using finalized_refines[OF assms(1,2) _ assms(4)] d(1) row(1) by (auto simp: finalized_def)
  note reconcile_short[OF this _ g assms(2,3), of "hcm_of r'" now']
  ultimately show ?thesis
    using dec r'(3) row(1) unfolding m'_def[symmetric] by (intro exI[of _ "map hcm_of (map snd (hcmBalances m'))"] exI[of _ "hcm_of r'"]) (metis amount.simps hcm_record.select_convs)
qed

theorem approval_becomes_discrepancy_witness:
  "\<exists>b recs rec. decode_batch (resp_body (fst (batch_sync (snd (put_balance plain_platform 9
        (notification_body ''EMP123'' ''LOC1'' ''VACATION'' (Fin 5) ''APPROVE'' ''r1'') initial_mock))))) = Inr recs \<and>
      rec \<in> set recs \<and> h_totalBalance rec = Fin 10 \<and> totalBalance b = Fin 15 \<and>
      discrepancyAmount (fst (reconcile_patch 9 rec (finalized (Fin 5) b)) (finalized (Fin 5) b)) = Some (Fin 5)"
proof -
  define b where "b = deducted (Fin 5) (new_balance 0 ''EMP123'' ''LOC1'' ''VACATION'' (Fin 15))"
  have b: "totalBalance b = Fin 15" "pendingBalance b = Fin 5" "exact b"
    by (simp_all add: b_def deducted_def new_balance_def exact_def on_grid_def sound_def account_of_def js_sub_def js_simps)
  have "\<exists>recs rec. decode_batch (resp_body (fst (batch_sync (snd (put_balance plain_platform 9
        (notification_body ''EMP123'' ''LOC1'' ''VACATION'' (Fin 5) ''APPROVE'' ''r1'') initial_mock))))) = Inr recs \<and>
      rec \<in> set recs \<and> h_employeeId rec = Some ''EMP123'' \<and> h_locationId rec = Some ''LOC1'' \<and> h_leaveType rec = Some ''VACATION'' \<and>
      h_totalBalance rec = Fin (amount (totalBalance b) - 5) \<and>
      hasDiscrepancy (fst (reconcile_patch 9 rec (finalized (Fin 5) b)) (finalized (Fin 5) b)) \<and>
      discrepancyAmount (fst (reconcile_patch 9 rec (finalized (Fin 5) b)) (finalized (Fin 5) b)) = Some (Fin 5)"
    by (rule approval_becomes_discrepancy[where r = "mock_row (JStr ''EMP123'') (JStr ''LOC1'') (JStr ''VACATION'') 15"])
      (simp_all add: b initial_mock_def mock_row_def getBalanceKey_def named_def default_behavior_def)
  with b(1) show ?thesis by auto
qed

text \<open>
  Three things the HCM does not guard against: different employees and locations whose names contain
  underscores can share a record; an unreadable number of days makes a balance \<open>NaN\<close>, after which no
  request is ever refused; and a notification that is sent again, with the same reference, is counted
  again.
\<close>

lemma key_collision: "getBalanceKey P (JStr ''A_B'') (JStr ''C'') lt = getBalanceKey P (JStr ''A'') (JStr ''B_C'') lt"
  by (simp add: getBalanceKey_def)

lemma unreadable_days_poison:
  "map_option mr_availableBalance (map_get (hcmBalances (snd (put_balance P now (JObj [(''employeeId'', JStr ''EMP123''),
     (''locationId'', JStr ''LOC1''), (''leaveType'', JStr ''SICK''), (''daysRequested'', JStr ''x''), (''action'', JStr ''APPROVE'')])
     initial_mock))) ''EMP123_LOC1_SICK'') = Some NaN"
  by (simp add: sample_defs js_parseFloat_def is_space_def is_digit_def code_def js_simps)

lemma repeated_approval:
  "map_option mr_availableBalance (map_get (hcmBalances (snd (put_balance P now body (snd (put_balance P now body initial_mock)))))
     ''EMP123_LOC1_SICK'') = Some (Fin 2)"
  if "body = notification_body ''EMP123'' ''LOC1'' ''SICK'' (Fin 4) ''APPROVE'' ''r1''"
  using that by (simp add: sample_defs js_simps)

end
