(* ===== verification/Hcm_Delivery.thy ===== *)
theory Hcm_Delivery
  imports Mock_Hcm Hcm_Service
begin

text \<open>
  The client and the HCM together: \<open>HcmService\<close> (\<open>hcm.service.js\<close>) with its retries and its breaker on
  one end of the wire, the HCM of \<open>src/mock-hcm/src/server.js\<close> on the other. The HTTP client between
  them is third-party code; what the program relies on of it is the interface \<open>hcm_link\<close>: a request
  reaches the HCM, a 2xx answer yields its body, any other answer rejects with its status, and a
  request whose answer takes longer than the client's timeout rejects without a response while the
  HCM goes on to handle it. What this says of notifications: they are delivered at least once.
\<close>

section \<open>The wire\<close>

text \<open>What a value becomes when it is sent as JSON and parsed again.\<close>

fun json_wire :: "json \<Rightarrow> json" where
  "json_wire (JNum (Fin q)) = JNum (Fin q)"
| "json_wire (JNum x) = JNull"
| "json_wire (JArr xs) = JArr (map (\<lambda>x. if x = JUndef then JNull else json_wire x) xs)"
| "json_wire (JObj ps) = JObj (filter (\<lambda>p. snd p \<noteq> JUndef) (map (map_prod id json_wire) ps))"
| "json_wire j = j"

text \<open>The route a request of \<open>HcmService\<close> takes; identifiers are path segments without special characters.\<close>

fun route :: "hcm_request \<Rightarrow> mock_request" where
  "route (GetBalance e l lt) = GetBalanceRq e l lt"
| "route (Validate e l lt days) = ValidateRq (json_wire (JObj [(''employeeId'', JStr e), (''locationId'', JStr l),
     (''leaveType'', JStr lt), (''daysRequested'', JNum days)]))"
| "route (PutBalance e l lt days action i) = PutBalanceRq (json_wire (notification_body e l lt days action i))"
| "route (BatchSync l) = BatchSyncRq"

declare route.simps [simp del]

text \<open>The HCM, and the requests it still holds although the client has given up waiting for them.\<close>

record wire =
  server :: mock_hcm
  held_back :: "mock_request list"

definition mock_probability :: "string \<Rightarrow> string option \<Rightarrow> js_num" where
  "mock_probability dflt v = js_parseFloat (case v of None \<Rightarrow> dflt | Some s \<Rightarrow> if s = [] then dflt else s)"

definition axios_answer :: "http_response \<Rightarrow> js_error + json" where
  "axios_answer a =
     (if 200 \<le> resp_status a \<and> resp_status a < 300 then Inr (json_wire (resp_body a))
      else Inl \<lparr>err_code = Some (if 400 \<le> resp_status a \<and> resp_status a < 500 then ''ERR_BAD_REQUEST'' else ''ERR_BAD_RESPONSE''),
        err_status = Some (resp_status a)\<rparr>)"

text \<open>
  One attempt: the random draws of the HCM, its clock and the milliseconds the exchange takes are
  whatever they are.
\<close>

definition exchange ::
  "platform \<Rightarrow> js_num \<Rightarrow> js_num \<Rightarrow> int \<Rightarrow> hcm_request \<Rightarrow> wire \<Rightarrow> (js_error + json) \<times> int \<Rightarrow> wire \<Rightarrow> bool" where
  "exchange P timeoutProbability flakiness clientTimeout rq w outcome w' \<longleftrightarrow>
     (\<exists>rand rand' readings ms. ms < clientTimeout \<and>
       (case simulateInstability timeoutProbability flakiness rand rand' (server w) of
          (Proceed delay, m) \<Rightarrow>
            if js_le (Fin (of_int clientTimeout)) delay
            then outcome = (Inl \<lparr>err_code = Some ''ECONNABORTED'', err_status = None\<rparr>, clientTimeout) \<and>
              w' = w\<lparr>server := m, held_back := held_back w @ [route rq]\<rparr>
            else (case handle P readings (route rq) m of (a, m') \<Rightarrow>
              outcome = (axios_answer a, ms) \<and> w' = w\<lparr>server := m'\<rparr>)
        | (Refuse a, m) \<Rightarrow> outcome = (axios_answer a, ms) \<and> w' = w\<lparr>server := m\<rparr>))"

locale hcm_link =
  fixes P :: platform and timeoutProbability flakiness :: js_num and clientTimeout :: int and http :: "wire http"
  assumes exchanged: "http rq w = (outcome, w') \<Longrightarrow> exchange P timeoutProbability flakiness clientTimeout rq w outcome w'"

text \<open>In the end the HCM handles what it held back, each request at its own time.\<close>

fun settle :: "platform \<Rightarrow> (nat \<Rightarrow> int) \<Rightarrow> mock_request list \<Rightarrow> mock_hcm \<Rightarrow> mock_hcm" where
  "settle P readings [] m = m"
| "settle P readings (rq # rqs) m = settle P (readings \<circ> Suc) rqs (snd (handle P readings rq m))"

definition final_hcm :: "platform \<Rightarrow> (nat \<Rightarrow> int) \<Rightarrow> wire \<Rightarrow> mock_hcm" where
  "final_hcm P readings w = settle P readings (held_back w) (server w)"

section \<open>Days taken off a record\<close>

definition days_left :: "string \<Rightarrow> mock_hcm \<Rightarrow> js_num option" where
  "days_left key m = map_option mr_availableBalance (map_get (hcmBalances m) key)"

lemma days_leftE:
  assumes "days_left key m = Some x"
  obtains r where "map_get (hcmBalances m) key = Some r" and "mr_availableBalance r = x"
  using assms by (auto simp: days_left_def)

lemma instability_keeps_days: "simulateInstability tp fk a b m = (p, m') \<Longrightarrow> days_left key m' = days_left key m"
  by (auto simp: simulateInstability_def Let_def days_left_def split: if_splits)

lemma instability_refuses: "simulateInstability tp fk a b m = (Refuse r, m') \<Longrightarrow> resp_status r = 503"
  by (auto simp: simulateInstability_def Let_def answer_def split: if_splits)

lemma route_put: "route (PutBalance e l lt (Fin d) action i) = PutBalanceRq (notification_body e l lt (Fin d) action i)"
  by (simp add: route.simps notification_body_def)

text \<open>Multiples of an amount that are small enough stay on the grid.\<close>

lemma grid_take: "grid a \<Longrightarrow> grid d \<Longrightarrow> 0 \<le> d \<Longrightarrow> d \<le> a \<Longrightarrow> grid (a - d)"
  by (intro grid_diff) (auto simp: grid_def)

lemma grid_times:
  assumes "grid d" and "0 \<le> d" and "of_nat c * d \<le> a" and "grid a"
  shows "grid (of_nat c * d)"
proof -
  obtain k where "d = of_int k / 1024" using assms(1) by (rule gridE)
  then have "of_nat c * d = of_int (int c * k) / 1024" by simp
  moreover from assms(2,4) have "0 \<le> of_nat c * d" "\<bar>a\<bar> \<le> 2 ^ 42" by (simp_all add: grid_def)
  then have "\<bar>of_nat c * d\<bar> \<le> 2 ^ 42" using assms(3) by linarith
  ultimately show ?thesis by (rule gridI)
qed

lemma put_takes_days:
  assumes "days_left (getBalanceKey P (JStr e) (JStr l) (JStr lt)) m = Some (Fin a)" and "grid a" and "grid d" and "0 < d" and "d \<le> a"
    and "handle P readings (route (PutBalance e l lt (Fin d) ''APPROVE'' i)) m = (x, m')"
  shows "days_left (getBalanceKey P (JStr e) (JStr l) (JStr lt)) m' = Some (Fin (a - d))"
    and "\<exists>body. axios_answer x = Inr body \<and> body_field body ''success'' = JBool True"
proof -
  obtain r where r: "map_get (hcmBalances m) (getBalanceKey P (JStr e) (JStr l) (JStr lt)) = Some r" "mr_availableBalance r = Fin a"
    using assms(1) by (rule days_leftE)
  have "js_sub (Fin a) (Fin d) = Fin (a - d)"
    using js_sub_grid[OF assms(2,3)] grid_take[OF assms(2,3)] assms(4,5) by (simp add: grid_def)
  moreover have "x = fst (put_balance P (readings 0) (notification_body e l lt (Fin d) ''APPROVE'' i) m)"
    "m' = snd (put_balance P (readings 0) (notification_body e l lt (Fin d) ''APPROVE'' i) m)"
    using assms(6) by (simp_all add: route_put)
  moreover have "\<not> js_lt (mr_availableBalance r) (Fin d)" using r(2) assms(5) by simp
  note put_approve[OF r(1) this, of "readings 0" i]
  ultimately show "days_left (getBalanceKey P (JStr e) (JStr l) (JStr lt)) m' = Some (Fin (a - d))"
    using r(2) assms(4) by (simp add: days_left_def store_record_def take_days_def)
  show "\<exists>body. axios_answer x = Inr body \<and> body_field body ''success'' = JBool True"
    using assms(4-6) r
    by (auto simp: route_put put_balance_def ensureBalanceRecord_def notification_simps axios_answer_def answer_def take_days_def)
qed

text \<open>
  The HCM has taken an approval of \<open>d\<close> days off its record \<open>c\<close> times, and holds back \<open>h\<close> more copies of it.
\<close>

definition deducted_times :: "string \<Rightarrow> mock_request \<Rightarrow> rat \<Rightarrow> rat \<Rightarrow> nat \<Rightarrow> nat \<Rightarrow> wire \<Rightarrow> bool" where
  "deducted_times key rq a d c h w \<longleftrightarrow>
     held_back w = replicate h rq \<and> days_left key (server w) = Some (Fin (a - of_nat c * d))"

lemma settle_days:
  assumes "days_left (getBalanceKey P (JStr e) (JStr l) (JStr lt)) m = Some (Fin a)" and "grid a" and "grid d" and "0 < d"
    and "of_nat h * d \<le> a"
  shows "days_left (getBalanceKey P (JStr e) (JStr l) (JStr lt))
     (settle P readings (replicate h (route (PutBalance e l lt (Fin d) ''APPROVE'' i))) m) = Some (Fin (a - of_nat h * d))"
  using assms
proof (induction h arbitrary: a m readings)
  case (Suc h)
  let ?rq = "route (PutBalance e l lt (Fin d) ''APPROVE'' i)"
  obtain x m' where m': "handle P readings ?rq m = (x, m')" by fastforce
  have le: "of_nat h * d \<le> a - d" "0 \<le> of_nat h * d" using Suc.prems(4,5) by (simp_all add: algebra_simps)
  have "days_left (getBalanceKey P (JStr e) (JStr l) (JStr lt)) m' = Some (Fin (a - d))"
    using put_takes_days(1)[OF Suc.prems(1-4) _ m'] le by simp
  moreover have "grid (a - d)" using grid_take[OF Suc.prems(2,3)] Suc.prems(4) le by simp
  ultimately show ?case using Suc.IH[of m' "a - d"] Suc.prems(3,4) le(1) m' by (simp add: algebra_simps)
qed simp

section \<open>Attempts\<close>

context hcm_link
begin

text \<open>
  One attempt of a notification, for a record with enough days left: refused by the front of the HCM,
  held back, or counted and answered.
\<close>

lemma attempt_cases:
  assumes "http (PutBalance e l lt (Fin d) ''APPROVE'' i) w = ((r, ms), w')" and "grid a" and "grid d" and "0 < d"
    and "deducted_times (getBalanceKey P (JStr e) (JStr l) (JStr lt)) (route (PutBalance e l lt (Fin d) ''APPROVE'' i)) a d c h w"
    and "of_nat (c + 1) * d \<le> a"
  obtains (refused) err where "r = Inl err" and "ms < clientTimeout"
      and "deducted_times (getBalanceKey P (JStr e) (JStr l) (JStr lt)) (route (PutBalance e l lt (Fin d) ''APPROVE'' i)) a d c h w'"
  | (late) err where "r = Inl err" and "ms = clientTimeout"
      and "deducted_times (getBalanceKey P (JStr e) (JStr l) (JStr lt)) (route (PutBalance e l lt (Fin d) ''APPROVE'' i)) a d c (h + 1) w'"
  | (counted) body where "r = Inr body" and "body_field body ''success'' = JBool True" and "ms < clientTimeout"
      and "deducted_times (getBalanceKey P (JStr e) (JStr l) (JStr lt)) (route (PutBalance e l lt (Fin d) ''APPROVE'' i)) a d (c + 1) h w'"
proof -
  let ?key = "getBalanceKey P (JStr e) (JStr l) (JStr lt)" and ?rq = "PutBalance e l lt (Fin d) ''APPROVE'' i"
  from exchanged[OF assms(1)] show ?thesis
    unfolding exchange_def
  proof (elim exE conjE, goal_cases)
    case (1 u u' readings ms')
    note ms' = 1(1)
    obtain p m where p: "simulateInstability timeoutProbability flakiness u u' (server w) = (p, m)" by fastforce
    note x = 1(2)[unfolded p prod.case]
    have m: "days_left ?key m = Some (Fin (a - of_nat c * d))" "held_back w = replicate h (route ?rq)"
      using assms(5) instability_keeps_days[OF p] by (simp_all add: deducted_times_def)
    show ?thesis
    proof (cases p)
      case (Refuse b)
      with x p have "r = axios_answer b" "resp_status b = 503" "ms = ms'" "w' = w\<lparr>server := m\<rparr>"
        by (auto dest: instability_refuses)
      then show ?thesis using m ms' by (intro refused) (simp_all add: axios_answer_def deducted_times_def)
    next
      case (Proceed delay)
      show ?thesis
      proof (cases "js_le (Fin (of_int clientTimeout)) delay")
        case True
        then show ?thesis using x Proceed m
          by (intro late) (auto simp: deducted_times_def replicate_append_same)
      next
        case False
        obtain b m' where b: "handle P readings (route ?rq) m = (b, m')" by fastforce
        have le: "d \<le> a - of_nat c * d" "0 \<le> of_nat c * d" using assms(4,6) by (simp_all add: algebra_simps)
        have "grid (a - of_nat c * d)"
          using assms(2-4) le by (intro grid_take grid_times[of d c a]) simp_all
        note put_takes_days[OF m(1) this assms(3,4) le(1) b]
        then show ?thesis using x Proceed False b m(2) ms'
          by (auto intro!: counted simp: deducted_times_def algebra_simps)
      qed
    qed
  qed
qed

lemma breaker_attempt:
  assumes "breaker_call cfg http (PutBalance e l lt (Fin d) ''APPROVE'' i) s = (r, t)" and "clientTimeout < timeoutMs (breakerConfig cfg)"
    and "grid a" and "grid d" and "0 < d" and "d \<le> a"
    and "deducted_times (getBalanceKey P (JStr e) (JStr l) (JStr lt)) (route (PutBalance e l lt (Fin d) ''APPROVE'' i)) a d 0 h (net s)"
  shows "\<exists>c h'. deducted_times (getBalanceKey P (JStr e) (JStr l) (JStr lt)) (route (PutBalance e l lt (Fin d) ''APPROVE'' i)) a d c h' (net t) \<and>
    h \<le> h' \<and> c + h' \<le> h + 1 \<and>
    (case r of Inl err \<Rightarrow> c = 0 | Inr body \<Rightarrow> c = 1 \<and> body_field body ''success'' = JBool True)"
proof (cases "admit (breakerConfig cfg) (time_now s) (cb s)")
  case (Inl left)
  from breaker_call_open[OF this, of http] assms(1,7) show ?thesis by (intro exI[of _ 0] exI[of _ h]) auto
next
  case (Inr b)
  obtain r' ms w where x: "http (PutBalance e l lt (Fin d) ''APPROVE'' i) (net s) = ((r', ms), w)"
    by (metis surj_pair)
  have rt: "net t = w" "case r' of Inl err \<Rightarrow> \<exists>err. r = Inl err | Inr body \<Rightarrow> r = Inr body"
    if "ms < timeoutMs (breakerConfig cfg)"
    using assms(1) Inr x that
    by (auto simp: breaker_call_def catchM_def call_def withTimeout_def throwM_def Let_def split: sum.splits prod.splits)
  from assms(6) have "of_nat (0 + 1) * d \<le> a" by simp
  from x assms(3-5,7) this show ?thesis
  proof (cases rule: attempt_cases)
    case (refused err)
    with rt assms(2) show ?thesis by (intro exI[of _ 0] exI[of _ h]) auto
  next
    case (late err)
    with rt assms(2) show ?thesis by (intro exI[of _ 0] exI[of _ "h + 1"]) auto
  next
    case (counted body)
    with rt assms(2) show ?thesis by (intro exI[of _ 1] exI[of _ h]) auto
  qed
qed

lemma retried_notification:
  assumes "retry_run (\<lambda>_. breaker_call cfg http (PutBalance e l lt (Fin d) ''APPROVE'' i)) sleep n k s m r t"
    and "\<And>k s. net (sleep k s) = net s" and "clientTimeout < timeoutMs (breakerConfig cfg)"
    and "grid a" and "grid d" and "0 < d" and "d \<le> a"
    and "deducted_times (getBalanceKey P (JStr e) (JStr l) (JStr lt)) (route (PutBalance e l lt (Fin d) ''APPROVE'' i)) a d 0 h (net s)"
  shows "\<exists>c h'. deducted_times (getBalanceKey P (JStr e) (JStr l) (JStr lt)) (route (PutBalance e l lt (Fin d) ''APPROVE'' i)) a d c h' (net t) \<and>
    h \<le> h' \<and> c + h' \<le> h + m \<and>
    (case r of Inl err \<Rightarrow> c = 0 | Inr body \<Rightarrow> c = 1 \<and> body_field body ''success'' = JBool True)"
  using assms(1,8)
proof (induction arbitrary: h rule: retry_run.induct)
  case (ok k s x t)
  from breaker_attempt[OF ok(1) assms(3-7) ok(2)] show ?case by simp
next
  case (give_up k s err t)
  from breaker_attempt[OF give_up(1) assms(3-7) give_up(3)] show ?case by simp
next
  case (again k s err t m r u)
  from breaker_attempt[OF again(1) assms(3-7) again.prems] obtain h' where
    h': "deducted_times (getBalanceKey P (JStr e) (JStr l) (JStr lt)) (route (PutBalance e l lt (Fin d) ''APPROVE'' i)) a d 0 h' (net (sleep k t))"
      "h \<le> h'" "h' \<le> h + 1" by (auto simp: assms(2))
  from again.IH[OF h'(1)] obtain c h'' where *: "deducted_times (getBalanceKey P (JStr e) (JStr l) (JStr lt)) (route (PutBalance e l lt (Fin d) ''APPROVE'' i)) a d c h'' (net u)" "h' \<le> h''" "c + h'' \<le> h' + m"
    "case r of Inl err \<Rightarrow> c = 0 | Inr body \<Rightarrow> c = 1 \<and> body_field body ''success'' = JBool True" by blast
  with h'(2,3) have "h \<le> h''" "c + h'' \<le> h + (m + 1)" by linarith+
  with * show ?case by blast
qed

end

text \<open>
  C26: An approval that the service tells the HCM is counted at least once when the service is told of
  success, and once more for every answer that came too late. Over any run of retries, breaker
  decisions, refusals and late answers: the call returns; afterwards, when the HCM has handled what
  it held back, its record is short of exactly the days of the approval times the number of late
  attempts, and once more if the service got an answer; both together are at most the configured
  number of attempts. The record has that many days, and the HCM answers or holds back what it is
  sent (the link law).
\<close>

theorem notification_counts:
  fixes a d :: rat
  assumes "hcm_link P timeoutProbability flakiness clientTimeout http" and "clientTimeout < timeoutMs (breakerConfig cfg)"
    and "retryMaxAttempts cfg = Some n" and "1 \<le> n" and "\<And>k s. net (sleep k s) = net s"
    and "held_back (net s) = []" and "days_left (getBalanceKey P (JStr e) (JStr l) (JStr lt)) (server (net s)) = Some (Fin a)"
    and "grid a" and "grid d" and "0 < d" and "of_int n * d \<le> a"
  shows "\<exists>body t late answered. hcm_notifyApproval cfg http sleep e l lt (Fin d) i s = (Inr body, t) \<and>
    (if answered then body_field body ''success'' = JBool True else body = JNull) \<and>
    late = length (held_back (net t)) \<and> int (late + of_bool answered) \<le> n \<and>
    days_left (getBalanceKey P (JStr e) (JStr l) (JStr lt)) (final_hcm P readings (net t)) =
      Some (Fin (a - of_nat (late + of_bool answered) * d))"
proof -
  let ?rq = "PutBalance e l lt (Fin d) ''APPROVE'' i" and ?key = "getBalanceKey P (JStr e) (JStr l) (JStr lt)"
  obtain k where k: "n = int k" "1 \<le> k" using assms(4) by (intro that[of "nat n"]) auto
  have "1 * d \<le> of_nat k * d" using k(2) assms(10) by (intro mult_right_mono) auto
  then have d: "d \<le> a" using assms(11) k(1) by simp
  have start: "deducted_times ?key (route ?rq) a d 0 0 (net s)" using assms(6,7) by (simp add: deducted_times_def)
  obtain r t where w: "withRetry (Some (int k)) (\<lambda>_. breaker_call cfg http ?rq) sleep s = (r, t)" by fastforce
  from withRetry_run[OF k(2) w] obtain m r' where m: "retry_run (\<lambda>_. breaker_call cfg http ?rq) sleep k 1 s m r' t" "m \<le> k"
    and r: "case r' of Inl err \<Rightarrow> r = Inl (Some err) | Inr x \<Rightarrow> r = Inr x" by blast
  from hcm_link.retried_notification[OF assms(1) m(1) assms(5,2,8,9,10) d start] obtain c h where
    t: "deducted_times ?key (route ?rq) a d c h (net t)" "c + h \<le> m"
    and c: "case r' of Inl err \<Rightarrow> c = 0 | Inr body \<Rightarrow> c = 1 \<and> body_field body ''success'' = JBool True" by auto
  obtain body where ran: "hcm_notifyApproval cfg http sleep e l lt (Fin d) i s = (Inr body, t)"
    and body: "if c = 1 then body_field body ''success'' = JBool True else body = JNull" and c': "c = of_bool (c = 1)"
    using w r c assms(3) k(1)
    by (cases r') (auto simp: hcm_notifyApproval_def callWithResilience_def catchM_def)
  have "of_nat (c + h) * d \<le> of_nat k * d" using t(2) m(2) assms(10) by (intro mult_right_mono) auto
  then have le: "of_nat (c + h) * d \<le> a" using assms(11) k(1) by simp
  moreover have "0 \<le> of_nat c * d" "0 \<le> of_nat h * d" using assms(10) by simp_all
  moreover have "of_nat (c + h) * d = of_nat c * d + of_nat h * d" by (simp add: algebra_simps)
  ultimately have "of_nat c * d \<le> a" "of_nat h * d \<le> a - of_nat c * d" "0 \<le> of_nat c * d" by linarith+
  then have "days_left ?key (final_hcm P readings (net t)) = Some (Fin (a - of_nat c * d - of_nat h * d))"
    using t(1) assms(8-10) grid_take[OF assms(8) grid_times[OF assms(9)]]
    by (auto simp: final_hcm_def deducted_times_def intro!: settle_days)
  then show ?thesis
    using ran body c' t m(2) k(1)
    by (intro exI[of _ body] exI[of _ t] exI[of _ h] exI[of _ "c = 1"]) (auto simp: deducted_times_def algebra_simps)
qed

text \<open>
  A link on which the law holds: the HCM with its default probabilities on a day when its draws come
  out in the middle and its clock stands still, and a client that waits five seconds.
\<close>

definition sample_http :: "wire http" where
  "sample_http rq w =
     (case simulateInstability (mock_probability ''0.05'' None) (mock_probability ''0.1'' None) (Fin (1/2)) (Fin (1/2)) (server w) of
        (Proceed delay, m) \<Rightarrow>
          if js_le (Fin 5000) delay
          then ((Inl \<lparr>err_code = Some ''ECONNABORTED'', err_status = None\<rparr>, 5000), w\<lparr>server := m, held_back := held_back w @ [route rq]\<rparr>)
          else (case handle plain_platform (\<lambda>_. 0) (route rq) m of (a, m') \<Rightarrow> ((axios_answer a, 125), w\<lparr>server := m'\<rparr>))
      | (Refuse a, m) \<Rightarrow> ((axios_answer a, 1), w\<lparr>server := m\<rparr>))"

interpretation sample_link: hcm_link plain_platform "mock_probability ''0.05'' None" "mock_probability ''0.1'' None" 5000 sample_http
proof (unfold_locales, goal_cases)
  case (1 rq w outcome w')
  then show ?case
    unfolding exchange_def sample_http_def
    by (intro exI[of _ "Fin (1/2)"] exI[of _ "\<lambda>_. 0"] exI[of _ "if snd outcome = 1 then 1 else 125"])
      (auto split: prod.splits passage.splits if_splits)
qed

text \<open>One forced timeout, then an HCM that works.\<close>

definition late_once :: "wire cb_world" where
  "late_once = \<lparr>time_now = 1000, cb = new_breaker, net = \<lparr>server =
     initial_mock\<lparr>mockBehavior := default_behavior\<lparr>forcedFailureMode := Some ''timeout'', forcedFailureRemaining := 1\<rparr>\<rparr>, held_back = []\<rparr>\<rparr>"

theorem notification_counts_witness:
  "\<exists>body t late answered. hcm_notifyApproval default_config sample_http (\<lambda>_ s. s) ''EMP123'' ''LOC1'' ''VACATION'' (Fin 5) ''r1'' late_once
       = (Inr body, t) \<and>
     (if answered then body_field body ''success'' = JBool True else body = JNull) \<and>
     late = length (held_back (net t)) \<and> int (late + of_bool answered) \<le> 3 \<and>
     days_left ''EMP123_LOC1_VACATION'' (final_hcm plain_platform (\<lambda>_. 0) (net t)) = Some (Fin (15 - of_nat (late + of_bool answered) * 5))"
  using notification_counts[OF sample_link.hcm_link_axioms, of default_config 3 "\<lambda>_ s. s" late_once "''EMP123''" "''LOC1''" "''VACATION''" 15 5
      "''r1''" "\<lambda>_. 0"]
  by (simp add: default_config late_once_def initial_mock_def days_left_def getBalanceKey_def mock_row_def)

text \<open>In that run the approval is counted twice: five days are approved, and ten are gone.\<close>

lemma sample_draws:
  "\<not> js_lt (Fin (1/2)) (mock_probability ''0.05'' None)"
  "\<not> js_lt (Fin (1/2)) (js_add (mock_probability ''0.05'' None) (mock_probability ''0.1'' None))"
  "js_add (Fin 50) (js_mul (Fin (1/2)) (Fin 150)) = Fin 125"
  by code_simp+

lemma late_answer_counts_twice:
  "\<exists>body t. hcm_notifyApproval default_config sample_http (\<lambda>_ s. s) ''EMP123'' ''LOC1'' ''VACATION'' (Fin 5) ''r1'' late_once = (Inr body, t) \<and>
     body_field body ''success'' = JBool True \<and>
     days_left ''EMP123_LOC1_VACATION'' (final_hcm plain_platform (\<lambda>_. 0) (net t)) = Some (Fin 5)"
proof -
  let ?rq = "PutBalance ''EMP123'' ''LOC1'' ''VACATION'' (Fin 5) ''APPROVE'' ''r1''"
  let ?m = "initial_mock\<lparr>mockBehavior := default_behavior\<lparr>forcedFailureMode := Some ''timeout'', forcedFailureRemaining := 0\<rparr>\<rparr>"
  have key: "getBalanceKey plain_platform (JStr ''EMP123'') (JStr ''LOC1'') (JStr ''VACATION'') = ''EMP123_LOC1_VACATION''"
    by (simp add: getBalanceKey_def)
  note take = put_takes_days[of plain_platform "''EMP123''" "''LOC1''" "''VACATION''", unfolded key]
  obtain x m' where x: "handle plain_platform (\<lambda>_. 0) (route ?rq) ?m = (x, m')" by fastforce
  have "days_left ''EMP123_LOC1_VACATION'' ?m = Some (Fin 15)" by (simp add: days_left_def initial_mock_def mock_row_def)
  from take[OF this _ _ _ _ x] obtain body where m': "days_left ''EMP123_LOC1_VACATION'' m' = Some (Fin 10)"
    and body: "axios_answer x = Inr body" "body_field body ''success'' = JBool True" by auto
  have first: "sample_http ?rq (net late_once) = ((Inl \<lparr>err_code = Some ''ECONNABORTED'', err_status = None\<rparr>, 5000),
      \<lparr>server = ?m, held_back = [route ?rq]\<rparr>)"
    by (simp add: sample_http_def late_once_def simulateInstability_def default_behavior_def)
  have second: "sample_http ?rq \<lparr>server = ?m, held_back = [route ?rq]\<rparr> = ((Inr body, 125), \<lparr>server = m', held_back = [route ?rq]\<rparr>)"
    using sample_draws x body(1) by (simp add: sample_http_def simulateInstability_def)
  obtain y m'' where y: "handle plain_platform (\<lambda>_. 0) (route ?rq) m' = (y, m'')" by fastforce
  from take(1)[OF m' _ _ _ _ y] have "days_left ''EMP123_LOC1_VACATION'' m'' = Some (Fin 5)" by simp
  then show ?thesis
    using first second body(2) y unfolding hcm_notifyApproval_def callWithResilience_def default_config withRetry_def
    by (simp add: retry_from.simps[of _ _ _ "Suc 0"] retry_from.simps[of _ _ _ "Suc (Suc 0)"] catchM_def breaker_call_def call_def
        admit_def new_breaker_def withTimeout_def throwM_def isRetryable_def onFailure_def reaches_def late_once_def
        final_hcm_def comp_def)
qed

end
