(* ===== verification/Unordered_Dates.thy ===== *)
theory Unordered_Dates
  imports Concrete_Runs
begin

text \<open>
  A gap in the input checks of \<open>createRequest\<close> (\<open>src/src/modules/timeoff/timeoff.service.js\<close>): the order
  of the two dates is compared on \<open>Date\<close> objects, and a comparison with an invalid date is false, so
  an end date that does not exist passes whatever it is. The number of days and the overlap test read
  the same text with \<open>Date.UTC\<close>, which rolls impossible days over: day 0 of January is the last of
  December. The request of this file begins on the 7th and ends, by that reading, a week earlier; it
  is accepted for one day, and its range overlaps no other request, not even one for the same day.
\<close>

definition unordered_dto :: create_dto where
  "unordered_dto = sample_dto\<lparr>d_endDate := ''2030-01-00''\<rparr>"

lemma unordered_end: "midnight (\<lambda>_. None) ''2030-01-00'' = None"
  by code_simp

lemma unordered_hash: "hashObject (plat sample_env) (dto_json unordered_dto) = Some ''h''"
  by code_simp

lemma unordered_parts: "component (js_split CHR ''-'' ''2030-01-00'') 0 = Fin 2030"
  "component (js_split CHR ''-'' ''2030-01-00'') 1 = Fin 1" "component (js_split CHR ''-'' ''2030-01-00'') 2 = Fin 0"
proof -
  have parts: "js_split CHR ''-'' ''2030-01-00'' = [dec_string 4 2030, dec_string 2 1, dec_string 2 0]" by code_simp
  show "component (js_split CHR ''-'' ''2030-01-00'') 0 = Fin 2030"
    "component (js_split CHR ''-'' ''2030-01-00'') 1 = Fin 1" "component (js_split CHR ''-'' ''2030-01-00'') 2 = Fin 0"
    unfolding parts component_def by (simp_all add: js_Number_dec_string del: dec_string.simps)
qed

lemma unordered_day: "utc_of_string ''2030-01-00'' = Some (21914 * ms_per_day)"
proof -
  have "make_day 2030 0 0 = Some 21914" "time_clip (21914 * ms_per_day) = Some (21914 * ms_per_day)" by code_simp+
  then show ?thesis by (simp add: utc_of_string_def unordered_parts[simplified] unordered_parts js_sub_def js_simps date_utc_def)
qed

lemma unordered_days: "calculateDaysRequested ''2030-01-07'' ''2030-01-00'' = Fin 1"
  using sample_days unordered_day by (simp add: calculateDaysRequested_def ms_per_day_def)

lemma unordered_overlaps_nothing: "\<not> datesOverlap ''2030-01-07'' ''2030-01-09'' ''2030-01-07'' ''2030-01-00''"
  using sample_days unordered_day by (simp add: datesOverlap_def ms_per_day_def)

text \<open>The request is accepted on the sample ledger and stored as it came.\<close>

lemma unordered_dates_accepted:
  "\<exists>v t. createRequest mem_orm sample_env unordered_dto (Some ''k1'') (node_of start_tables) = (Inr v, t) \<and>
     map daysRequested (requests (tables t)) = [Fin 1] \<and> map startDate (requests (tables t)) = [''2030-01-07''] \<and>
     map endDate (requests (tables t)) = [''2030-01-00'']"
proof -
  have sel: "d_employeeId unordered_dto = ''E1''" "d_locationId unordered_dto = ''L1''" "d_leaveType unordered_dto = ''VACATION''"
    "d_startDate unordered_dto = ''2030-01-07''" "d_endDate unordered_dto = ''2030-01-00''" "d_notes unordered_dto = None"
    by (simp_all add: unordered_dto_def sample_dto_def)
  show ?thesis
    using sample_not_past unordered_end unordered_hash unordered_days
    by (simp add: createRequest_def sample_sel sel)
      (simp add: run_simps sel start_tables_def checkIdempotency_def create_locked_def runCreateTransactionWithRetry_def
        retry_attempts_step create_tx_def lockEmployeeBalances_def assertNoOverlap_def atomicDeduct_def deducted_def
        new_balance_def new_request_def)
qed

end
