(* ===== verification/Bootstrap.thy ===== *)
theory Bootstrap
  imports Hcm_Service
begin

text \<open>
  \<open>src/src/main.js\<close> and the database path of \<open>src/src/app.module.js\<close>: what the program computes from its
  environment and the calls it makes before it listens. The framework that is configured with them (NestJS, helmet,
  the rate limiter) is third-party code and not modelled.
\<close>

section \<open>Settings\<close>

text \<open>\<open>process.env.X || dflt\<close>: an empty value counts as absent.\<close>

definition env_or :: "string \<Rightarrow> string option \<Rightarrow> string" where
  "env_or dflt v = (case v of None \<Rightarrow> dflt | Some s \<Rightarrow> if s = [] then dflt else s)"

definition corsOrigins :: "string option \<Rightarrow> string list" where
  "corsOrigins v = filter (\<lambda>origin. origin \<noteq> []) (map trim (js_split CHR '','' (env_or [] v)))"

text \<open>The option \<open>origin\<close>: a list of allowed origins, or \<open>true\<close> (\<open>None\<close>), which allows every origin.\<close>

definition cors_origin :: "string option \<Rightarrow> string list option" where
  "cors_origin v = (let origins = corsOrigins v in if 0 < length origins then Some origins else None)"

record rate_limit =
  rl_windowMs :: "int option"
  rl_max :: "int option"
  rl_standardHeaders :: bool
  rl_legacyHeaders :: bool
  rl_message :: "(string \<times> string) list"

text \<open>No limiter is installed in tests; a number that cannot be parsed is \<open>NaN\<close>, here \<open>None\<close>.\<close>

definition rate_limit_options :: "string option \<Rightarrow> string option \<Rightarrow> string option \<Rightarrow> rate_limit option" where
  "rate_limit_options nodeEnv window maxRequests =
     (if nodeEnv = Some ''test'' then None
      else Some \<lparr>rl_windowMs = env_int ''60000'' window, rl_max = env_int ''300'' maxRequests,
        rl_standardHeaders = True, rl_legacyHeaders = False,
        rl_message = [(''error'', ''RATE_LIMITED''), (''message'', ''Too many requests. Please retry later.'')]\<rparr>)"

text \<open>The port is the text of the environment, or the number 3000.\<close>

definition listen_port :: "string option \<Rightarrow> string + int" where
  "listen_port v = (case v of None \<Rightarrow> Inr 3000 | Some s \<Rightarrow> if s = [] then Inr 3000 else Inl s)"

definition dbPath :: "string option \<Rightarrow> string" where
  "dbPath v = env_or ''./data/timeoff.db'' v"

text \<open>The calls that set the application up, in their order; the application itself is the framework's.\<close>

datatype setup_call =
    EnableCors "string list option" "string list" "string list"
  | UseHelmet bool
  | DisableSetting string
  | UseRateLimit rate_limit
  | EnableShutdownHooks
  | Listen "string + int"

record environment =
  CORS_ORIGINS :: "string option"
  NODE_ENV :: "string option"
  RATE_LIMIT_WINDOW_MS :: "string option"
  RATE_LIMIT_MAX_REQUESTS :: "string option"
  PORT :: "string option"

definition bootstrap :: "environment \<Rightarrow> setup_call list" where
  "bootstrap env =
     [EnableCors (cors_origin (CORS_ORIGINS env))
        [''GET'', ''POST'', ''PATCH'', ''PUT'', ''DELETE'', ''OPTIONS''] [''Content-Type'', ''Authorization'', ''X-Idempotency-Key''],
      UseHelmet False, DisableSetting ''x-powered-by''] @
     (case rate_limit_options (NODE_ENV env) (RATE_LIMIT_WINDOW_MS env) (RATE_LIMIT_MAX_REQUESTS env) of
        None \<Rightarrow> [] | Some options \<Rightarrow> [UseRateLimit options]) @
     [EnableShutdownHooks, Listen (listen_port (PORT env))]"

text \<open>The application listens once and last, behind the limiter everywhere but in tests.\<close>

lemma limited_before_listening:
  "\<exists>calls. bootstrap env = calls @ [Listen (listen_port (PORT env))] \<and> (\<forall>p. Listen p \<notin> set calls) \<and>
     (NODE_ENV env \<noteq> Some ''test'' \<longrightarrow> (\<exists>options. UseRateLimit options \<in> set calls)) \<and>
     (NODE_ENV env = Some ''test'' \<longrightarrow> (\<forall>options. UseRateLimit options \<notin> set calls))"
  by (auto simp: bootstrap_def rate_limit_options_def)

section \<open>Allowed origins\<close>

lemma split_join: "\<forall>w\<in>set (w # ws). c \<notin> set w \<Longrightarrow> js_split c (w @ concat (map (Cons c) ws)) = w # ws"
proof (induction ws arbitrary: w)
  case Nil
  then show ?case by (simp add: js_split_word)
next
  case (Cons v vs)
  then have "js_split c (v @ concat (map (Cons c) vs)) = v # vs" by simp
  then show ?case using Cons.prems js_split_append[of c w "v @ concat (map (Cons c) vs)"] by simp
qed

text \<open>
  A comma-separated list of origins is read back as it was written: surrounding blanks and empty
  entries are dropped, the rest keeps its order, and every origin is allowed exactly when nothing is left.
\<close>

lemma cors_origin_read:
  assumes "\<forall>w\<in>set (w # ws). CHR '','' \<notin> set w" and "w @ concat (map (Cons CHR '','') ws) \<noteq> []"
  shows "corsOrigins (Some (w @ concat (map (Cons CHR '','') ws))) = filter (\<lambda>s. s \<noteq> []) (map trim (w # ws))"
    and "cors_origin (Some (w @ concat (map (Cons CHR '','') ws))) = None \<longleftrightarrow> (\<forall>v\<in>set (w # ws). trim v = [])"
proof -
  show *: "corsOrigins (Some (w @ concat (map (Cons CHR '','') ws))) = filter (\<lambda>s. s \<noteq> []) (map trim (w # ws))"
    using split_join[OF assms(1)] assms(2) by (simp add: corsOrigins_def env_or_def)
  show "cors_origin (Some (w @ concat (map (Cons CHR '','') ws))) = None \<longleftrightarrow> (\<forall>v\<in>set (w # ws). trim v = [])"
    by (auto simp: cors_origin_def Let_def * filter_empty_conv)
qed

lemma default_numbers: "env_int ''60000'' None = Some 60000" "env_int ''300'' None = Some 300"
  by (simp_all add: env_int_def js_parseInt10_def parse_int_def radix_digit_def code_def is_digit_def is_space_def)

lemma default_settings:
  "cors_origin None = None" "listen_port None = Inr 3000" "dbPath None = ''./data/timeoff.db''"
  "map_option rl_windowMs (rate_limit_options None None None) = Some (Some 60000)"
  "map_option rl_max (rate_limit_options None None None) = Some (Some 300)"
  by (simp_all add: cors_origin_def corsOrigins_def env_or_def trim_def listen_port_def dbPath_def rate_limit_options_def default_numbers)

end
