(* ===== verification/Wiring.thy ===== *)
theory Wiring
  imports Bootstrap
begin

text \<open>
  How the parts are put together: the modules of \<open>src/src/app.module.js\<close> and
  \<open>src/src/modules/*/*.module.js\<close>, the constructors with their \<open>Inject\<close> calls, the routes of the
  controllers with their parameter bindings, and the schedules. These are declarations that the
  framework reads; they are taken over as data, and what the framework's documentation asks of them
  is stated and decided: every dependency of every class is visible in its module, nothing depends on
  itself, every service exists once, no URL has two handlers and every parameter of a handler is
  bound once.
\<close>

section \<open>Constructors\<close>

text \<open>What a parameter is filled with: a class, the repository of an entity, or the data source.\<close>

datatype token = Class string | Repository string | DataSource

text \<open>\<open>Inject(token)(TheClass, undefined, index)\<close>.\<close>

type_synonym injections = "(nat \<times> token) list"

definition TimeOffService_parameters :: "string list" where
  "TimeOffService_parameters = [''requestRepository'', ''idempotencyRepository'', ''dataSource'', ''balanceService'', ''hcmService'']"

definition TimeOffService_injections :: injections where
  "TimeOffService_injections = [(0, Repository ''TimeOffRequest''), (1, Repository ''IdempotencyRecord''), (2, DataSource),
     (3, Class ''BalanceService''), (4, Class ''HcmService'')]"

definition BalanceService_parameters :: "string list" where
  "BalanceService_parameters = [''balanceRepository'', ''syncLogRepository'', ''dataSource'']"

definition BalanceService_injections :: injections where
  "BalanceService_injections = [(0, Repository ''EmployeeBalance''), (1, Repository ''SyncLog''), (2, DataSource)]"

definition HcmSyncService_parameters :: "string list" where
  "HcmSyncService_parameters = [''hcmService'', ''balanceRepository'', ''requestRepository'', ''syncLogRepository'', ''dataSource'']"

definition HcmSyncService_injections :: injections where
  "HcmSyncService_injections = [(0, Class ''HcmService''), (1, Repository ''EmployeeBalance''), (2, Repository ''TimeOffRequest''),
     (3, Repository ''SyncLog''), (4, DataSource)]"

definition TimeOffController_parameters :: "string list" where
  "TimeOffController_parameters = [''timeOffService'']"

definition TimeOffController_injections :: injections where
  "TimeOffController_injections = [(0, Class ''TimeOffService'')]"

definition BalanceController_parameters :: "string list" where
  "BalanceController_parameters = [''balanceService'']"

definition BalanceController_injections :: injections where
  "BalanceController_injections = [(0, Class ''BalanceService'')]"

definition HcmController_parameters :: "string list" where
  "HcmController_parameters = [''hcmSyncService'']"

definition HcmController_injections :: injections where
  "HcmController_injections = [(0, Class ''HcmSyncService'')]"

definition HealthController_parameters :: "string list" where
  "HealthController_parameters = [''dataSource'', ''hcmService'']"

definition HealthController_injections :: injections where
  "HealthController_injections = [(0, DataSource), (1, Class ''HcmService'')]"

text \<open>The classes the framework constructs; the last three have a constructor without parameters.\<close>

definition classes :: "(string \<times> string list \<times> injections) list" where
  "classes =
     [(''TimeOffService'', TimeOffService_parameters, TimeOffService_injections),
      (''BalanceService'', BalanceService_parameters, BalanceService_injections),
      (''HcmSyncService'', HcmSyncService_parameters, HcmSyncService_injections),
      (''TimeOffController'', TimeOffController_parameters, TimeOffController_injections),
      (''BalanceController'', BalanceController_parameters, BalanceController_injections),
      (''HcmController'', HcmController_parameters, HcmController_injections),
      (''HealthController'', HealthController_parameters, HealthController_injections),
      (''HcmService'', [], []), (''AllExceptionsFilter'', [], []), (''LoggingInterceptor'', [], [])]"

text \<open>The tokens of a class in the order of its parameters; \<open>None\<close> when a parameter has none.\<close>

definition dependencies :: "string \<Rightarrow> token list option" where
  "dependencies c = (case map_of classes c of
      None \<Rightarrow> None | Some (params, tokens) \<Rightarrow> those (map (map_of tokens) [0..<length params]))"

section \<open>Modules\<close>

text \<open>
  An import is \<open>TypeOrmModule.forFeature\<close> of some entities, a module of the framework set up with
  \<open>forRoot\<close>, or a module of the program. A provider is a token with the class that is constructed for it.
\<close>

datatype module_import = ForFeature "string list" | ForRoot string | Import string

datatype module_export = ExportClass string | ExportFeatures

record nest_module =
  m_imports :: "module_import list"
  m_controllers :: "string list"
  m_providers :: "(string \<times> string) list"
  m_exports :: "module_export list"

definition SyncLogModule :: nest_module where
  "SyncLogModule = \<lparr>m_imports = [ForFeature [''SyncLog'']], m_controllers = [], m_providers = [], m_exports = [ExportFeatures]\<rparr>"

definition BalanceModule :: nest_module where
  "BalanceModule = \<lparr>m_imports = [ForFeature [''EmployeeBalance'', ''SyncLog'']], m_controllers = [''BalanceController''],
     m_providers = [(''BalanceService'', ''BalanceService'')], m_exports = [ExportClass ''BalanceService'']\<rparr>"

definition HcmModule :: nest_module where
  "HcmModule = \<lparr>m_imports = [ForFeature [''EmployeeBalance'', ''TimeOffRequest'', ''SyncLog'']], m_controllers = [''HcmController''],
     m_providers = [(''HcmService'', ''HcmService''), (''HcmSyncService'', ''HcmSyncService'')],
     m_exports = [ExportClass ''HcmService'', ExportClass ''HcmSyncService'']\<rparr>"

definition TimeOffModule :: nest_module where
  "TimeOffModule = \<lparr>m_imports = [ForFeature [''TimeOffRequest'', ''IdempotencyRecord''], Import ''BalanceModule'', Import ''HcmModule''],
     m_controllers = [''TimeOffController''], m_providers = [(''TimeOffService'', ''TimeOffService'')],
     m_exports = [ExportClass ''TimeOffService'']\<rparr>"

definition HealthModule :: nest_module where
  "HealthModule = \<lparr>m_imports = [Import ''HcmModule''], m_controllers = [''HealthController''], m_providers = [], m_exports = []\<rparr>"

definition AppModule :: nest_module where
  "AppModule = \<lparr>m_imports = [ForRoot ''ScheduleModule'', ForRoot ''TypeOrmModule'', Import ''SyncLogModule'', Import ''BalanceModule'',
       Import ''HcmModule'', Import ''TimeOffModule'', Import ''HealthModule''],
     m_controllers = [], m_providers = [(''APP_FILTER'', ''AllExceptionsFilter''), (''APP_INTERCEPTOR'', ''LoggingInterceptor'')],
     m_exports = []\<rparr>"

definition modules :: "(string \<times> nest_module) list" where
  "modules = [(''AppModule'', AppModule), (''SyncLogModule'', SyncLogModule), (''BalanceModule'', BalanceModule),
     (''HcmModule'', HcmModule), (''TimeOffModule'', TimeOffModule), (''HealthModule'', HealthModule)]"

text \<open>
  The documented rules: a class sees the providers and the repositories of its own module, what the
  imported modules export, and the data source once \<open>TypeOrmModule.forRoot\<close> is imported.
\<close>

definition features :: "nest_module \<Rightarrow> token list" where
  "features m = concat (map (\<lambda>i. case i of ForFeature es \<Rightarrow> map Repository es | _ \<Rightarrow> []) (m_imports m))"

definition exported :: "nest_module \<Rightarrow> token list" where
  "exported m = concat (map (\<lambda>e. case e of ExportClass c \<Rightarrow> [Class c] | ExportFeatures \<Rightarrow> features m) (m_exports m))"

definition visible :: "nest_module \<Rightarrow> token list" where
  "visible m = map (Class \<circ> fst) (m_providers m) @ features m @
     concat (map (\<lambda>i. case i of Import n \<Rightarrow> (case map_of modules n of Some m' \<Rightarrow> exported m' | None \<Rightarrow> []) | _ \<Rightarrow> []) (m_imports m)) @
     (if ForRoot ''TypeOrmModule'' \<in> set (m_imports AppModule) then [DataSource] else [])"

definition constructed :: "nest_module \<Rightarrow> string list" where
  "constructed m = m_controllers m @ map snd (m_providers m)"

definition resolves :: "nest_module \<Rightarrow> string \<Rightarrow> bool" where
  "resolves m c = (case dependencies c of None \<Rightarrow> False | Some ts \<Rightarrow> list_all (\<lambda>t. t \<in> set (visible m)) ts)"

text \<open>A round constructs every class whose dependencies exist already.\<close>

definition start_round :: "string list \<Rightarrow> string list" where
  "start_round started = started @ filter (\<lambda>c. c \<notin> set started \<and> (case dependencies c of
      None \<Rightarrow> False | Some ts \<Rightarrow> list_all (\<lambda>t. case t of Class d \<Rightarrow> d \<in> set started | _ \<Rightarrow> True) ts)) (map fst classes)"

text \<open>
  Every class of every module can be constructed: each constructor parameter has a token, and the
  module sees it. No class waits for itself: three rounds construct them all. Every provider and
  controller is declared by one module, so the service, its background jobs and the health endpoints
  share one circuit breaker, and there is one flag that keeps batch runs apart.
\<close>

theorem wiring_resolves:
  "(\<forall>(n, m)\<in>set modules. \<forall>c\<in>set (constructed m). resolves m c) \<and>
   (\<forall>(n, m)\<in>set modules. \<forall>i\<in>set (m_imports m). case i of Import k \<Rightarrow> k \<in> fst ` set modules | _ \<Rightarrow> True) \<and>
   set (start_round (start_round (start_round []))) = fst ` set classes \<and>
   distinct (concat (map (constructed \<circ> snd) modules)) \<and>
   set (concat (map (constructed \<circ> snd) modules)) = fst ` set classes"
  by code_simp

section \<open>Routes\<close>

datatype verb = GET | POST | PATCH

text \<open>What a parameter of a handler is read from.\<close>

datatype origin = Param string | UuidParam string | Query string | Header string | Body | Res

text \<open>A handler with its decorator: verb, path below the controller's, declared status and parameters.\<close>

record handler =
  h_verb :: verb
  h_path :: string
  h_status :: "nat option"
  h_name :: string
  h_params :: "string list"

type_synonym bindings = "(origin \<times> string \<times> nat) list"

definition BalanceController_handlers :: "handler list" where
  "BalanceController_handlers =
     [\<lparr>h_verb = GET, h_path = '':employeeId/:locationId'', h_status = None, h_name = ''getBalancesForEmployee'',
        h_params = [''employeeId'', ''locationId'']\<rparr>,
      \<lparr>h_verb = GET, h_path = '':employeeId/:locationId/:leaveType'', h_status = None, h_name = ''getBalance'',
        h_params = [''employeeId'', ''locationId'', ''leaveType'']\<rparr>,
      \<lparr>h_verb = POST, h_path = ''admin/seed/:employeeId/:locationId/:leaveType/:total'', h_status = Some 201, h_name = ''seedBalance'',
        h_params = [''employeeId'', ''locationId'', ''leaveType'', ''total'']\<rparr>]"

definition BalanceController_bindings :: bindings where
  "BalanceController_bindings =
     [(Param ''employeeId'', ''getBalancesForEmployee'', 0), (Param ''locationId'', ''getBalancesForEmployee'', 1),
      (Param ''employeeId'', ''getBalance'', 0), (Param ''locationId'', ''getBalance'', 1), (Param ''leaveType'', ''getBalance'', 2),
      (Param ''employeeId'', ''seedBalance'', 0), (Param ''locationId'', ''seedBalance'', 1), (Param ''leaveType'', ''seedBalance'', 2),
      (Param ''total'', ''seedBalance'', 3)]"

definition TimeOffController_handlers :: "handler list" where
  "TimeOffController_handlers =
     [\<lparr>h_verb = POST, h_path = [], h_status = Some 201, h_name = ''createRequest'', h_params = [''dto'', ''idempotencyKey'']\<rparr>,
      \<lparr>h_verb = GET, h_path = [], h_status = None, h_name = ''listRequests'',
        h_params = [''employeeId'', ''locationId'', ''status'', ''limit'', ''offset'']\<rparr>,
      \<lparr>h_verb = GET, h_path = '':id'', h_status = None, h_name = ''getRequest'', h_params = [''id'']\<rparr>,
      \<lparr>h_verb = PATCH, h_path = '':id/approve'', h_status = Some 200, h_name = ''approveRequest'', h_params = [''id'', ''dto'']\<rparr>,
      \<lparr>h_verb = PATCH, h_path = '':id/reject'', h_status = Some 200, h_name = ''rejectRequest'', h_params = [''id'', ''dto'']\<rparr>,
      \<lparr>h_verb = PATCH, h_path = '':id/cancel'', h_status = Some 200, h_name = ''cancelRequest'', h_params = [''id'', ''dto'']\<rparr>]"

definition TimeOffController_bindings :: bindings where
  "TimeOffController_bindings =
     [(Body, ''createRequest'', 0), (Header ''x-idempotency-key'', ''createRequest'', 1),
      (Query ''employeeId'', ''listRequests'', 0), (Query ''locationId'', ''listRequests'', 1), (Query ''status'', ''listRequests'', 2),
      (Query ''limit'', ''listRequests'', 3), (Query ''offset'', ''listRequests'', 4), (UuidParam ''id'', ''getRequest'', 0),
      (UuidParam ''id'', ''approveRequest'', 0), (Body, ''approveRequest'', 1), (UuidParam ''id'', ''rejectRequest'', 0),
      (Body, ''rejectRequest'', 1), (UuidParam ''id'', ''cancelRequest'', 0), (Body, ''cancelRequest'', 1)]"

definition HcmController_handlers :: "handler list" where
  "HcmController_handlers =
     [\<lparr>h_verb = POST, h_path = ''batch-sync'', h_status = Some 202, h_name = ''triggerBatchSync'', h_params = []\<rparr>,
      \<lparr>h_verb = GET, h_path = ''sync-logs'', h_status = None, h_name = ''getSyncLogs'', h_params = []\<rparr>]"

definition HealthController_handlers :: "handler list" where
  "HealthController_handlers =
     [\<lparr>h_verb = GET, h_path = ''live'', h_status = None, h_name = ''getLiveness'', h_params = [''res'']\<rparr>,
      \<lparr>h_verb = GET, h_path = ''ready'', h_status = None, h_name = ''getReadiness'', h_params = [''res'']\<rparr>,
      \<lparr>h_verb = GET, h_path = ''metrics'', h_status = None, h_name = ''getMetrics'', h_params = [''res'']\<rparr>,
      \<lparr>h_verb = GET, h_path = [], h_status = None, h_name = ''getHealth'', h_params = [''res'']\<rparr>]"

definition HealthController_bindings :: bindings where
  "HealthController_bindings =
     [(Res, ''getHealth'', 0), (Res, ''getLiveness'', 0), (Res, ''getReadiness'', 0), (Res, ''getMetrics'', 0)]"

definition controllers :: "(string \<times> handler list \<times> bindings) list" where
  "controllers = [(''balances'', BalanceController_handlers, BalanceController_bindings),
     (''time-off/requests'', TimeOffController_handlers, TimeOffController_bindings),
     (''hcm'', HcmController_handlers, []), (''health'', HealthController_handlers, HealthController_bindings)]"

text \<open>The pattern of a handler: the segments of both paths. A segment with a colon takes any segment of a URL.\<close>

definition segments :: "string \<Rightarrow> string list" where
  "segments p = filter (\<lambda>s. s \<noteq> []) (js_split CHR ''/'' p)"

definition placeholder :: "string \<Rightarrow> string option" where
  "placeholder s = (case s of CHR '':'' # n \<Rightarrow> Some n | _ \<Rightarrow> None)"

fun fits :: "string list \<Rightarrow> string list \<Rightarrow> bool" where
  "fits [] [] = True"
| "fits (p # ps) (u # us) = ((placeholder p \<noteq> None \<or> p = u) \<and> fits ps us)"
| "fits _ _ = False"

fun captured :: "string list \<Rightarrow> string list \<Rightarrow> (string \<times> string) list" where
  "captured (p # ps) (u # us) = (case placeholder p of None \<Rightarrow> [] | Some n \<Rightarrow> [(n, u)]) @ captured ps us"
| "captured _ _ = []"

definition endpoints :: "(verb \<times> string list \<times> string) list" where
  "endpoints = concat (map (\<lambda>(prefix, hs, _). map (\<lambda>h. (h_verb h, segments prefix @ segments (h_path h), h_name h)) hs) controllers)"

text \<open>Two patterns clash when some URL fits both.\<close>

fun clash :: "string list \<Rightarrow> string list \<Rightarrow> bool" where
  "clash [] [] = True"
| "clash (p # ps) (q # qs) = ((placeholder p \<noteq> None \<or> placeholder q \<noteq> None \<or> p = q) \<and> clash ps qs)"
| "clash _ _ = False"

lemma fits_clash: "fits ps us \<Longrightarrow> fits qs us \<Longrightarrow> clash ps qs"
proof (induction ps us arbitrary: qs rule: fits.induct)
  case (2 p ps u us)
  then show ?case by (cases qs) auto
qed (auto elim: fits.elims)

lemma captured_all: "fits ps us \<Longrightarrow> placeholder p = Some n \<Longrightarrow> p \<in> set ps \<Longrightarrow> \<exists>u\<in>set us. (n, u) \<in> set (captured ps us)"
  by (induction ps us rule: fits.induct) auto

lemma endpoints_apart: "sorted_wrt (\<lambda>(v, p, _) (v', p', _). v = v' \<longrightarrow> \<not> clash p p') endpoints"
  by code_simp

text \<open>
  No request has two handlers, so the order in which the framework tries the routes does not matter:
  two endpoints of the same verb that fit the same URL are one.
\<close>

theorem routes_unambiguous:
  assumes "(v, p, f) \<in> set endpoints" and "(v, p', f') \<in> set endpoints" and "fits p url" and "fits p' url"
  shows "p = p' \<and> f = f'"
proof -
  have "clash p p'" "clash p' p" using assms(3,4) by (blast intro: fits_clash)+
  moreover obtain i j where "i < length endpoints" "endpoints ! i = (v, p, f)" "j < length endpoints" "endpoints ! j = (v, p', f')"
    using assms(1,2) by (metis in_set_conv_nth)
  ultimately show ?thesis
    using sorted_wrt_nth_less[OF endpoints_apart, of i j] sorted_wrt_nth_less[OF endpoints_apart, of j i]
    by (cases i j rule: linorder_cases) auto
qed

text \<open>
  Every parameter of every handler is bound once, a parameter taken from the path or the query has the name
  of what it is bound to, and the placeholders of the path are those the handler takes.
\<close>

definition bound_once :: "bindings \<Rightarrow> handler \<Rightarrow> bool" where
  "bound_once bs h \<longleftrightarrow> (let mine = filter (\<lambda>(_, f, _). f = h_name h) bs
     in sort (map (\<lambda>(_, _, i). i) mine) = [0..<length (h_params h)] \<and>
        list_all (\<lambda>(src, _, i). case src of
            Param n \<Rightarrow> h_params h ! i = n | UuidParam n \<Rightarrow> h_params h ! i = n | Query n \<Rightarrow> h_params h ! i = n | _ \<Rightarrow> True) mine \<and>
        set (List.map_filter (\<lambda>(src, _, _). case src of Param n \<Rightarrow> Some n | UuidParam n \<Rightarrow> Some n | _ \<Rightarrow> None) mine) =
          set (List.map_filter placeholder (segments (h_path h))))"

theorem handlers_bound:
  "\<forall>(prefix, hs, bs)\<in>set controllers. \<forall>h\<in>set hs. bound_once bs h"
  by code_simp

text \<open>Every verb that a route needs is one that the application lets other origins use.\<close>

definition verb_name :: "verb \<Rightarrow> string" where
  "verb_name v = (case v of GET \<Rightarrow> ''GET'' | POST \<Rightarrow> ''POST'' | PATCH \<Rightarrow> ''PATCH'')"

lemma cors_allows_routes:
  assumes "EnableCors origins methods headers \<in> set (bootstrap env)"
  shows "verb_name v \<in> set methods"
  using assms by (cases v) (auto simp: bootstrap_def verb_name_def split: option.splits)

section \<open>Schedules\<close>

text \<open>The cron expressions of the two jobs.\<close>

definition BATCH_SYNC_CRON :: "string option \<Rightarrow> string" where
  "BATCH_SYNC_CRON v = env_or ''0 2 * * *'' v"

definition PENDING_RETRY_CRON :: "string option \<Rightarrow> string" where
  "PENDING_RETRY_CRON v = env_or ''*/15 * * * *'' v"

section \<open>The two ends of the connection to the HCM\<close>

record client_options =
  co_baseURL :: string
  co_timeout :: "int option"
  co_headers :: "(string \<times> string) list"

definition httpClient_options :: "string option \<Rightarrow> string option \<Rightarrow> client_options" where
  "httpClient_options url t = \<lparr>co_baseURL = env_or ''http://localhost:3001'' url, co_timeout = env_int ''5000'' t,
     co_headers = [(''Content-Type'', ''application/json''), (''X-Service'', ''timeoff-service'')]\<rparr>"

text \<open>The ports of the mock server: the API, and the administration a hundred above it.\<close>

definition mock_port :: "string option \<Rightarrow> int option" where
  "mock_port v = env_int ''3001'' v"

definition mock_admin_port :: "string option \<Rightarrow> int option" where
  "mock_admin_port v = map_option (\<lambda>p. p + 100) (mock_port v)"

text \<open>
  With the default settings the client gives up on an attempt before the breaker does, which is what the
  count of notifications in \<open>Hcm_Delivery\<close> asks for, and it talks to the port the mock listens on.
\<close>

lemma default_connection:
  "co_timeout (httpClient_options None None) = Some 5000"
  "5000 < timeoutMs (breakerConfig (hcm_config_of_env attempts threshold reset))"
  "co_baseURL (httpClient_options None None) = ''http://localhost:3001''"
  "mock_port None = Some 3001" "mock_admin_port None = Some 3101"
proof -
  show "co_timeout (httpClient_options None None) = Some 5000" by code_simp
  show "5000 < timeoutMs (breakerConfig (hcm_config_of_env attempts threshold reset))"
    by (simp add: hcm_config_of_env_def)
  show "co_baseURL (httpClient_options None None) = ''http://localhost:3001''" by code_simp
  show "mock_port None = Some 3001" "mock_admin_port None = Some 3101" by code_simp+
qed

end
