(* ===== verification/Create_Lock.thy ===== *)
theory Create_Lock
  imports LL_Prelude
begin

text \<open>
  \<open>_withCreateLock\<close> of \<open>src/src/modules/timeoff/timeoff.service.js\<close>: the in-process lock around the
  creation of requests of one employee at one location. The map \<open>_createLocks\<close> holds, per key, the
  promise of the last caller; a caller waits for the promise it found there and leaves its own,
  which resolves when the one before it has resolved and its own gate is released. The code between
  two awaits runs without interruption, so a call has three steps: \<open>enter\<close> up to
  \<open>await previous\<close>, \<open>start\<close> when that promise has resolved, and \<open>finish\<close>, the \<open>finally\<close> block, when
  the guarded function has returned or thrown. Calls are numbered in the order in which they enter,
  and the promise \<open>next\<close> of a call is named by its number.
\<close>

section \<open>The lock\<close>

datatype phase = Waiting | Running | Finished

record lock_call =
  c_key :: string
  c_previous :: "nat option"
  c_phase :: phase

record lock_state =
  calls :: "lock_call list"
  createLocks :: "string \<Rightarrow> nat option"

definition no_locks :: lock_state where
  "no_locks = \<lparr>calls = [], createLocks = (\<lambda>_. None)\<rparr>"

text \<open>
  Whether the promise \<open>next\<close> of call \<open>n\<close> has resolved: \<open>previous.then(() => gate)\<close>, where the gate of
  a call is released when it finishes.
\<close>

function next_resolved :: "lock_call list \<Rightarrow> nat \<Rightarrow> bool" where
  "next_resolved cs n =
     (n < length cs \<and> c_phase (cs ! n) = Finished \<and>
      (case c_previous (cs ! n) of None \<Rightarrow> True | Some p \<Rightarrow> if p < n then next_resolved cs p else False))"
  by pat_completeness auto
termination
  by (relation "measure snd") auto

declare next_resolved.simps [simp del]

definition previous_resolved :: "lock_call list \<Rightarrow> nat option \<Rightarrow> bool" where
  "previous_resolved cs p = (case p of None \<Rightarrow> True | Some m \<Rightarrow> next_resolved cs m)"

definition enter :: "string \<Rightarrow> lock_state \<Rightarrow> lock_state" where
  "enter lockKey s =
     \<lparr>calls = calls s @ [\<lparr>c_key = lockKey, c_previous = createLocks s lockKey, c_phase = Waiting\<rparr>],
      createLocks = (createLocks s)(lockKey := Some (length (calls s)))\<rparr>"

definition set_phase :: "nat \<Rightarrow> phase \<Rightarrow> lock_call list \<Rightarrow> lock_call list" where
  "set_phase n p cs = cs[n := (cs ! n)\<lparr>c_phase := p\<rparr>]"

definition can_start :: "lock_state \<Rightarrow> nat \<Rightarrow> bool" where
  "can_start s n \<longleftrightarrow> n < length (calls s) \<and> c_phase (calls s ! n) = Waiting \<and>
     previous_resolved (calls s) (c_previous (calls s ! n))"

definition start :: "nat \<Rightarrow> lock_state \<Rightarrow> lock_state" where
  "start n s = s\<lparr>calls := set_phase n Running (calls s)\<rparr>"

definition finish :: "nat \<Rightarrow> lock_state \<Rightarrow> lock_state" where
  "finish n s =
     (let lockKey = c_key (calls s ! n)
      in s\<lparr>calls := set_phase n Finished (calls s),
           createLocks := (if createLocks s lockKey = Some n then (createLocks s)(lockKey := None) else createLocks s)\<rparr>)"

inductive lock_step :: "lock_state \<Rightarrow> lock_state \<Rightarrow> bool" where
  enters: "lock_step s (enter lockKey s)"
| starts: "can_start s n \<Longrightarrow> lock_step s (start n s)"
| finishes: "n < length (calls s) \<Longrightarrow> c_phase (calls s ! n) = Running \<Longrightarrow> lock_step s (finish n s)"

inductive_cases lock_stepE: "lock_step s t"

definition lock_reachable :: "lock_state \<Rightarrow> bool" where
  "lock_reachable s \<longleftrightarrow> lock_step\<^sup>*\<^sup>* no_locks s"

section \<open>The invariant\<close>

text \<open>A call waits for the last call of its key before it, unless all of those have finished.\<close>

definition linked :: "lock_call list \<Rightarrow> nat \<Rightarrow> bool" where
  "linked cs i \<longleftrightarrow> (case c_previous (cs ! i) of
      None \<Rightarrow> \<forall>j<i. c_key (cs ! j) = c_key (cs ! i) \<longrightarrow> c_phase (cs ! j) = Finished
    | Some p \<Rightarrow> p < i \<and> c_key (cs ! p) = c_key (cs ! i) \<and> (\<forall>j<i. p < j \<longrightarrow> c_key (cs ! j) \<noteq> c_key (cs ! i)))"

definition ordered :: "lock_call list \<Rightarrow> nat \<Rightarrow> bool" where
  "ordered cs i \<longleftrightarrow> (c_phase (cs ! i) \<noteq> Waiting \<longrightarrow>
     (\<forall>j<i. c_key (cs ! j) = c_key (cs ! i) \<longrightarrow> c_phase (cs ! j) = Finished))"

definition tail_ok :: "lock_state \<Rightarrow> string \<Rightarrow> bool" where
  "tail_ok s k \<longleftrightarrow> (case createLocks s k of
      None \<Rightarrow> \<forall>i<length (calls s). c_key (calls s ! i) = k \<longrightarrow> c_phase (calls s ! i) = Finished
    | Some n \<Rightarrow> n < length (calls s) \<and> c_key (calls s ! n) = k \<and> c_phase (calls s ! n) \<noteq> Finished \<and>
        (\<forall>j<length (calls s). n < j \<longrightarrow> c_key (calls s ! j) \<noteq> k))"

definition lock_inv :: "lock_state \<Rightarrow> bool" where
  "lock_inv s \<longleftrightarrow> (\<forall>i<length (calls s). linked (calls s) i \<and> ordered (calls s) i) \<and> (\<forall>k. tail_ok s k)"

lemma set_phase_simps [simp]:
  "length (set_phase n p cs) = length cs"
  "i < length cs \<Longrightarrow> c_key (set_phase n p cs ! i) = c_key (cs ! i)"
  "i < length cs \<Longrightarrow> c_previous (set_phase n p cs ! i) = c_previous (cs ! i)"
  "i < length cs \<Longrightarrow> c_phase (set_phase n p cs ! i) = (if i = n then p else c_phase (cs ! i))"
  by (cases "i = n"; simp add: set_phase_def)+

text \<open>A resolved promise means that its caller and everyone before it on the key have finished.\<close>

lemma next_resolved_Finished: "next_resolved cs n \<Longrightarrow> n < length cs \<and> c_phase (cs ! n) = Finished"
  by (subst (asm) next_resolved.simps) simp

lemma Finished_next_resolved:
  "(\<And>i. i < length cs \<Longrightarrow> linked cs i \<and> ordered cs i) \<Longrightarrow> n < length cs \<Longrightarrow> c_phase (cs ! n) = Finished \<Longrightarrow>
     next_resolved cs n"
proof (induction n rule: less_induct)
  case (less n)
  show ?case
  proof (cases "c_previous (cs ! n)")
    case None
    with less.prems show ?thesis by (subst next_resolved.simps) simp
  next
    case (Some p)
    with less.prems(1)[OF less.prems(2)] less.prems(3)
    have "p < n" "c_phase (cs ! p) = Finished" by (auto simp: linked_def ordered_def)
    with less.IH[OF this(1) less.prems(1)] less.prems Some show ?thesis by (subst next_resolved.simps) simp
  qed
qed

lemma before_start:
  assumes "lock_inv s" and "can_start s n" and "j < n" and "c_key (calls s ! j) = c_key (calls s ! n)"
  shows "c_phase (calls s ! j) = Finished"
proof (cases "c_previous (calls s ! n)")
  case None
  with assms show ?thesis by (auto simp: lock_inv_def can_start_def linked_def)
next
  case (Some p)
  have n: "n < length (calls s)" "next_resolved (calls s) p"
    using assms(2) Some by (auto simp: can_start_def previous_resolved_def)
  from next_resolved_Finished[OF n(2)] have p: "p < length (calls s)" "c_phase (calls s ! p) = Finished" by auto
  have l: "c_key (calls s ! p) = c_key (calls s ! n)" "\<not> p < j"
    using assms(1,3,4) n(1) Some by (auto simp: lock_inv_def linked_def)
  show ?thesis
  proof (cases "j = p")
    case False
    with l(2) have "j < p" by simp
    then show ?thesis using assms(1,4) p l(1) by (auto simp: lock_inv_def ordered_def)
  qed (use p in simp)
qed

lemma enter_keeps_inv:
  assumes "lock_inv s"
  shows "lock_inv (enter k s)"
proof -
  let ?n = "length (calls s)"
  have old: "linked (calls (enter k s)) i \<and> ordered (calls (enter k s)) i" if "i < ?n" for i
    using assms that by (auto simp: lock_inv_def enter_def linked_def ordered_def nth_append split: option.splits)
  have t: "tail_ok s k" using assms by (simp add: lock_inv_def)
  have "linked (calls (enter k s)) ?n \<and> ordered (calls (enter k s)) ?n"
  proof (cases "createLocks s k")
    case None
    with t show ?thesis by (auto simp: enter_def linked_def ordered_def nth_append tail_ok_def)
  next
    case (Some p)
    with t show ?thesis by (auto simp: enter_def linked_def ordered_def nth_append tail_ok_def)
  qed
  moreover have "tail_ok (enter k s) k'" for k'
  proof (cases "k' = k")
    case True
    then show ?thesis by (auto simp: tail_ok_def enter_def nth_append)
  next
    case False
    have "tail_ok s k'" using assms by (simp add: lock_inv_def)
    with False show ?thesis
      by (auto simp: tail_ok_def enter_def nth_append less_Suc_eq split: option.splits)
  qed
  ultimately show ?thesis
    using old by (auto simp: lock_inv_def enter_def less_Suc_eq)
qed

lemma start_keeps_inv:
  assumes "lock_inv s" and "can_start s n"
  shows "lock_inv (start n s)"
proof -
  let ?cs = "set_phase n Running (calls s)"
  have n: "n < length (calls s)" "c_phase (calls s ! n) = Waiting" using assms(2) by (auto simp: can_start_def)
  have "linked ?cs i \<and> ordered ?cs i" if i: "i < length (calls s)" for i
  proof
    have lo: "linked (calls s) i" "ordered (calls s) i" using assms(1) i by (auto simp: lock_inv_def)
    then show "linked ?cs i"
      using n i by (auto simp: linked_def split: option.splits)
    show "ordered ?cs i"
      using lo n i before_start[OF assms] by (auto simp: ordered_def)
  qed
  moreover have "tail_ok (start n s) k" for k
  proof -
    have "tail_ok s k" using assms(1) by (simp add: lock_inv_def)
    with n show ?thesis by (auto simp: tail_ok_def start_def split: option.splits)
  qed
  ultimately show ?thesis by (simp add: lock_inv_def start_def)
qed

lemma finish_keeps_inv:
  assumes "lock_inv s" and "n < length (calls s)" and "c_phase (calls s ! n) = Running"
  shows "lock_inv (finish n s)"
proof -
  let ?cs = "set_phase n Finished (calls s)" and ?k = "c_key (calls s ! n)"
  have before: "\<forall>j<n. c_key (calls s ! j) = ?k \<longrightarrow> c_phase (calls s ! j) = Finished"
    using assms by (auto simp: lock_inv_def ordered_def)
  have "linked ?cs i \<and> ordered ?cs i" if i: "i < length (calls s)" for i
  proof
    have lo: "linked (calls s) i" "ordered (calls s) i" using assms(1) i by (auto simp: lock_inv_def)
    show "linked ?cs i" using lo(1) i by (cases "c_previous (calls s ! i)") (auto simp: linked_def)
    show "ordered ?cs i" using lo(2) i assms(2,3) by (auto simp: ordered_def)
  qed
  moreover have "tail_ok (finish n s) k" for k
  proof -
    have t: "tail_ok s k" using assms(1) by (simp add: lock_inv_def)
    show ?thesis
    proof (cases "createLocks s k = Some n")
      case True
      with t have "k = ?k" "\<forall>j<length (calls s). n < j \<longrightarrow> c_key (calls s ! j) \<noteq> k" by (auto simp: tail_ok_def)
      with True before assms(2) show ?thesis
        by (auto simp: tail_ok_def finish_def Let_def)
    next
      case False
      then have eq: "createLocks (finish n s) k = createLocks s k" by (auto simp: finish_def Let_def)
      show ?thesis
      proof (cases "createLocks s k")
        case None
        with t eq show ?thesis by (auto simp: tail_ok_def finish_def Let_def)
      next
        case (Some m)
        with False t eq show ?thesis by (auto simp: tail_ok_def finish_def Let_def)
      qed
    qed
  qed
  ultimately show ?thesis by (simp add: lock_inv_def finish_def Let_def)
qed

lemma reachable_lock_inv: "lock_reachable s \<Longrightarrow> lock_inv s"
  unfolding lock_reachable_def
proof (induction rule: rtranclp_induct)
  case base
  show ?case by (simp add: lock_inv_def no_locks_def tail_ok_def)
next
  case (step s t)
  from step.hyps(2) step.IH show ?case
    by (cases rule: lock_stepE) (auto intro: enter_keeps_inv start_keeps_inv finish_keeps_inv)
qed

section \<open>Properties\<close>

text \<open>
  C30: The creation lock excludes and is fair. In every reachable state at most one call per key is
  inside its guarded section, and calls of a key are served in the order in which they entered: when
  a call is inside or has left, every call of its key that entered before it has finished.
\<close>

theorem create_lock_exclusion:
  assumes "lock_reachable s" and "i < length (calls s)" and "j < length (calls s)" and "i \<noteq> j"
    and "c_key (calls s ! i) = c_key (calls s ! j)"
  shows "\<not> (c_phase (calls s ! i) = Running \<and> c_phase (calls s ! j) = Running) \<and>
    (i < j \<longrightarrow> c_phase (calls s ! j) \<noteq> Waiting \<longrightarrow> c_phase (calls s ! i) = Finished)"
proof -
  have inv: "lock_inv s" using assms(1) by (rule reachable_lock_inv)
  have fifo: "c_phase (calls s ! a) = Finished"
    if "a < b" "b < length (calls s)" "c_key (calls s ! a) = c_key (calls s ! b)" "c_phase (calls s ! b) \<noteq> Waiting" for a b
    using inv that by (auto simp: lock_inv_def ordered_def)
  from fifo[of i j] fifo[of j i] assms show ?thesis by (cases "i < j") auto
qed

text \<open>
  C31: The creation lock never blocks for good and leaves nothing behind. In every reachable state,
  as long as a call of a key has not finished, some call of that key is inside its guarded section
  or can enter it; and the map has an entry for a key exactly as long as a call of the key has not
  finished.
\<close>

theorem create_lock_progress:
  assumes "lock_reachable s"
  shows "(createLocks s k \<noteq> None \<longleftrightarrow> (\<exists>i<length (calls s). c_key (calls s ! i) = k \<and> c_phase (calls s ! i) \<noteq> Finished)) \<and>
    (createLocks s k \<noteq> None \<longrightarrow>
      (\<exists>i<length (calls s). c_key (calls s ! i) = k \<and> (c_phase (calls s ! i) = Running \<or> can_start s i)))"
proof -
  have inv: "lock_inv s" using assms by (rule reachable_lock_inv)
  let ?P = "\<lambda>i. i < length (calls s) \<and> c_key (calls s ! i) = k \<and> c_phase (calls s ! i) \<noteq> Finished"
  have "tail_ok s k" using inv by (simp add: lock_inv_def)
  then have entry: "createLocks s k \<noteq> None \<longleftrightarrow> (\<exists>i. ?P i)"
    by (auto simp: tail_ok_def split: option.splits)
  have "\<exists>i<length (calls s). c_key (calls s ! i) = k \<and> (c_phase (calls s ! i) = Running \<or> can_start s i)" if ex: "\<exists>i. ?P i"
  proof -
    define n where "n = (LEAST i. ?P i)"
    have n: "?P n" using ex unfolding n_def by (rule LeastI_ex)
    have first: "c_phase (calls s ! j) = Finished" if "j < n" "c_key (calls s ! j) = k" for j
      using that n not_less_Least[of j ?P] by (auto simp: n_def)
    show ?thesis
    proof (cases "c_phase (calls s ! n) = Running")
      case False
      with n have w: "c_phase (calls s ! n) = Waiting" by (cases "c_phase (calls s ! n)") auto
      have "previous_resolved (calls s) (c_previous (calls s ! n))"
      proof (cases "c_previous (calls s ! n)")
        case (Some p)
        with inv n have "p < n" "c_key (calls s ! p) = k" by (auto simp: lock_inv_def linked_def)
        then show ?thesis
          using Finished_next_resolved[of "calls s" p] inv first n Some by (auto simp: lock_inv_def previous_resolved_def)
      qed (simp add: previous_resolved_def)
      with w n show ?thesis by (auto simp: can_start_def)
    qed (use n in blast)
  qed
  with entry show ?thesis by blast
qed

text \<open>Two calls of one key and one of another; the first of each is inside.\<close>

definition contended :: lock_state where
  "contended = start 2 (start 0 (enter ''b'' (enter ''a'' (enter ''a'' no_locks))))"

lemma contended_reachable: "lock_reachable contended"
proof -
  have "can_start (enter ''b'' (enter ''a'' (enter ''a'' no_locks))) 0"
    "can_start (start 0 (enter ''b'' (enter ''a'' (enter ''a'' no_locks)))) 2"
    by code_simp+
  then show ?thesis
    unfolding lock_reachable_def contended_def
    by (meson lock_step.intros rtranclp.rtrancl_into_rtrancl rtranclp.rtrancl_refl)
qed

theorem create_lock_exclusion_witness:
  "c_phase (calls contended ! 0) = Running \<and> c_phase (calls contended ! 1) = Waiting"
proof -
  have "length (calls contended) = 3" "c_key (calls contended ! 0) = c_key (calls contended ! 1)"
    "c_phase (calls contended ! 0) = Running" by code_simp+
  with create_lock_exclusion[OF contended_reachable, of 0 1] show ?thesis
    by (cases "c_phase (calls contended ! 1)") auto
qed

theorem create_lock_progress_witness: "createLocks contended ''a'' = Some 1 \<and> createLocks contended ''c'' = None"
proof -
  have "createLocks contended ''a'' = Some 1" by code_simp
  moreover have "\<not> (\<exists>i<length (calls contended). c_key (calls contended ! i) = ''c'')" by code_simp
  ultimately show ?thesis using create_lock_progress[OF contended_reachable, of "''c''"] by auto
qed

end
