(* ===== verification/Priority_Queue.thy ===== *)
theory Priority_Queue
  imports Js_Number "HOL-Library.Multiset"
begin

text \<open>
  \<open>src/src/common/utils/priority-queue.util.js\<close>: a bounded binary min-heap in an array. The
  operations take the comparator as an argument, as the constructor does; the default one compares
  priorities and then insertion numbers. What the algorithms need of a comparator is the locale
  \<open>heap_order\<close>, in which sifting, building and the search for the worst entry are verified once, and
  which is interpreted on the default comparator.
\<close>

section \<open>The queue\<close>

record 'v entry =
  e_priority :: js_num
  e_value :: 'v
  e_insertSeq :: nat

type_synonym 'e comparator = "'e \<Rightarrow> 'e \<Rightarrow> js_num"

definition js_or :: "js_num \<Rightarrow> js_num \<Rightarrow> js_num" where
  "js_or x y = (if js_truthy x then x else y)"

definition default_comparator :: "'v entry comparator" where
  "default_comparator a b = js_or (js_sub (e_priority a) (e_priority b))
     (js_sub (Fin (of_nat (e_insertSeq a))) (Fin (of_nat (e_insertSeq b))))"

definition make_comparator :: "('v \<Rightarrow> 'v \<Rightarrow> js_num) option \<Rightarrow> 'v entry comparator" where
  "make_comparator c = (case c of
      Some f \<Rightarrow> (\<lambda>a b. f (e_value a) (e_value b)) | None \<Rightarrow> default_comparator)"

abbreviation before :: "'e comparator \<Rightarrow> 'e \<Rightarrow> 'e \<Rightarrow> bool" where
  "before cmp a b \<equiv> js_lt (cmp a b) (Fin 0)"

record 'v priority_queue =
  pq_heap :: "'v entry list"
  pq_maxSize :: js_num
  pq_seq :: nat

definition new_queue :: "js_num option \<Rightarrow> 'v priority_queue" where
  "new_queue m = \<lparr>pq_heap = [], pq_maxSize = (case m of Some x \<Rightarrow> x | None \<Rightarrow> PInf), pq_seq = 0\<rparr>"

definition swap :: "nat \<Rightarrow> nat \<Rightarrow> 'e list \<Rightarrow> 'e list" where
  "swap i j xs = xs[i := xs ! j, j := xs ! i]"

definition parent :: "nat \<Rightarrow> nat" where
  "parent i = (i - 1) div 2"

lemma parent_less [termination_simp]: "0 < i \<Longrightarrow> parent i < i"
  by (simp add: parent_def)

fun siftUp :: "'e comparator \<Rightarrow> 'e list \<Rightarrow> nat \<Rightarrow> 'e list" where
  "siftUp cmp xs i =
     (if 0 < i
      then if before cmp (xs ! i) (xs ! parent i) then siftUp cmp (swap i (parent i) xs) (parent i) else xs
      else xs)"

declare siftUp.simps [simp del]

text \<open>The smaller of a node and its children, as the two comparisons of the loop find it.\<close>

definition smallest :: "'e comparator \<Rightarrow> 'e list \<Rightarrow> nat \<Rightarrow> nat" where
  "smallest cmp xs i =
     (let n = length xs; left = 2 * i + 1; right = 2 * i + 2;
          s = (if left < n \<and> before cmp (xs ! left) (xs ! i) then left else i)
      in if right < n \<and> before cmp (xs ! right) (xs ! s) then right else s)"

function siftDown :: "'e comparator \<Rightarrow> 'e list \<Rightarrow> nat \<Rightarrow> 'e list" where
  "siftDown cmp xs i =
     (let s = smallest cmp xs i in if s = i then xs else siftDown cmp (swap i s xs) s)"
  by pat_completeness auto
termination
  by (relation "measure (\<lambda>(_, xs, i). length xs - i)") (auto simp: smallest_def swap_def Let_def split: if_splits)

declare siftDown.simps [simp del]

text \<open>\<open>for (let i = k - 1; i >= 0; i--) siftDown(i)\<close>.\<close>

fun build_from :: "'e comparator \<Rightarrow> nat \<Rightarrow> 'e list \<Rightarrow> 'e list" where
  "build_from cmp 0 xs = xs"
| "build_from cmp (Suc k) xs = build_from cmp k (siftDown cmp xs k)"

definition buildHeap :: "'e comparator \<Rightarrow> 'e list \<Rightarrow> 'e list" where
  "buildHeap cmp xs = build_from cmp (length xs div 2) xs"

definition findMaxIndex :: "'e comparator \<Rightarrow> 'e list \<Rightarrow> nat" where
  "findMaxIndex cmp xs =
     (let start = length xs div 2
      in fold (\<lambda>i maxIdx. if js_lt (Fin 0) (cmp (xs ! i) (xs ! maxIdx)) then i else maxIdx)
           [start + 1..<length xs] start)"

definition remove_at :: "nat \<Rightarrow> 'e list \<Rightarrow> 'e list" where
  "remove_at i xs = take i xs @ drop (Suc i) xs"

datatype pq_error = PqTypeError

text \<open>
  \<open>enqueue\<close> answers with the evicted entry. A full queue without entries has no worst one, and
  comparing with \<open>undefined\<close> throws after the counter has been increased.
\<close>

definition enqueue ::
  "'v entry comparator \<Rightarrow> 'v \<Rightarrow> js_num \<Rightarrow> 'v priority_queue \<Rightarrow> (pq_error + 'v entry option) \<times> 'v priority_queue" where
  "enqueue cmp v p q =
     (let entry = \<lparr>e_priority = p, e_value = v, e_insertSeq = pq_seq q\<rparr>;
          q1 = q\<lparr>pq_seq := pq_seq q + 1\<rparr>;
          push = (\<lambda>xs. siftUp cmp (xs @ [entry]) (length xs))
      in if js_le (pq_maxSize q) (Fin (of_nat (length (pq_heap q))))
         then if pq_heap q = [] then (Inl PqTypeError, q1)
              else let worstIdx = findMaxIndex cmp (pq_heap q); worst = pq_heap q ! worstIdx
                   in if js_le (Fin 0) (cmp entry worst) then (Inr None, q1)
                      else (Inr (Some worst), q1\<lparr>pq_heap := push (buildHeap cmp (remove_at worstIdx (pq_heap q)))\<rparr>)
         else (Inr None, q1\<lparr>pq_heap := push (pq_heap q)\<rparr>))"

definition dequeue_entry :: "'v entry comparator \<Rightarrow> 'v priority_queue \<Rightarrow> 'v entry option \<times> 'v priority_queue" where
  "dequeue_entry cmp q =
     (case pq_heap q of
        [] \<Rightarrow> (None, q)
      | [e] \<Rightarrow> (Some e, q\<lparr>pq_heap := []\<rparr>)
      | e # es \<Rightarrow> (Some e, q\<lparr>pq_heap := siftDown cmp (last es # butlast es) 0\<rparr>))"

definition dequeue :: "'v entry comparator \<Rightarrow> 'v priority_queue \<Rightarrow> 'v option \<times> 'v priority_queue" where
  "dequeue cmp q = (case dequeue_entry cmp q of (e, q') \<Rightarrow> (map_option e_value e, q'))"

definition peek :: "'v priority_queue \<Rightarrow> 'v option" where
  "peek q = (case pq_heap q of [] \<Rightarrow> None | e # _ \<Rightarrow> Some (e_value e))"

definition peekPriority :: "'v priority_queue \<Rightarrow> js_num option" where
  "peekPriority q = (case pq_heap q of [] \<Rightarrow> None | e # _ \<Rightarrow> Some (e_priority e))"

lemma length_swap [simp]: "length (swap i j xs) = length xs"
  by (simp add: swap_def)

lemma length_siftDown [simp]: "length (siftDown cmp xs i) = length xs"
  by (induction cmp xs i rule: siftDown.induct) (subst siftDown.simps, simp add: Let_def)

lemma length_siftUp [simp]: "length (siftUp cmp xs i) = length xs"
  by (induction cmp xs i rule: siftUp.induct) (subst siftUp.simps, simp)

lemma dequeue_shrinks:
  "dequeue_entry cmp q = (Some e, q') \<Longrightarrow> Suc (length (pq_heap q')) = length (pq_heap q)"
  by (auto simp: dequeue_entry_def split: list.splits)

function drain_entries :: "'v entry comparator \<Rightarrow> 'v priority_queue \<Rightarrow> 'v entry list \<times> 'v priority_queue" where
  "drain_entries cmp q =
     (case dequeue_entry cmp q of
        (None, q') \<Rightarrow> ([], q')
      | (Some e, q') \<Rightarrow> (case drain_entries cmp q' of (es, q'') \<Rightarrow> (e # es, q'')))"
  by pat_completeness auto
termination
  by (relation "measure (\<lambda>(_, q). length (pq_heap q))") (auto dest!: dequeue_shrinks[OF sym])

declare drain_entries.simps [simp del]

definition drain :: "'v entry comparator \<Rightarrow> 'v priority_queue \<Rightarrow> 'v list \<times> 'v priority_queue" where
  "drain cmp q = (case drain_entries cmp q of (es, q') \<Rightarrow> (map e_value es, q'))"

definition removeWhere :: "'v entry comparator \<Rightarrow> ('v \<Rightarrow> bool) \<Rightarrow> 'v priority_queue \<Rightarrow> nat \<times> 'v priority_queue" where
  "removeWhere cmp pred q =
     (let xs = filter (\<lambda>e. \<not> pred (e_value e)) (pq_heap q)
      in (length (pq_heap q) - length xs, q\<lparr>pq_heap := buildHeap cmp xs\<rparr>))"

record pq_metrics =
  m_size :: nat
  m_maxSize :: js_num
  m_headPriority :: "js_num option"

definition pq_metrics_of :: "'v priority_queue \<Rightarrow> pq_metrics" where
  "pq_metrics_of q = \<lparr>m_size = length (pq_heap q), m_maxSize = pq_maxSize q, m_headPriority = peekPriority q\<rparr>"

section \<open>Arrays\<close>

lemma mset_swap_eq [simp]: "i < length xs \<Longrightarrow> j < length xs \<Longrightarrow> mset (swap i j xs) = mset xs"
  by (simp add: swap_def mset_swap)

lemma nth_swap: "i < length xs \<Longrightarrow> j < length xs \<Longrightarrow> k < length xs \<Longrightarrow>
    swap i j xs ! k = (if k = j then xs ! i else if k = i then xs ! j else xs ! k)"
  by (simp add: swap_def nth_list_update)

lemma smallest_cases:
  obtains (leaf) "smallest cmp xs i = i" | (left) "smallest cmp xs i = 2 * i + 1" "2 * i + 1 < length xs"
    | (right) "smallest cmp xs i = 2 * i + 2" "2 * i + 2 < length xs"
  by atomize_elim (auto simp: smallest_def Let_def)

lemma mset_siftUp [simp]: "i < length xs \<Longrightarrow> mset (siftUp cmp xs i) = mset xs"
proof (induction cmp xs i rule: siftUp.induct)
  case (1 cmp xs i)
  have "parent i < length xs" using 1(2) by (simp add: parent_def)
  with 1 show ?case by (subst siftUp.simps) (simp add: parent_def)
qed

lemma mset_siftDown [simp]: "i < length xs \<Longrightarrow> mset (siftDown cmp xs i) = mset xs"
proof (induction cmp xs i rule: siftDown.induct)
  case (1 cmp xs i)
  show ?case
  proof (cases rule: smallest_cases[of cmp xs i])
    case leaf
    then show ?thesis by (subst siftDown.simps) simp
  next
    case left
    with 1 show ?thesis by (subst siftDown.simps) (simp add: Let_def)
  next
    case right
    with 1 show ?thesis by (subst siftDown.simps) (simp add: Let_def)
  qed
qed

lemma mset_build_from [simp]: "k \<le> length xs \<Longrightarrow> mset (build_from cmp k xs) = mset xs"
  by (induction k arbitrary: xs) auto

lemma mset_buildHeap [simp]: "mset (buildHeap cmp xs) = mset xs"
  by (simp add: buildHeap_def)

lemma mset_remove_at: "i < length xs \<Longrightarrow> add_mset (xs ! i) (mset (remove_at i xs)) = mset xs"
proof -
  assume "i < length xs"
  then have "mset xs = mset (take i xs @ xs ! i # drop (Suc i) xs)" by (simp add: id_take_nth_drop[symmetric])
  then show ?thesis by (simp add: remove_at_def)
qed

lemma findMaxIndex_range:
  assumes "xs \<noteq> []" shows "findMaxIndex cmp xs < length xs"
proof -
  have "fold (\<lambda>i m. if js_lt (Fin 0) (cmp (xs ! i) (xs ! m)) then i else m) ks m < length xs"
    if "\<forall>i\<in>set ks. i < length xs" "m < length xs" for ks m
    using that by (induction ks arbitrary: m) auto
  then show ?thesis using assms by (simp add: findMaxIndex_def Let_def)
qed

section \<open>Comparators\<close>

locale heap_order =
  fixes cmp :: "'e comparator" and ok :: "'e \<Rightarrow> bool"
  assumes asym: "ok a \<Longrightarrow> ok b \<Longrightarrow> before cmp a b \<Longrightarrow> \<not> before cmp b a"
    and negtrans: "ok a \<Longrightarrow> ok b \<Longrightarrow> ok c \<Longrightarrow> \<not> before cmp b a \<Longrightarrow> \<not> before cmp c b \<Longrightarrow> \<not> before cmp c a"
    and positive: "ok a \<Longrightarrow> ok b \<Longrightarrow> js_lt (Fin 0) (cmp a b) = before cmp b a"
    and nonneg: "ok a \<Longrightarrow> ok b \<Longrightarrow> js_le (Fin 0) (cmp a b) = (\<not> before cmp a b)"
begin

definition le :: "'e \<Rightarrow> 'e \<Rightarrow> bool" where
  "le a b \<longleftrightarrow> ok a \<and> ok b \<and> \<not> before cmp b a"

lemma le_refl: "ok a \<Longrightarrow> le a a"
  using asym[of a a] by (auto simp: le_def)

lemma le_trans: "le a b \<Longrightarrow> le b c \<Longrightarrow> le a c"
  using negtrans by (auto simp: le_def)

lemma le_before: "ok a \<Longrightarrow> ok b \<Longrightarrow> before cmp a b \<Longrightarrow> le a b"
  using asym by (auto simp: le_def)

lemma le_not_before: "ok a \<Longrightarrow> ok b \<Longrightarrow> \<not> before cmp b a \<Longrightarrow> le a b"
  by (auto simp: le_def)

text \<open>The heap order on the edges whose upper end is at \<open>lo\<close> or above.\<close>

definition heap_from :: "nat \<Rightarrow> 'e list \<Rightarrow> bool" where
  "heap_from lo xs \<longleftrightarrow> (\<forall>x\<in>set xs. ok x) \<and>
     (\<forall>j<length xs. 0 < j \<longrightarrow> lo \<le> parent j \<longrightarrow> le (xs ! parent j) (xs ! j))"

abbreviation heap :: "'e list \<Rightarrow> bool" where
  "heap \<equiv> heap_from 0"

subsection \<open>Sifting up\<close>

definition up_inv :: "nat \<Rightarrow> 'e list \<Rightarrow> bool" where
  "up_inv i xs \<longleftrightarrow> (\<forall>x\<in>set xs. ok x) \<and> (\<forall>j<length xs. 0 < j \<longrightarrow>
     (j \<noteq> i \<longrightarrow> le (xs ! parent j) (xs ! j)) \<and> (parent j = i \<longrightarrow> 0 < i \<longrightarrow> le (xs ! parent i) (xs ! j)))"

lemma up_inv_swap:
  assumes "up_inv i xs" and "i < length xs" and "0 < i" and b: "before cmp (xs ! i) (xs ! parent i)"
  shows "up_inv (parent i) (swap i (parent i) xs)"
proof -
  let ?p = "parent i"
  have p: "?p < i" "?p < length xs" using assms(2,3) by (auto simp: parent_def)
  have oks: "\<forall>x\<in>set xs. ok x" using assms(1) by (simp add: up_inv_def)
  then have ok: "ok (xs ! k)" if "k < length xs" for k using that by simp
  have oks': "\<forall>x\<in>set (swap i ?p xs). ok x"
    using oks assms(2) p(2) by (metis mset_swap_eq set_mset_mset)
  have ip: "le (xs ! i) (xs ! ?p)" using b ok assms(2) p by (intro le_before) auto
  have edge: "le (xs ! parent j) (xs ! j)" if "j < length xs" "0 < j" "j \<noteq> i" for j
    using assms(1) that by (auto simp: up_inv_def)
  have skip: "le (xs ! ?p) (xs ! j)" if "j < length xs" "0 < j" "parent j = i" for j
    using assms(1,3) that by (auto simp: up_inv_def)
  have "(j \<noteq> ?p \<longrightarrow> le (swap i ?p xs ! parent j) (swap i ?p xs ! j)) \<and>
      (parent j = ?p \<longrightarrow> 0 < ?p \<longrightarrow> le (swap i ?p xs ! parent ?p) (swap i ?p xs ! j))"
    if j: "j < length xs" "0 < j" for j
  proof (intro conjI impI)
    have pj: "parent j < j" "parent j < length xs" using j by (auto simp: parent_def)
    assume "j \<noteq> ?p"
    show "le (swap i ?p xs ! parent j) (swap i ?p xs ! j)"
    proof (cases "j = i")
      case True
      with p assms(2) ip show ?thesis by (simp add: nth_swap)
    next
      case False
      with j \<open>j \<noteq> ?p\<close> p assms(2) pj ip edge[OF j False] skip[OF j] show ?thesis
        by (auto simp: nth_swap intro: le_trans)
    qed
  next
    assume pj: "parent j = ?p" and "0 < ?p"
    have pp: "parent ?p < ?p" using \<open>0 < ?p\<close> by (simp add: parent_def)
    have pe: "le (xs ! parent ?p) (xs ! ?p)" using edge[of ?p] p \<open>0 < ?p\<close> by simp
    have jp: "j \<noteq> ?p" using pj j(2) by (auto simp: parent_def)
    show "le (swap i ?p xs ! parent ?p) (swap i ?p xs ! j)"
    proof (cases "j = i")
      case True
      with p pp assms(2) pe show ?thesis by (simp add: nth_swap)
    next
      case False
      with jp j p pp assms(2) pe edge[OF j False] pj show ?thesis by (auto simp: nth_swap intro: le_trans)
    qed
  qed
  with oks' show ?thesis by (simp add: up_inv_def)
qed

lemma siftUp_heap: "i < length xs \<Longrightarrow> up_inv i xs \<Longrightarrow> heap (siftUp cmp xs i)"
proof (induction i arbitrary: xs rule: less_induct)
  case (less i)
  show ?case
  proof (cases "0 < i \<and> before cmp (xs ! i) (xs ! parent i)")
    case True
    then have "parent i < i" by (intro parent_less) simp
    with less.IH[OF this, of "swap i (parent i) xs"] up_inv_swap[OF less.prems(2,1)] less.prems(1) True
    show ?thesis by (subst siftUp.simps) simp
  next
    case False
    then have eq: "siftUp cmp xs i = xs" by (subst siftUp.simps) auto
    have ok: "ok (xs ! k)" if "k < length xs" for k using less.prems(2) that by (simp add: up_inv_def)
    have "le (xs ! parent j) (xs ! j)" if j: "j < length xs" "0 < j" for j
    proof (cases "j = i")
      case True
      have "parent j < length xs" using j by (simp add: parent_def)
      with True False j ok show ?thesis by (intro le_not_before) auto
    next
      case False
      with less.prems(2) j show ?thesis by (auto simp: up_inv_def)
    qed
    with less.prems(2) show ?thesis by (simp add: eq heap_from_def up_inv_def)
  qed
qed

lemma heap_push:
  assumes "heap xs" and "ok e"
  shows "heap (siftUp cmp (xs @ [e]) (length xs))"
proof (rule siftUp_heap)
  have par: "parent j < length xs" "parent j \<noteq> length xs" if "j < Suc (length xs)" "0 < j" for j
    using that by (auto simp: parent_def)
  have "le ((xs @ [e]) ! parent j) ((xs @ [e]) ! j)" if "j < Suc (length xs)" "0 < j" "j \<noteq> length xs" for j
    using assms(1) that par[of j] by (auto simp: heap_from_def nth_append)
  then show "up_inv (length xs) (xs @ [e])"
    using assms par(2) by (auto simp: up_inv_def heap_from_def)
qed simp

subsection \<open>Sifting down\<close>

definition down_inv :: "nat \<Rightarrow> nat \<Rightarrow> 'e list \<Rightarrow> bool" where
  "down_inv lo i xs \<longleftrightarrow> (\<forall>x\<in>set xs. ok x) \<and> lo \<le> i \<and> (\<forall>j<length xs. 0 < j \<longrightarrow> lo \<le> parent j \<longrightarrow>
     (parent j \<noteq> i \<longrightarrow> le (xs ! parent j) (xs ! j)) \<and>
     (parent j = i \<longrightarrow> 0 < i \<longrightarrow> lo \<le> parent i \<longrightarrow> le (xs ! parent i) (xs ! j)))"

lemma children: "0 < j \<Longrightarrow> parent j = i \<Longrightarrow> j = 2 * i + 1 \<or> j = 2 * i + 2"
  by (auto simp: parent_def)

lemma smallest_le:
  assumes "\<forall>x\<in>set xs. ok x" and "i < length xs" and "j < length xs" and "j = i \<or> j = 2 * i + 1 \<or> j = 2 * i + 2"
  shows "le (xs ! smallest cmp xs i) (xs ! j)"
proof -
  define l where "l = (if 2 * i + 1 < length xs \<and> before cmp (xs ! (2 * i + 1)) (xs ! i) then 2 * i + 1 else i)"
  have ok: "ok (xs ! k)" if "k < length xs" for k using assms(1) that by simp
  have l: "l < length xs" "le (xs ! l) (xs ! i)" "2 * i + 1 < length xs \<longrightarrow> le (xs ! l) (xs ! (2 * i + 1))"
    using ok assms(2) by (auto simp: l_def le_refl intro: le_before le_not_before)
  have s: "smallest cmp xs i = (if 2 * i + 2 < length xs \<and> before cmp (xs ! (2 * i + 2)) (xs ! l) then 2 * i + 2 else l)"
    by (simp add: smallest_def l_def Let_def)
  show ?thesis
  proof (cases "2 * i + 2 < length xs \<and> before cmp (xs ! (2 * i + 2)) (xs ! l)")
    case True
    then have rl: "le (xs ! (2 * i + 2)) (xs ! l)" using ok l(1) by (intro le_before) auto
    with True s l assms(3,4) ok show ?thesis by (auto intro: le_trans le_refl)
  next
    case False
    then have "2 * i + 2 < length xs \<longrightarrow> le (xs ! l) (xs ! (2 * i + 2))" using ok l(1) by (auto intro: le_not_before)
    with False s l assms(3,4) show ?thesis by auto
  qed
qed

lemma down_inv_swap:
  assumes inv: "down_inv lo i xs" and "i < length xs" and c: "smallest cmp xs i = c" "c \<noteq> i"
  shows "down_inv lo c (swap i c xs) \<and> c < length xs \<and> i < c"
proof -
  have cc: "c < length xs \<and> parent c = i \<and> i < c \<and> 0 < c"
    by (cases rule: smallest_cases[of cmp xs i]) (use c in \<open>auto simp: parent_def\<close>)
  have oks: "\<forall>x\<in>set xs. ok x" and lo: "lo \<le> i" using inv by (auto simp: down_inv_def)
  have oks': "\<forall>x\<in>set (swap i c xs). ok x"
    using oks assms(2) cc by (metis mset_swap_eq set_mset_mset)
  have best: "le (xs ! c) (xs ! j)" if "j < length xs" "j = i \<or> (0 < j \<and> parent j = i)" for j
    using smallest_le[OF oks assms(2) that(1)] that(2) children[of j i] c by auto
  have edge: "le (xs ! parent j) (xs ! j)" if "j < length xs" "0 < j" "lo \<le> parent j" "parent j \<noteq> i" for j
    using inv that by (auto simp: down_inv_def)
  have skip: "le (xs ! parent i) (xs ! c)" if "0 < i" "lo \<le> parent i"
    using inv that cc lo by (auto simp: down_inv_def)
  have "(parent j \<noteq> c \<longrightarrow> le (swap i c xs ! parent j) (swap i c xs ! j)) \<and>
      (parent j = c \<longrightarrow> 0 < c \<longrightarrow> lo \<le> parent c \<longrightarrow> le (swap i c xs ! parent c) (swap i c xs ! j))"
    if j: "j < length xs" "0 < j" "lo \<le> parent j" for j
  proof (intro conjI impI)
    have pj: "parent j < j" "parent j < length xs" using j by (auto simp: parent_def)
    assume np: "parent j \<noteq> c"
    show "le (swap i c xs ! parent j) (swap i c xs ! j)"
    proof (cases "parent j = i")
      case True
      with j pj cc assms(2) best[of j] best[of i] show ?thesis by (auto simp: nth_swap)
    next
      case False
      show ?thesis
      proof (cases "j = i")
        case True
        with j pj cc assms(2) skip show ?thesis by (auto simp: nth_swap)
      next
        case False
        have "j \<noteq> c" using \<open>parent j \<noteq> i\<close> cc by auto
        with False \<open>parent j \<noteq> i\<close> np j pj cc assms(2) edge[OF j] show ?thesis by (auto simp: nth_swap)
      qed
    qed
  next
    assume pj: "parent j = c"
    then have "j \<noteq> c" "j \<noteq> i" using j cc by (auto simp: parent_def)
    moreover have "parent j \<noteq> i" using pj cc by auto
    ultimately show "le (swap i c xs ! parent c) (swap i c xs ! j)"
      using pj j cc assms(2) edge[OF j] by (auto simp: nth_swap)
  qed
  with oks' lo cc show ?thesis by (auto simp: down_inv_def)
qed

lemma siftDown_heap: "i < length xs \<Longrightarrow> down_inv lo i xs \<Longrightarrow> heap_from lo (siftDown cmp xs i)"
proof (induction "length xs - i" arbitrary: xs i rule: less_induct)
  case less
  show ?case
  proof (cases "smallest cmp xs i = i")
    case True
    have oks: "\<forall>x\<in>set xs. ok x" using less.prems(2) by (simp add: down_inv_def)
    have "le (xs ! parent j) (xs ! j)" if j: "j < length xs" "0 < j" "lo \<le> parent j" for j
    proof (cases "parent j = i")
      case pi: True
      with smallest_le[OF oks less.prems(1) j(1)] children[OF j(2) pi] True show ?thesis by auto
    next
      case False
      with less.prems(2) j show ?thesis by (auto simp: down_inv_def)
    qed
    moreover have "siftDown cmp xs i = xs" using True by (subst siftDown.simps) simp
    ultimately show ?thesis using oks by (simp add: heap_from_def)
  next
    case False
    let ?c = "smallest cmp xs i"
    note d = down_inv_swap[OF less.prems(2,1) refl False]
    have "siftDown cmp xs i = siftDown cmp (swap i ?c xs) ?c" using False by (subst siftDown.simps) (simp add: Let_def)
    with less.hyps[of "swap i ?c xs" ?c] d show ?thesis by auto
  qed
qed

lemma heap_siftDown:
  assumes "heap_from (Suc i) xs" and "i < length xs"
  shows "heap_from i (siftDown cmp xs i)"
proof (rule siftDown_heap[OF assms(2)])
  have "parent i < i \<or> i = 0" by (auto simp: parent_def)
  with assms show "down_inv i i xs" by (auto simp: down_inv_def heap_from_def)
qed

lemma build_from_heap: "heap_from k xs \<Longrightarrow> k \<le> length xs \<Longrightarrow> heap (build_from cmp k xs)"
proof (induction k arbitrary: xs)
  case (Suc k)
  then have "heap_from k (siftDown cmp xs k)" by (intro heap_siftDown) auto
  with Suc show ?case by simp
qed simp

lemma buildHeap_heap: "\<forall>x\<in>set xs. ok x \<Longrightarrow> heap (buildHeap cmp xs)"
  unfolding buildHeap_def by (rule build_from_heap) (auto simp: heap_from_def parent_def)

subsection \<open>The two ends\<close>

lemma root_least: "heap xs \<Longrightarrow> j < length xs \<Longrightarrow> le (xs ! 0) (xs ! j)"
proof (induction j rule: less_induct)
  case (less j)
  show ?case
  proof (cases "j = 0")
    case True
    with less.prems show ?thesis by (auto simp: heap_from_def le_refl)
  next
    case False
    then have "parent j < j" by (simp add: parent_def)
    with less.IH[OF this less.prems(1)] less.prems False show ?thesis
      by (auto simp: heap_from_def intro: le_trans)
  qed
qed

lemma leaf_above: "heap xs \<Longrightarrow> j < length xs \<Longrightarrow> \<exists>l. length xs div 2 \<le> l \<and> l < length xs \<and> le (xs ! j) (xs ! l)"
proof (induction "length xs - j" arbitrary: j rule: less_induct)
  case less
  show ?case
  proof (cases "length xs div 2 \<le> j")
    case True
    with less.prems show ?thesis by (auto simp: heap_from_def le_refl)
  next
    case False
    let ?c = "2 * j + 1"
    have c: "?c < length xs" "parent ?c = j" using False by (auto simp: parent_def)
    with less.prems(1) have "le (xs ! j) (xs ! ?c)" by (fastforce simp: heap_from_def)
    moreover have "length xs - ?c < length xs - j" using c(1) by linarith
    then obtain l where "length xs div 2 \<le> l" "l < length xs" "le (xs ! ?c) (xs ! l)"
      using less.hyps[OF _ less.prems(1) c(1)] by auto
    ultimately show ?thesis by (blast intro: le_trans)
  qed
qed

lemma fold_max:
  assumes "\<forall>x\<in>set xs. ok x" and "\<forall>i\<in>set ks. i < length xs" and "m < length xs"
  shows "\<forall>i\<in>insert m (set ks). le (xs ! i)
    (xs ! fold (\<lambda>i m. if js_lt (Fin 0) (cmp (xs ! i) (xs ! m)) then i else m) ks m)"
  using assms(2,3)
proof (induction ks arbitrary: m)
  case Nil
  with assms(1) show ?case by (simp add: le_refl)
next
  case (Cons k ks)
  let ?m = "if js_lt (Fin 0) (cmp (xs ! k) (xs ! m)) then k else m"
  have ok: "ok (xs ! k)" "ok (xs ! m)" using assms(1) Cons.prems by auto
  have "le (xs ! m) (xs ! ?m)" "le (xs ! k) (xs ! ?m)"
    using positive[OF ok] ok by (auto simp: le_refl intro: le_before le_not_before)
  with Cons.IH[of ?m] Cons.prems show ?case by (auto intro: le_trans)
qed

lemma findMaxIndex_greatest:
  assumes "heap xs" and "xs \<noteq> []" and "x \<in> set xs"
  shows "le x (xs ! findMaxIndex cmp xs)"
proof -
  from assms(3) obtain j where j: "j < length xs" "x = xs ! j" by (auto simp: in_set_conv_nth)
  from leaf_above[OF assms(1) j(1)] obtain l where l: "length xs div 2 \<le> l" "l < length xs" "le x (xs ! l)"
    using j(2) by auto
  have oks: "\<forall>x\<in>set xs. ok x" using assms(1) by (simp add: heap_from_def)
  have "length xs div 2 < length xs" using assms(2) by (cases xs) auto
  with fold_max[OF oks, of "[length xs div 2 + 1..<length xs]" "length xs div 2"] l
  have "le (xs ! l) (xs ! findMaxIndex cmp xs)"
    unfolding findMaxIndex_def Let_def by (cases "l = length xs div 2") auto
  with l(3) show ?thesis by (rule le_trans)
qed

lemma heap_remove_worst:
  assumes "heap xs"
  shows "heap (buildHeap cmp (remove_at i xs))"
  using assms by (intro buildHeap_heap) (auto simp: heap_from_def remove_at_def dest: in_set_takeD in_set_dropD)

lemma heap_tail:
  assumes "heap (e # es)" and "es \<noteq> []"
  shows "heap (siftDown cmp (last es # butlast es) 0)"
proof (rule heap_siftDown)
  have len: "length es = Suc (length (butlast es))" using assms(2) by simp
  have nth: "(last es # butlast es) ! j = (e # es) ! j" if "0 < j" "j < length es" for j
    using that assms(2) by (cases j) (auto simp: nth_butlast)
  have oks: "\<forall>x\<in>set (last es # butlast es). ok x"
    using assms by (auto simp: heap_from_def dest: in_set_butlastD)
  have "le ((last es # butlast es) ! parent j) ((last es # butlast es) ! j)"
    if j: "j < length es" "0 < j" "Suc 0 \<le> parent j" for j
  proof -
    have pj: "parent j < j" using j(2) by (rule parent_less)
    have "le ((e # es) ! parent j) ((e # es) ! j)"
      using assms(1) j by (simp add: heap_from_def del: nth_Cons_pos)
    moreover have "(last es # butlast es) ! parent j = (e # es) ! parent j" using j pj by (intro nth) auto
    ultimately show ?thesis using nth[OF j(2,1)] by metis
  qed
  then show "heap_from (Suc 0) (last es # butlast es)"
    using oks len by (auto simp: heap_from_def simp del: length_butlast)
qed simp

end

section \<open>The default comparator\<close>

lemma fl_away:
  assumes "1 / 1024 \<le> x"
  shows "0 < fl x"
proof -
  have x: "0 < x" using assms by (rule less_le_trans[rotated]) simp
  have b: "2 powi binexp x \<le> x" "x < 2 powi (binexp x + 1)" using binexp_bounds[of x] x by auto
  have "(2::rat) powi (- 10) = 1 / 1024" by (simp add: power_int_minus)
  with assms b(2) have "(2::rat) powi (- 10) < 2 powi (binexp x + 1)" by simp
  then have "- 10 < binexp x + 1"
    using power_int_increasing[of "binexp x + 1" "- 10" "2::rat"] by (cases "binexp x + 1 \<le> - 10") auto
  then have u: "ulp x = 2 powi (binexp x - 52)" by (simp add: ulp_def max_def)
  have "1 \<le> (2::rat) powi 52" by simp
  also have "(2::rat) powi 52 = 2 powi binexp x / ulp x" by (simp add: u flip: power_int_diff)
  also have "\<dots> \<le> x / ulp x" by (rule divide_right_mono[OF b(1)]) (simp add: less_imp_le)
  finally have "1 \<le> \<lfloor>x / ulp x\<rfloor>" by (simp add: le_floor_iff)
  moreover have "\<lfloor>x / ulp x\<rfloor> \<le> round_even (x / ulp x)" unfolding round_even_def Let_def by auto
  ultimately have "0 < round_even (x / ulp x)" by linarith
  with x show ?thesis by (simp add: fl_def)
qed

lemma binexp_minus [simp]: "binexp (- x) = binexp x"
  by (simp add: binexp_def)

lemma round_even_minus: "round_even (- y) = - round_even y"
  by (cases "y = of_int \<lfloor>y\<rfloor>")
    (auto simp: round_even_def Let_def floor_minus ceiling_altdef)

text \<open>Differences of multiples of 1/1024 keep their sign when they are rounded.\<close>

lemma js_of_sign:
  fixes k :: int
  defines "x \<equiv> of_int k / 1024"
  shows "js_lt (js_of x) (Fin 0) \<longleftrightarrow> k < 0" "js_lt (Fin 0) (js_of x) \<longleftrightarrow> 0 < k"
    "js_le (Fin 0) (js_of x) \<longleftrightarrow> 0 \<le> k" "js_truthy (js_of x) \<longleftrightarrow> k \<noteq> 0"
proof -
  have pos: "0 < fl (of_int m / 1024)" if "0 < m" for m :: int
    using that by (intro fl_away) (simp add: divide_right_mono)
  have neg: "fl (- y) = - fl y" for y by (simp add: fl_def ulp_def round_even_minus)
  have "fl x = 0 \<longleftrightarrow> k = 0" "0 < fl x \<longleftrightarrow> 0 < k" "fl x < 0 \<longleftrightarrow> k < 0"
    using pos[of k] pos[of "- k"] neg[of x] by (cases k "0 :: int" rule: linorder_cases; auto simp: x_def)+
  then show "js_lt (js_of x) (Fin 0) \<longleftrightarrow> k < 0" "js_lt (Fin 0) (js_of x) \<longleftrightarrow> 0 < k"
    "js_le (Fin 0) (js_of x) \<longleftrightarrow> 0 \<le> k" "js_truthy (js_of x) \<longleftrightarrow> k \<noteq> 0"
    by (auto simp: js_of_def Let_def js_truthy_def not_less)
qed

definition ticks :: "'v entry \<Rightarrow> int" where
  "ticks e = (case e_priority e of Fin q \<Rightarrow> \<lfloor>q * 1024\<rfloor> | _ \<Rightarrow> 0)"

text \<open>A priority the comparator can order: a multiple of 1/1024, such as a time in milliseconds.\<close>

definition plain_priority :: "js_num \<Rightarrow> bool" where
  "plain_priority p \<longleftrightarrow> (case p of Fin q \<Rightarrow> of_int \<lfloor>q * 1024\<rfloor> = q * 1024 | _ \<Rightarrow> False)"

definition plain :: "'v entry \<Rightarrow> bool" where
  "plain e \<longleftrightarrow> plain_priority (e_priority e)"

lemma plain_ticks: "plain e \<Longrightarrow> e_priority e = Fin (of_int (ticks e) / 1024)"
  by (auto simp: plain_def plain_priority_def ticks_def split: js_num.splits)

definition due_before :: "'v entry \<Rightarrow> 'v entry \<Rightarrow> bool" where
  "due_before a b \<longleftrightarrow> ticks a < ticks b \<or> ticks a = ticks b \<and> e_insertSeq a < e_insertSeq b"

lemma default_comparator_cases:
  assumes "plain a" and "plain b"
  shows "before default_comparator a b \<longleftrightarrow> due_before a b"
    "js_lt (Fin 0) (default_comparator a b) \<longleftrightarrow> due_before b a"
    "js_le (Fin 0) (default_comparator a b) \<longleftrightarrow> \<not> due_before a b"
proof -
  have p: "js_sub (e_priority a) (e_priority b) = js_of (of_int (ticks a - ticks b) / 1024)"
    by (simp add: plain_ticks[OF assms(1)] plain_ticks[OF assms(2)] js_sub_def diff_divide_distrib)
  have q: "js_sub (Fin (of_nat (e_insertSeq a))) (Fin (of_nat (e_insertSeq b))) =
      js_of (of_int (1024 * (int (e_insertSeq a) - int (e_insertSeq b))) / 1024)"
    by (simp add: js_sub_def diff_divide_distrib)
  note cases = default_comparator_def p q js_or_def if_distrib[of "js_lt _"] if_distrib[of "js_le _"] js_of_sign due_before_def
  show "before default_comparator a b \<longleftrightarrow> due_before a b"
    unfolding cases if_distrib[of "\<lambda>z. js_lt z (Fin 0)"] by (auto simp: js_of_sign simp del: of_int_diff of_int_mult split: if_split)
  show "js_lt (Fin 0) (default_comparator a b) \<longleftrightarrow> due_before b a"
    unfolding cases by (auto split: if_split)
  show "js_le (Fin 0) (default_comparator a b) \<longleftrightarrow> \<not> due_before a b"
    unfolding cases by (auto split: if_split)
qed

interpretation pq: heap_order default_comparator plain
proof
  fix a b c :: "'v entry"
  assume ok: "plain a" "plain b"
  note d = default_comparator_cases[OF ok] default_comparator_cases[OF ok(2,1)]
  show "before default_comparator a b \<Longrightarrow> \<not> before default_comparator b a" by (auto simp: d due_before_def)
  show "js_lt (Fin 0) (default_comparator a b) = before default_comparator b a" by (simp add: d)
  show "js_le (Fin 0) (default_comparator a b) = (\<not> before default_comparator a b)" by (simp add: d)
  assume "plain c"
  with ok show "\<not> before default_comparator b a \<Longrightarrow> \<not> before default_comparator c b \<Longrightarrow> \<not> before default_comparator c a"
    by (auto simp: default_comparator_cases due_before_def)
qed

lemma pq_le: "plain a \<Longrightarrow> plain b \<Longrightarrow> pq.le a b \<longleftrightarrow> \<not> due_before b a"
  by (simp add: pq.le_def default_comparator_cases)

section \<open>Queues with the default comparator\<close>

definition pq_inv :: "'v priority_queue \<Rightarrow> bool" where
  "pq_inv q \<longleftrightarrow> pq.heap (pq_heap q) \<and> (\<forall>e\<in>set (pq_heap q). e_insertSeq e < pq_seq q) \<and>
     distinct (map e_insertSeq (pq_heap q))"

lemma pq_inv_plain: "pq_inv q \<Longrightarrow> e \<in> set (pq_heap q) \<Longrightarrow> plain e"
  by (simp add: pq_inv_def pq.heap_from_def)

text \<open>Insertion numbers decide between distinct entries of a queue.\<close>

lemma due_before_total:
  assumes "distinct (map e_insertSeq xs)" and "a \<in> set xs" and "b \<in> set xs" and "a \<noteq> b"
  shows "due_before a b \<or> due_before b a"
proof -
  have "e_insertSeq a \<noteq> e_insertSeq b" using assms by (auto simp: distinct_map inj_on_def)
  then show ?thesis by (auto simp: due_before_def)
qed

lemma distinct_seq_mset: "mset ys = mset xs \<Longrightarrow> distinct (map e_insertSeq ys) \<longleftrightarrow> distinct (map e_insertSeq xs)"
  by (metis mset_eq_imp_distinct_iff mset_map)

lemma dequeue_entry_inv:
  assumes inv: "pq_inv q" and run: "dequeue_entry default_comparator q = (r, q')"
  shows "case r of None \<Rightarrow> pq_heap q = [] \<and> q' = q
    | Some e \<Rightarrow> e \<in> set (pq_heap q) \<and> add_mset e (mset (pq_heap q')) = mset (pq_heap q) \<and> pq_inv q' \<and>
        (\<forall>x\<in>set (pq_heap q'). due_before e x)"
proof (cases "pq_heap q")
  case Nil
  with run show ?thesis by (auto simp: dequeue_entry_def)
next
  case (Cons e es)
  have heap: "pq.heap (e # es)" and seq: "\<forall>x\<in>set (e # es). e_insertSeq x < pq_seq q" "distinct (map e_insertSeq (e # es))"
    using inv Cons by (simp_all add: pq_inv_def)
  define ys where "ys = (if es = [] then [] else siftDown default_comparator (last es # butlast es) 0)"
  have m: "mset ys = mset es"
  proof (cases "es = []")
    case False
    then have "add_mset (last es) (mset (butlast es)) = mset (butlast es @ [last es])"
      by (simp del: append_butlast_last_id)
    also have "\<dots> = mset es" using False by (metis append_butlast_last_id)
    finally show ?thesis using False by (simp add: ys_def)
  qed (simp add: ys_def)
  have rq: "r = Some e" "q' = q\<lparr>pq_heap := ys\<rparr>"
    using run Cons by (auto simp: dequeue_entry_def ys_def split: list.splits)
  have set: "set ys = set es" using m by (metis set_mset_mset)
  have "pq.heap ys"
    using pq.heap_tail[OF heap] by (cases "es = []") (auto simp: ys_def pq.heap_from_def)
  then have inv': "pq_inv q'"
    using seq m set distinct_seq_mset[OF m] by (simp add: pq_inv_def rq)
  have "due_before e x" if x: "x \<in> set es" for x
  proof -
    obtain j where "j < length es" "x = es ! j" using x by (auto simp: in_set_conv_nth)
    with pq.root_least[OF heap, of "Suc j"] have "pq.le e x" by simp
    moreover have "plain e" "plain x" using heap x by (auto simp: pq.heap_from_def)
    moreover have "e \<noteq> x" using seq(2) x by (auto simp: rev_image_eqI)
    ultimately show ?thesis using due_before_total[OF seq(2), of e x] x by (auto simp: pq_le)
  qed
  with Cons inv' m set show ?thesis by (simp add: rq)
qed

lemma drain_entries_sorted:
  "pq_inv q \<Longrightarrow> drain_entries default_comparator q = (es, q') \<Longrightarrow>
     pq_heap q' = [] \<and> mset es = mset (pq_heap q) \<and> sorted_wrt due_before es"
proof (induction "length (pq_heap q)" arbitrary: q es q' rule: less_induct)
  case less
  obtain r p where r: "dequeue_entry default_comparator q = (r, p)" by (cases "dequeue_entry default_comparator q")
  note d = dequeue_entry_inv[OF less.prems(1) r]
  note run = less.prems(2)[unfolded drain_entries.simps[of default_comparator q] r]
  show ?case
  proof (cases r)
    case None
    with run d show ?thesis by auto
  next
    case (Some e)
    obtain fs p' where f: "drain_entries default_comparator p = (fs, p')" by (cases "drain_entries default_comparator p")
    then have es: "es = e # fs" "q' = p'" using run Some by auto
    have "length (pq_heap p) < length (pq_heap q)" using dequeue_shrinks[of default_comparator q e p] r Some by simp
    from less.hyps[OF this _ f] d Some
    have ih: "pq_heap p' = []" "mset fs = mset (pq_heap p)" "sorted_wrt due_before fs" by auto
    then have "set fs = set (pq_heap p)" by (metis set_mset_mset)
    with ih d Some es show ?thesis by simp
  qed
qed

text \<open>
  C32: The queue delivers in order. On every well-formed queue with the default comparator,
  \<open>dequeue\<close> answers \<open>undefined\<close> exactly when it is empty and otherwise removes one entry that is due
  before all others, earliest priority first and first in first out among equal priorities; and
  \<open>drain\<close> ends with the queue empty and the values of all its entries in that order.
\<close>

theorem queue_in_order:
  assumes "pq_inv q"
  shows "(case dequeue default_comparator q of
      (None, q') \<Rightarrow> pq_heap q = [] \<and> q' = q
    | (Some v, q') \<Rightarrow> pq_inv q' \<and> (\<exists>e. v = e_value e \<and> add_mset e (mset (pq_heap q')) = mset (pq_heap q) \<and>
        (\<forall>x\<in>set (pq_heap q'). due_before e x))) \<and>
    (\<exists>es q'. drain default_comparator q = (map e_value es, q') \<and> pq_heap q' = [] \<and>
       mset es = mset (pq_heap q) \<and> sorted_wrt due_before es)"
proof
  obtain r q' where r: "dequeue_entry default_comparator q = (r, q')" by (cases "dequeue_entry default_comparator q")
  show "case dequeue default_comparator q of
      (None, q') \<Rightarrow> pq_heap q = [] \<and> q' = q
    | (Some v, q') \<Rightarrow> pq_inv q' \<and> (\<exists>e. v = e_value e \<and> add_mset e (mset (pq_heap q')) = mset (pq_heap q) \<and>
        (\<forall>x\<in>set (pq_heap q'). due_before e x))"
    using dequeue_entry_inv[OF assms r] by (cases r) (auto simp: dequeue_def r)
  obtain es p where "drain_entries default_comparator q = (es, p)" by (cases "drain_entries default_comparator q")
  with drain_entries_sorted[OF assms this] show "\<exists>es q'. drain default_comparator q = (map e_value es, q') \<and>
      pq_heap q' = [] \<and> mset es = mset (pq_heap q) \<and> sorted_wrt due_before es"
    by (auto simp: drain_def)
qed

definition queue_full :: "'v priority_queue \<Rightarrow> bool" where
  "queue_full q \<longleftrightarrow> js_le (pq_maxSize q) (Fin (of_nat (length (pq_heap q))))"

lemma push_inv:
  assumes "pq.heap xs" and "\<forall>x\<in>set xs. e_insertSeq x < n" and "distinct (map e_insertSeq xs)"
    and "plain e" and "e_insertSeq e = n"
  shows "pq_inv (q\<lparr>pq_heap := siftUp default_comparator (xs @ [e]) (length xs), pq_seq := n + 1\<rparr>)"
    and "mset (siftUp default_comparator (xs @ [e]) (length xs)) = add_mset e (mset xs)"
proof -
  let ?ys = "siftUp default_comparator (xs @ [e]) (length xs)"
  show m: "mset ?ys = add_mset e (mset xs)" by simp
  then have "set ?ys = insert e (set xs)" by (metis set_mset_add_mset_insert set_mset_mset)
  moreover have "mset ?ys = mset (xs @ [e])" by simp
  then have "distinct (map e_insertSeq ?ys)"
    using distinct_seq_mset[of ?ys "xs @ [e]"] assms(2,3,5) by auto
  ultimately show "pq_inv (q\<lparr>pq_heap := ?ys, pq_seq := n + 1\<rparr>)"
    using pq.heap_push[OF assms(1,4)] assms(2,5) by (auto simp: pq_inv_def)
qed

lemma worst_entry:
  assumes "pq_inv q" and "pq_heap q \<noteq> []"
  defines "w \<equiv> pq_heap q ! findMaxIndex default_comparator (pq_heap q)"
  shows "w \<in> set (pq_heap q)" and "\<forall>x\<in>set (pq_heap q). x = w \<or> due_before x w"
proof -
  show w: "w \<in> set (pq_heap q)" using findMaxIndex_range[OF assms(2)] by (simp add: w_def)
  have heap: "pq.heap (pq_heap q)" and d: "distinct (map e_insertSeq (pq_heap q))" using assms(1) by (auto simp: pq_inv_def)
  show "\<forall>x\<in>set (pq_heap q). x = w \<or> due_before x w"
  proof
    fix x assume x: "x \<in> set (pq_heap q)"
    have "pq.le x w" unfolding w_def by (rule pq.findMaxIndex_greatest[OF heap assms(2) x])
    then show "x = w \<or> due_before x w"
      using due_before_total[OF d x w] pq_inv_plain[OF assms(1)] x w by (auto simp: pq_le)
  qed
qed

text \<open>The new entry in the place of the least urgent one.\<close>

lemma replace_worst:
  assumes inv: "pq_inv q" and "pq_heap q \<noteq> []" and e: "plain e" "e_insertSeq e = pq_seq q"
  defines "i \<equiv> findMaxIndex default_comparator (pq_heap q)"
  defines "ys \<equiv> buildHeap default_comparator (remove_at i (pq_heap q))"
  defines "zs \<equiv> siftUp default_comparator (ys @ [e]) (length ys)"
  shows "pq_inv (q\<lparr>pq_heap := zs, pq_seq := pq_seq q + 1\<rparr>)"
    and "add_mset (pq_heap q ! i) (mset zs) = add_mset e (mset (pq_heap q))"
proof -
  have heap: "pq.heap (pq_heap q)" "\<forall>x\<in>set (pq_heap q). e_insertSeq x < pq_seq q" "distinct (map e_insertSeq (pq_heap q))"
    using inv by (auto simp: pq_inv_def)
  have m: "add_mset (pq_heap q ! i) (mset ys) = mset (pq_heap q)"
    using mset_remove_at[OF findMaxIndex_range[OF assms(2)]] by (simp add: ys_def i_def)
  have sub: "set ys \<subseteq> set (pq_heap q)" using m by (metis set_mset_add_mset_insert set_mset_mset subset_insertI)
  have "distinct (map e_insertSeq (pq_heap q ! i # ys))"
    using distinct_seq_mset[of "pq_heap q ! i # ys" "pq_heap q"] m heap(3) by simp
  then have "pq_inv (q\<lparr>pq_heap := zs, pq_seq := pq_seq q + 1\<rparr>)" and m': "mset zs = add_mset e (mset ys)"
    using push_inv[OF pq.heap_remove_worst[OF heap(1)], of i "pq_seq q" e] sub heap(2) e unfolding ys_def zs_def by auto
  then show "pq_inv (q\<lparr>pq_heap := zs, pq_seq := pq_seq q + 1\<rparr>)"
    and "add_mset (pq_heap q ! i) (mset zs) = add_mset e (mset (pq_heap q))"
    unfolding m' m[symmetric] by (simp_all add: add_mset_commute)
qed

text \<open>
  C33: \<open>enqueue\<close> keeps the most urgent entries. Below its capacity the queue gains exactly the new
  entry. At capacity the least urgent entry is compared with the new one: when the new entry is more
  urgent it takes the place of exactly that entry, which is returned, and otherwise the queue keeps
  its entries and the new one is dropped. The heap order, on which delivery rests, is kept in every
  case. Only a queue whose capacity is zero or negative throws, as it has no entry to compare with.
  Among entries of the same, least urgent priority the one that is dropped is the newest, as the order
  of delivery (\<open>due_before\<close>) continues with the order of insertion; the comment on the constructor
  announces the oldest one. A new entry of that priority never displaces one that is there.
\<close>

theorem enqueue_keeps_urgent:
  assumes inv: "pq_inv q" and p: "plain_priority p" and run: "enqueue default_comparator v p q = (r, q')"
  defines "e \<equiv> \<lparr>e_priority = p, e_value = v, e_insertSeq = pq_seq q\<rparr>"
  shows "pq_inv q' \<and> pq_maxSize q' = pq_maxSize q \<and>
    (if \<not> queue_full q then r = Inr None \<and> mset (pq_heap q') = add_mset e (mset (pq_heap q))
     else if pq_heap q = [] then r = Inl PqTypeError \<and> pq_heap q' = []
     else \<exists>w\<in>set (pq_heap q). (\<forall>x\<in>set (pq_heap q). x = w \<or> due_before x w) \<and>
        (if due_before e w then r = Inr (Some w) \<and> add_mset w (mset (pq_heap q')) = add_mset e (mset (pq_heap q))
         else r = Inr None \<and> pq_heap q' = pq_heap q))"
proof -
  have pe: "plain e" "e_insertSeq e = pq_seq q" using p by (simp_all add: e_def plain_def)
  have heap: "pq.heap (pq_heap q)" "\<forall>x\<in>set (pq_heap q). e_insertSeq x < pq_seq q" "distinct (map e_insertSeq (pq_heap q))"
    using inv by (auto simp: pq_inv_def)
  have count: "pq_inv (q\<lparr>pq_seq := pq_seq q + 1\<rparr>)" using inv by (auto simp: pq_inv_def)
  note unfold = enqueue_def Let_def queue_full_def[symmetric] e_def[symmetric]
  consider (room) "\<not> queue_full q" | (none) "queue_full q" "pq_heap q = []" | (full) "queue_full q" "pq_heap q \<noteq> []" by blast
  then show ?thesis
  proof cases
    case room
    then have rq: "r = Inr None" "q' = q\<lparr>pq_heap := siftUp default_comparator (pq_heap q @ [e]) (length (pq_heap q)), pq_seq := pq_seq q + 1\<rparr>"
      using run unfolding unfold by auto
    with push_inv(1)[OF heap pe, of q] push_inv(2)[OF heap pe] room show ?thesis by simp
  next
    case none
    then show ?thesis using run count unfolding unfold by auto
  next
    case full
    let ?i = "findMaxIndex default_comparator (pq_heap q)"
    let ?w = "pq_heap q ! ?i" and ?ys = "buildHeap default_comparator (remove_at ?i (pq_heap q))"
    note w = worst_entry[OF inv full(2)]
    have pw: "plain ?w" using inv w(1) by (rule pq_inv_plain)
    show ?thesis
    proof (cases "due_before e ?w")
      case True
      then have rq: "r = Inr (Some ?w)" "q' = q\<lparr>pq_heap := siftUp default_comparator (?ys @ [e]) (length ?ys), pq_seq := pq_seq q + 1\<rparr>"
        using run full default_comparator_cases(3)[OF pe(1) pw] unfolding unfold by auto
      with replace_worst[OF inv full(2) pe] full True w show ?thesis by auto
    next
      case False
      then have "r = Inr None" "q' = q\<lparr>pq_seq := pq_seq q + 1\<rparr>"
        using run full default_comparator_cases(3)[OF pe(1) pw] unfolding unfold by auto
      with full False w count show ?thesis by auto
    qed
  qed
qed

definition sample_queue :: "string priority_queue" where
  "sample_queue = snd (enqueue default_comparator ''b'' (Fin 5) (snd (enqueue default_comparator ''a'' (Fin 7) (new_queue (Some (Fin 2))))))"

lemma sample_queue_heap: "sample_queue = \<lparr>pq_heap = [\<lparr>e_priority = Fin 5, e_value = ''b'', e_insertSeq = 1\<rparr>,
    \<lparr>e_priority = Fin 7, e_value = ''a'', e_insertSeq = 0\<rparr>], pq_maxSize = Fin 2, pq_seq = 2\<rparr>"
  by code_simp

lemma sample_queue_inv: "pq_inv sample_queue"
  by (auto simp: sample_queue_heap pq_inv_def pq.heap_from_def plain_def plain_priority_def less_Suc_eq parent_def
      pq_le due_before_def ticks_def nth_Cons')

theorem queue_in_order_witness: "fst (drain default_comparator sample_queue) = [''b'', ''a'']"
proof -
  have "\<exists>es q'. drain default_comparator sample_queue = (map e_value es, q') \<and> sorted_wrt due_before es"
    using queue_in_order[OF sample_queue_inv] by blast
  moreover have "fst (drain default_comparator sample_queue) = [''b'', ''a'']" by code_simp
  ultimately show ?thesis by simp
qed

theorem enqueue_keeps_urgent_witness:
  "\<exists>q'. enqueue default_comparator ''c'' (Fin 1) sample_queue =
     (Inr (Some \<lparr>e_priority = Fin 7, e_value = ''a'', e_insertSeq = 0\<rparr>), q') \<and> pq_inv q'"
proof -
  obtain r q' where run: "enqueue default_comparator ''c'' (Fin 1) sample_queue = (r, q')"
    by (cases "enqueue default_comparator ''c'' (Fin 1) sample_queue")
  have "fst (enqueue default_comparator ''c'' (Fin 1) sample_queue) =
      Inr (Some \<lparr>e_priority = Fin 7, e_value = ''a'', e_insertSeq = 0\<rparr>)" by code_simp
  with enqueue_keeps_urgent[OF sample_queue_inv _ run] run show ?thesis by (simp add: plain_priority_def)
qed

end
