(* ===== verification/Dead_Letter_Queue.thy ===== *)
theory Dead_Letter_Queue
  imports Js_Number
begin

text \<open>
  \<open>src/src/common/utils/dead-letter-queue.util.js\<close>: failed messages in quarantine, their retries and
  the bounded memory for them. The clock readings and the random numbers an operation draws are its
  arguments, in the order in which the code takes them. A processor is a computation on a world of
  its own that returns or throws.
\<close>

section \<open>The queue\<close>

text \<open>What the code reads of a thrown value: \<open>code\<close>, \<open>name\<close>, \<open>message\<close> and \<open>String(error)\<close>.\<close>

record thrown =
  t_code :: "string option"
  t_name :: "string option"
  t_message :: "string option"
  t_text :: string

fun or_else :: "string option \<Rightarrow> string \<Rightarrow> string" where
  "or_else None d = d"
| "or_else (Some s) d = (if s = [] then d else s)"

text \<open>An absent, \<open>null\<close> or falsy error is \<open>None\<close>.\<close>

definition errorCategory :: "thrown option \<Rightarrow> string" where
  "errorCategory e = (case e of
      None \<Rightarrow> ''UNKNOWN_ERROR''
    | Some t \<Rightarrow> or_else (t_code t) (or_else (t_name t) ''UNKNOWN_ERROR''))"

definition errorMessage :: "thrown option \<Rightarrow> string" where
  "errorMessage e = (case e of
      None \<Rightarrow> ''Unspecified error''
    | Some t \<Rightarrow> or_else (t_message t) (t_text t))"

record failure =
  f_category :: string
  f_message :: string
  f_timestamp :: int

record 'p dlq_message =
  m_id :: string
  m_channel :: string
  m_payload :: 'p
  m_attempts :: nat
  m_initialError :: failure
  m_lastError :: failure
  m_createdAt :: int
  m_updatedAt :: int
  m_isPoison :: bool
  m_nextRetryAt :: js_num
  m_redriveCount :: nat

record 'p dlq =
  maxRetries :: nat
  baseBackoffMs :: nat
  maxBackoffMs :: nat
  maxCapacity :: nat
  messages :: "(string, 'p dlq_message) js_map"
  errorTaxonomy :: "(string, nat) js_map"
  totalEnqueued :: nat
  totalRedriven :: nat
  totalEvicted :: nat

text \<open>\<open>options.x || d\<close> for counts: absent and zero take the default.\<close>

definition option_or :: "nat option \<Rightarrow> nat \<Rightarrow> nat" where
  "option_or x d = (case x of None \<Rightarrow> d | Some 0 \<Rightarrow> d | Some n \<Rightarrow> n)"

definition new_dlq :: "nat option \<Rightarrow> nat option \<Rightarrow> nat option \<Rightarrow> nat option \<Rightarrow> 'p dlq" where
  "new_dlq retries base limit capacity =
     \<lparr>maxRetries = option_or retries 3, baseBackoffMs = option_or base 100, maxBackoffMs = option_or limit 5000,
      maxCapacity = option_or capacity 1000, messages = [], errorTaxonomy = [], totalEnqueued = 0,
      totalRedriven = 0, totalEvicted = 0\<rparr>"

fun js_floor :: "js_num \<Rightarrow> js_num" where
  "js_floor (Fin x) = Fin (of_int \<lfloor>x\<rfloor>)"
| "js_floor x = x"

definition calculateNextRetry :: "'p dlq \<Rightarrow> int \<Rightarrow> js_num \<Rightarrow> nat \<Rightarrow> js_num" where
  "calculateNextRetry q now random attempt =
     (let factor = 2 ^ min attempt 10;
          delay = min (baseBackoffMs q * factor) (maxBackoffMs q);
          jitter = js_mul (js_mul (Fin (of_nat delay)) (js_of (1 / 5))) random
      in js_add (Fin (of_int now)) (js_floor (js_add (Fin (of_nat delay)) jitter)))"

datatype dlq_error = DlqTypeError string

definition count_error :: "string \<Rightarrow> 'p dlq \<Rightarrow> 'p dlq" where
  "count_error c q = q\<lparr>totalEnqueued := totalEnqueued q + 1,
     errorTaxonomy := map_set (errorTaxonomy q) c
       ((case map_get (errorTaxonomy q) c of Some n \<Rightarrow> n | None \<Rightarrow> 0) + 1)\<rparr>"

definition evict_oldest :: "'p dlq \<Rightarrow> 'p dlq" where
  "evict_oldest q =
     (if maxCapacity q \<le> length (messages q)
      then q\<lparr>messages := (case messages q of [] \<Rightarrow> [] | (k, _) # _ \<Rightarrow> map_delete (messages q) k),
             totalEvicted := totalEvicted q + 1\<rparr>
      else q)"

definition failed_again :: "'p dlq \<Rightarrow> int \<Rightarrow> int \<Rightarrow> js_num \<Rightarrow> thrown option \<Rightarrow> 'p dlq_message \<Rightarrow> 'p dlq_message" where
  "failed_again q now now' random error r =
     r\<lparr>m_attempts := m_attempts r + 1,
       m_lastError := \<lparr>f_category = errorCategory error, f_message = errorMessage error, f_timestamp = now\<rparr>,
       m_updatedAt := now,
       m_isPoison := maxRetries q \<le> m_attempts r + 1,
       m_nextRetryAt := calculateNextRetry q now' random (m_attempts r + 1)\<rparr>"

definition failed_first :: "'p dlq \<Rightarrow> int \<Rightarrow> int \<Rightarrow> js_num \<Rightarrow> string \<Rightarrow> string \<Rightarrow> 'p \<Rightarrow> thrown option \<Rightarrow> 'p dlq_message" where
  "failed_first q now now' random i channel payload error =
     (let e = \<lparr>f_category = errorCategory error, f_message = errorMessage error, f_timestamp = now\<rparr>
      in \<lparr>m_id = i, m_channel = channel, m_payload = payload, m_attempts = 1, m_initialError = e, m_lastError = e,
          m_createdAt = now, m_updatedAt = now, m_isPoison = maxRetries q \<le> 1,
          m_nextRetryAt = calculateNextRetry q now' random 1, m_redriveCount = 0\<rparr>)"

definition dlq_enqueue ::
  "int \<Rightarrow> int \<Rightarrow> js_num \<Rightarrow> string \<Rightarrow> string \<Rightarrow> 'p \<Rightarrow> thrown option \<Rightarrow> 'p dlq \<Rightarrow> (dlq_error + 'p dlq_message) \<times> 'p dlq" where
  "dlq_enqueue now now' random i channel payload error q =
     (if i = [] then (Inl (DlqTypeError ''Message ID must be a non-empty string''), q)
      else if channel = [] then (Inl (DlqTypeError ''Channel must be a non-empty string''), q)
      else case map_get (messages q) i of
        Some r \<Rightarrow>
          (let r' = failed_again q now now' random error r
           in (Inr r', count_error (errorCategory error) (q\<lparr>messages := map_set (messages q) i r'\<rparr>)))
      | None \<Rightarrow>
          (let q1 = evict_oldest q; r' = failed_first q now now' random i channel payload error
           in (Inr r', count_error (errorCategory error) (q1\<lparr>messages := map_set (messages q1) i r'\<rparr>))))"

definition canRetry :: "string \<Rightarrow> int \<Rightarrow> 'p dlq \<Rightarrow> bool" where
  "canRetry i now q = (case map_get (messages q) i of
      None \<Rightarrow> False
    | Some r \<Rightarrow> \<not> m_isPoison r \<and> js_le (m_nextRetryAt r) (Fin (of_int now)))"

text \<open>
  The processor and what the failure path draws: its clock readings and the random number. A
  processor that is no function is \<open>None\<close>.
\<close>

type_synonym ('p, 'w) processor = "'p \<Rightarrow> string \<Rightarrow> ('w, thrown option, unit) sem"

record draws =
  dr_now :: int
  dr_now' :: int
  dr_random :: js_num

definition redrive ::
  "draws \<Rightarrow> string \<Rightarrow> ('p, 'w) processor option \<Rightarrow> 'p dlq \<times> 'w \<Rightarrow> (dlq_error + bool) \<times> ('p dlq \<times> 'w)" where
  "redrive d i processor = (\<lambda>(q, w).
     case processor of
       None \<Rightarrow> (Inl (DlqTypeError ''Processor must be a function''), (q, w))
     | Some f \<Rightarrow> (case map_get (messages q) i of
         None \<Rightarrow> (Inr False, (q, w))
       | Some r \<Rightarrow> (case f (m_payload r) (m_channel r) w of
             (Inr _, w') \<Rightarrow> (Inr True, (q\<lparr>messages := map_delete (messages q) i, totalRedriven := totalRedriven q + 1\<rparr>, w'))
           | (Inl err, w') \<Rightarrow> (Inr False,
               (snd (dlq_enqueue (dr_now d) (dr_now' d) (dr_random d) (m_id r) (m_channel r) (m_payload r) err q), w')))))"

text \<open>
  The loop over the live map: a key that is removed is not visited again, and a failure updates its
  record in place, so the keys visited are the keys at the start.
\<close>

fun redrive_keys ::
  "(nat \<Rightarrow> draws) \<Rightarrow> int \<Rightarrow> ('p, 'w) processor option \<Rightarrow> string list \<Rightarrow> nat \<Rightarrow> nat \<Rightarrow> 'p dlq \<times> 'w \<Rightarrow>
     (dlq_error + nat \<times> nat) \<times> ('p dlq \<times> 'w)" where
  "redrive_keys d now processor [] succeeded failed s = (Inr (succeeded, failed), s)"
| "redrive_keys d now processor (i # ks) succeeded failed s =
     (if canRetry i now (fst s)
      then case redrive (d (succeeded + failed)) i processor s of
          (Inl e, s') \<Rightarrow> (Inl e, s')
        | (Inr ok, s') \<Rightarrow>
            if ok then redrive_keys d now processor ks (succeeded + 1) failed s'
            else redrive_keys d now processor ks succeeded (failed + 1) s'
      else redrive_keys d now processor ks succeeded failed s)"

definition redriveEligible ::
  "(nat \<Rightarrow> draws) \<Rightarrow> int \<Rightarrow> ('p, 'w) processor option \<Rightarrow> 'p dlq \<times> 'w \<Rightarrow> (dlq_error + nat \<times> nat) \<times> ('p dlq \<times> 'w)" where
  "redriveEligible d now processor s = redrive_keys d now processor (map fst (messages (fst s))) 0 0 s"

definition dlq_get :: "string \<Rightarrow> 'p dlq \<Rightarrow> 'p dlq_message option" where
  "dlq_get i q = map_get (messages q) i"

definition dlq_delete :: "string \<Rightarrow> 'p dlq \<Rightarrow> bool \<times> 'p dlq" where
  "dlq_delete i q = (map_get (messages q) i \<noteq> None, q\<lparr>messages := map_delete (messages q) i\<rparr>)"

definition dlq_clear :: "'p dlq \<Rightarrow> 'p dlq" where
  "dlq_clear q = q\<lparr>messages := [], errorTaxonomy := []\<rparr>"

record dlq_stats =
  s_size :: nat
  s_poisonCount :: nat
  s_totalEnqueued :: nat
  s_totalRedriven :: nat
  s_totalEvicted :: nat
  s_oldestMessageAgeMs :: int
  s_errorTaxonomy :: "(string, nat) js_map"

definition getStats :: "int \<Rightarrow> 'p dlq \<Rightarrow> dlq_stats" where
  "getStats now q =
     \<lparr>s_size = length (messages q),
      s_poisonCount = length (filter (\<lambda>(_, r). m_isPoison r) (messages q)),
      s_totalEnqueued = totalEnqueued q, s_totalRedriven = totalRedriven q, s_totalEvicted = totalEvicted q,
      s_oldestMessageAgeMs = (case messages q of
          [] \<Rightarrow> 0
        | (_, r) # rs \<Rightarrow> now - fold (\<lambda>(_, x) t. min (m_createdAt x) t) rs (m_createdAt r)),
      s_errorTaxonomy = errorTaxonomy q\<rparr>"

section \<open>The invariant\<close>

definition message_ok :: "'p dlq \<Rightarrow> string \<Rightarrow> 'p dlq_message \<Rightarrow> bool" where
  "message_ok q i r \<longleftrightarrow> m_id r = i \<and> i \<noteq> [] \<and> m_channel r \<noteq> [] \<and> 1 \<le> m_attempts r \<and>
     (m_isPoison r \<longleftrightarrow> maxRetries q \<le> m_attempts r)"

definition dlq_inv :: "'p dlq \<Rightarrow> bool" where
  "dlq_inv q \<longleftrightarrow> wf_map (messages q) \<and> 1 \<le> maxCapacity q \<and> length (messages q) \<le> maxCapacity q \<and>
     (\<forall>i r. map_get (messages q) i = Some r \<longrightarrow> message_ok q i r)"

lemma new_dlq_inv: "dlq_inv (new_dlq a b c d)"
  by (auto simp: dlq_inv_def new_dlq_def option_or_def split: option.split nat.split)

lemma count_error_simps [simp]:
  "messages (count_error c q) = messages q" "maxCapacity (count_error c q) = maxCapacity q"
  "maxRetries (count_error c q) = maxRetries q"
  by (simp_all add: count_error_def)

lemma evict_oldest_simps [simp]:
  "maxCapacity (evict_oldest q) = maxCapacity q" "maxRetries (evict_oldest q) = maxRetries q"
  by (simp_all add: evict_oldest_def)

lemma evict_oldest_room:
  assumes "dlq_inv q"
  shows "wf_map (messages (evict_oldest q))" "length (messages (evict_oldest q)) < maxCapacity q"
    "map_get (messages (evict_oldest q)) i = Some r \<Longrightarrow> map_get (messages q) i = Some r"
proof -
  have w: "wf_map (messages q)" "1 \<le> maxCapacity q" "length (messages q) \<le> maxCapacity q"
    using assms by (auto simp: dlq_inv_def)
  show "wf_map (messages (evict_oldest q))" using w(1) by (cases "messages q") (auto simp: evict_oldest_def wf_map_def distinct_delete)
  show "length (messages (evict_oldest q)) < maxCapacity q"
    using w(2,3) by (cases "messages q") (auto simp: evict_oldest_def less_Suc_eq_le length_delete_le)
  show "map_get (messages (evict_oldest q)) i = Some r \<Longrightarrow> map_get (messages q) i = Some r"
    by (cases "messages q") (auto simp: evict_oldest_def split: if_splits)
qed

lemma dlq_enqueue_inv:
  assumes "dlq_inv q"
  shows "dlq_inv (snd (dlq_enqueue now now' random i channel payload error q))"
proof (cases "i = [] \<or> channel = []")
  case True
  with assms show ?thesis by (auto simp: dlq_enqueue_def)
next
  case False
  show ?thesis
  proof (cases "map_get (messages q) i")
    case None
    note ev = evict_oldest_room[OF assms]
    have "map_get (messages (evict_oldest q)) i = None" using ev(3)[of i] None by (cases "map_get (messages (evict_oldest q)) i") auto
    with assms False None ev show ?thesis
      by (auto simp: dlq_enqueue_def Let_def dlq_inv_def message_ok_def failed_first_def length_map_set)
  next
    case (Some r)
    with assms False show ?thesis
      by (auto simp: dlq_enqueue_def Let_def dlq_inv_def message_ok_def failed_again_def length_map_set)
  qed
qed

lemma dlq_delete_inv: "dlq_inv q \<Longrightarrow> dlq_inv (q\<lparr>messages := map_delete (messages q) i, totalRedriven := n\<rparr>)"
  using length_delete_le[of i "messages q"] by (auto simp: dlq_inv_def message_ok_def)

lemma redrive_inv:
  assumes "dlq_inv (fst s)" shows "dlq_inv (fst (snd (redrive d i processor s)))"
  using assms by (cases s) (auto simp: redrive_def dlq_enqueue_inv dlq_delete_inv split: option.splits sum.splits prod.splits)

lemma redrive_keys_inv: "dlq_inv (fst s) \<Longrightarrow> dlq_inv (fst (snd (redrive_keys d now processor ks a b s)))"
proof (induction ks arbitrary: a b s)
  case (Cons i ks)
  then show ?case using redrive_inv[of s "d (a + b)" i processor] by (auto split: prod.splits sum.splits)
qed simp

section \<open>What a failure and a delivery do\<close>

text \<open>
  A message that failed again: one more attempt, the new error as the last one, the poison mark
  exactly when the attempts have reached the limit; its identity, its payload, the first error and
  the time it came are kept.
\<close>

definition retried :: "nat \<Rightarrow> thrown option \<Rightarrow> 'p dlq_message \<Rightarrow> 'p dlq_message \<Rightarrow> bool" where
  "retried limit error r r' \<longleftrightarrow>
     m_attempts r' = Suc (m_attempts r) \<and> (m_isPoison r' \<longleftrightarrow> limit \<le> Suc (m_attempts r)) \<and>
     f_category (m_lastError r') = errorCategory error \<and> f_message (m_lastError r') = errorMessage error \<and>
     m_id r' = m_id r \<and> m_channel r' = m_channel r \<and> m_payload r' = m_payload r \<and>
     m_initialError r' = m_initialError r \<and> m_createdAt r' = m_createdAt r"

lemma failed_again_retried: "retried (maxRetries q) error r (failed_again q now now' random error r)"
  by (simp add: retried_def failed_again_def)

lemma fst_map_set_known: "map_get m i = Some r \<Longrightarrow> map fst (map_set m i v) = map fst m"
  by (induction m) auto

lemma map_set_new: "map_get m i = None \<Longrightarrow> map_set m i v = m @ [(i, v)]"
  by (induction m) auto

lemma delete_absent: "k \<notin> fst ` set m \<Longrightarrow> map_delete m k = m"
  by (induction m) auto

lemma fst_map_delete: "map fst (map_delete m i) = filter (\<lambda>j. j \<noteq> i) (map fst m)"
  by (induction m) auto

lemma evict_oldest_messages:
  assumes "dlq_inv q"
  shows "messages (evict_oldest q) = (if length (messages q) < maxCapacity q then messages q else tl (messages q))"
  using assms by (cases "messages q") (auto simp: evict_oldest_def dlq_inv_def wf_map_def delete_absent)

definition tally :: "(string, nat) js_map \<Rightarrow> string \<Rightarrow> nat" where
  "tally m c = (case map_get m c of Some n \<Rightarrow> n | None \<Rightarrow> 0)"

lemma count_error_tally:
  "totalEnqueued (count_error c q) = totalEnqueued q + 1"
  "tally (errorTaxonomy (count_error c q)) k = tally (errorTaxonomy q) k + (if k = c then 1 else 0)"
  by (auto simp: count_error_def tally_def split: option.split)

lemma evict_oldest_counts [simp]:
  "totalEnqueued (evict_oldest q) = totalEnqueued q" "errorTaxonomy (evict_oldest q) = errorTaxonomy q"
  by (simp_all add: evict_oldest_def)

lemma enqueue_known:
  assumes "i \<noteq> []" and "channel \<noteq> []" and "map_get (messages q) i = Some r"
  shows "\<exists>r' q'. dlq_enqueue now now' random i channel payload error q = (Inr r', q') \<and>
    retried (maxRetries q) error r r' \<and> map_get (messages q') i = Some r' \<and>
    map fst (messages q') = map fst (messages q) \<and> (\<forall>j. j \<noteq> i \<longrightarrow> map_get (messages q') j = map_get (messages q) j) \<and>
    maxRetries q' = maxRetries q \<and> totalRedriven q' = totalRedriven q"
  using assms
  by (auto simp: dlq_enqueue_def Let_def failed_again_retried fst_map_set_known count_error_def)

lemma enqueue_new:
  assumes "dlq_inv q" and "i \<noteq> []" and "channel \<noteq> []" and "map_get (messages q) i = None"
  shows "\<exists>r' q'. dlq_enqueue now now' random i channel payload error q = (Inr r', q') \<and>
    m_id r' = i \<and> m_channel r' = channel \<and> m_payload r' = payload \<and> m_attempts r' = 1 \<and>
    m_initialError r' = \<lparr>f_category = errorCategory error, f_message = errorMessage error, f_timestamp = now\<rparr> \<and>
    m_lastError r' = m_initialError r' \<and>
    messages q' = (if length (messages q) < maxCapacity q then messages q else tl (messages q)) @ [(i, r')]"
proof -
  have "map_get (messages (evict_oldest q)) i = None"
    using evict_oldest_room(3)[OF assms(1), of i] assms(4) by (cases "map_get (messages (evict_oldest q)) i") auto
  with assms show ?thesis
    by (simp add: dlq_enqueue_def Let_def failed_first_def map_set_new evict_oldest_messages)
qed

text \<open>One outcome of the processor and what becomes of the message: untouched, gone, or failed again.\<close>

definition swept :: "'p dlq \<Rightarrow> 'p dlq \<Rightarrow> string \<Rightarrow> (thrown option + unit) option \<Rightarrow> bool" where
  "swept q q' i outcome = (case outcome of
      None \<Rightarrow> map_get (messages q') i = map_get (messages q) i
    | Some (Inr _) \<Rightarrow> map_get (messages q') i = None
    | Some (Inl err) \<Rightarrow> \<exists>r r'. map_get (messages q) i = Some r \<and> map_get (messages q') i = Some r' \<and>
        retried (maxRetries q) err r r')"

lemma redrive_step:
  assumes "dlq_inv q" and r: "map_get (messages q) i = Some r" and p: "f (m_payload r) (m_channel r) w = (out, w1)"
  shows "\<exists>q1. redrive d i (Some f) (q, w) = (Inr (\<not> isl out), (q1, w1)) \<and> maxRetries q1 = maxRetries q \<and>
    totalRedriven q1 = totalRedriven q + (if isl out then 0 else 1) \<and>
    map fst (messages q1) = filter (\<lambda>j. j \<noteq> i \<or> isl out) (map fst (messages q)) \<and>
    swept q q1 i (Some out) \<and> (\<forall>j. j \<noteq> i \<longrightarrow> map_get (messages q1) j = map_get (messages q) j)"
proof -
  have m: "m_id r = i" "i \<noteq> []" "m_channel r \<noteq> []"
    using assms(1) r by (auto simp: dlq_inv_def message_ok_def)
  show ?thesis
  proof (cases out)
    case (Inl err)
    with enqueue_known[OF m(2,3) r, of "dr_now d" "dr_now' d" "dr_random d" "m_payload r" err] p r m(1)
    show ?thesis by (auto simp: redrive_def swept_def)
  next
    case (Inr u)
    then show ?thesis using p r by (auto simp: redrive_def swept_def fst_map_delete)
  qed
qed

section \<open>A sweep and the run of its processor\<close>

text \<open>
  The messages that are due, and the processor on them one after the other: what each run of it
  answered and the world it leaves.
\<close>

definition due :: "int \<Rightarrow> 'p dlq \<Rightarrow> (string, 'p dlq_message) js_map" where
  "due now q = filter (\<lambda>(i, r). \<not> m_isPoison r \<and> js_le (m_nextRetryAt r) (Fin (of_int now))) (messages q)"

fun deliveries :: "('p, 'w) processor \<Rightarrow> (string, 'p dlq_message) js_map \<Rightarrow> 'w \<Rightarrow> (string, thrown option + unit) js_map \<times> 'w" where
  "deliveries f [] w = ([], w)"
| "deliveries f ((i, r) # rs) w =
     (case f (m_payload r) (m_channel r) w of (out, w1) \<Rightarrow>
        (case deliveries f rs w1 of (os, w2) \<Rightarrow> ((i, out) # os, w2)))"

definition delivered :: "(string, thrown option + unit) js_map \<Rightarrow> nat" where
  "delivered os = length (filter (\<lambda>(_, out). \<not> isl out) os)"

definition refused :: "(string, thrown option + unit) js_map \<Rightarrow> nat" where
  "refused os = length (filter (\<lambda>(_, out). isl out) os)"

lemma delivered_simps [simp]:
  "delivered [] = 0" "delivered ((i, out) # os) = (if isl out then 0 else 1) + delivered os"
  "refused [] = 0" "refused ((i, out) # os) = (if isl out then 1 else 0) + refused os"
  by (simp_all add: delivered_def refused_def)

lemma deliveries_keys: "deliveries f ms w = (os, w') \<Longrightarrow> map fst os = map fst ms"
  by (induction ms arbitrary: w os) (auto split: prod.splits)

definition due_in :: "int \<Rightarrow> 'p dlq \<Rightarrow> string list \<Rightarrow> (string, 'p dlq_message) js_map" where
  "due_in now q ks = map (\<lambda>i. (i, the (map_get (messages q) i))) (filter (\<lambda>i. canRetry i now q) ks)"

lemma due_in_due: 
  assumes "wf_map (messages q)" shows "due_in now q (map fst (messages q)) = due now q"
proof -
  have get: "map_get (messages q) (fst p) = Some (snd p)" if "p \<in> set (messages q)" for p
    using that assms by (simp add: wf_map_def)
  have "filter (\<lambda>p. canRetry (fst p) now q) (messages q) = due now q"
    unfolding due_def by (rule filter_cong) (auto simp: canRetry_def get dest: get)
  moreover have "map (\<lambda>p. (fst p, the (map_get (messages q) (fst p)))) (due now q) = due now q"
    by (rule map_idI) (auto simp: due_def dest!: get)
  ultimately show ?thesis by (simp add: due_in_def filter_map comp_def)
qed

lemma due_in_cong:
  "(\<And>j. j \<in> set ks \<Longrightarrow> map_get (messages q1) j = map_get (messages q) j) \<Longrightarrow> due_in now q1 ks = due_in now q ks"
  unfolding due_in_def by (rule map_cong) (auto simp: canRetry_def intro: filter_cong)

lemma swept_before:
  assumes "maxRetries q1 = maxRetries q" and "map_get (messages q1) j = map_get (messages q) j"
  shows "swept q1 q' j out = swept q q' j out"
  using assms by (cases out) (auto simp: swept_def split: sum.split)

lemma swept_after:
  assumes "swept q q1 i out" and "map_get (messages q') i = map_get (messages q1) i"
  shows "swept q q' i out"
  using assms by (auto simp: swept_def split: option.splits sum.splits)

lemma redrive_keys_run:
  assumes "deliveries f (due_in now q ks) w = (os, w')" and "distinct ks" and "dlq_inv q"
  shows "\<exists>q'. redrive_keys d now (Some f) ks a b (q, w) = (Inr (a + delivered os, b + refused os), (q', w')) \<and>
    maxRetries q' = maxRetries q \<and> totalRedriven q' = totalRedriven q + delivered os \<and>
    map fst (messages q') = filter (\<lambda>i. map_of os i \<noteq> Some (Inr ())) (map fst (messages q)) \<and>
    (\<forall>i. swept q q' i (map_of os i))"
  using assms
proof (induction ks arbitrary: q w os a b)
  case Nil
  then show ?case by (simp add: due_in_def swept_def)
next
  case (Cons i ks)
  show ?case
  proof (cases "canRetry i now q")
    case False
    with Cons.prems have "deliveries f (due_in now q ks) w = (os, w')" by (simp add: due_in_def)
    from Cons.IH[OF this] Cons.prems False show ?thesis by simp
  next
    case True
    then obtain r where r: "map_get (messages q) i = Some r" by (auto simp: canRetry_def split: option.splits)
    obtain out w1 where o: "f (m_payload r) (m_channel r) w = (out, w1)" by fastforce
    obtain os' where d: "deliveries f (due_in now q ks) w1 = (os', w')" and os: "os = (i, out) # os'"
      using Cons.prems(1) True r o by (auto simp: due_in_def split: prod.splits)
    obtain q1 where q1: "redrive (d (a + b)) i (Some f) (q, w) = (Inr (\<not> isl out), (q1, w1))"
      "maxRetries q1 = maxRetries q" "totalRedriven q1 = totalRedriven q + (if isl out then 0 else 1)"
      "map fst (messages q1) = filter (\<lambda>j. j \<noteq> i \<or> isl out) (map fst (messages q))"
      "swept q q1 i (Some out)" "\<forall>j. j \<noteq> i \<longrightarrow> map_get (messages q1) j = map_get (messages q) j"
      using redrive_step[OF Cons.prems(3) r, of f w out w1 "d (a + b)"] o by blast
    have i: "i \<notin> set ks" "distinct ks" using Cons.prems(2) by auto
    have inv: "dlq_inv q1" using redrive_inv[of "(q, w)" "d (a + b)" i "Some f"] Cons.prems(3) q1(1) by simp
    have "due_in now q1 ks = due_in now q ks" using q1(6) i(1) by (intro due_in_cong) auto
    then have "deliveries f (due_in now q1 ks) w1 = (os', w')" using d by simp
    from Cons.IH[OF this i(2) inv]
    obtain q' where q': "redrive_keys d now (Some f) ks (a + (if isl out then 0 else 1)) (b + (if isl out then 1 else 0)) (q1, w1)
        = (Inr (a + (if isl out then 0 else 1) + delivered os', b + (if isl out then 1 else 0) + refused os'), (q', w'))"
      "maxRetries q' = maxRetries q1" "totalRedriven q' = totalRedriven q1 + delivered os'"
      "map fst (messages q') = filter (\<lambda>i. map_of os' i \<noteq> Some (Inr ())) (map fst (messages q1))"
      "\<forall>i. swept q1 q' i (map_of os' i)" by blast
    have "fst ` set os' \<subseteq> set ks" using arg_cong[OF deliveries_keys[OF d], of set] by (auto simp: due_in_def)
    then have none: "map_of os' i = None" using i(1) by (auto simp: map_of_eq_None_iff)
    then have "map_get (messages q') i = map_get (messages q1) i" using q'(5)[rule_format, of i] by (simp add: swept_def)
    from swept_after[OF q1(5) this] have "swept q q' j (map_of os j)" for j
      using q'(5)[rule_format, of j] swept_before[OF q1(2), of j q' "map_of os' j"] q1(6) by (simp add: os)
    moreover have "map fst (messages q') = filter (\<lambda>i. map_of os i \<noteq> Some (Inr ())) (map fst (messages q))"
      unfolding q'(4) q1(4) filter_filter using none by (intro filter_cong refl) (cases out; auto simp: os)
    moreover have "redrive_keys d now (Some f) (i # ks) a b (q, w) = (Inr (a + delivered os, b + refused os), (q', w'))"
      using True q1(1) q'(1) by (simp add: os split: if_splits)
    ultimately show ?thesis using q1(2,3) q'(2,3) by (simp add: os)
  qed
qed

lemma redrive_keys_None:
  "redrive_keys d now None ks a b (q, w) =
     (if due_in now q ks = [] then Inr (a, b) else Inl (DlqTypeError ''Processor must be a function''), (q, w))"
  by (induction ks) (auto simp: due_in_def redrive_def)

section \<open>Properties\<close>

text \<open>
  C34: The quarantine is bounded and keeps its counts. Every operation keeps the queue within its
  capacity, with one record per message identifier, and a message marked as poison exactly when it
  has failed as often as the queue allows. A failure of a message that is already there is counted
  on its record, in its place; a new message starts with one attempt at the end, and takes the place
  of the oldest one when the queue is full. A redrive whose processor returns removes its message
  and no other; one whose processor throws keeps it with one more attempt.
\<close>

theorem dlq_invariant:
  fixes q :: "'a dlq" and w :: 'b
  assumes "dlq_inv q" and "i \<noteq> []" and "channel \<noteq> []"
    and "dlq_enqueue now now' random i channel payload error q = (answer, q')"
  shows "(dlq_inv q' \<and> dlq_inv (fst (snd (redrive d i processor (q, w)))) \<and>
      dlq_inv (fst (snd (redriveEligible ds now processor (q, w)))) \<and> dlq_inv (snd (dlq_delete i q)) \<and> dlq_inv (dlq_clear q)) \<and>
    totalEnqueued q' = totalEnqueued q + 1 \<and>
    (\<forall>c. tally (errorTaxonomy q') c = tally (errorTaxonomy q) c + (if c = errorCategory error then 1 else 0)) \<and>
    (\<exists>r'. answer = Inr r' \<and> map_get (messages q') i = Some r' \<and>
      (case map_get (messages q) i of
         Some r \<Rightarrow> retried (maxRetries q) error r r' \<and> map fst (messages q') = map fst (messages q) \<and>
           (\<forall>j. j \<noteq> i \<longrightarrow> map_get (messages q') j = map_get (messages q) j)
       | None \<Rightarrow> m_attempts r' = 1 \<and> m_payload r' = payload \<and> m_channel r' = channel \<and>
           messages q' = (if length (messages q) < maxCapacity q then messages q else tl (messages q)) @ [(i, r')])) \<and>
    (\<forall>(f :: ('a, 'b) processor) r out w1. map_get (messages q) i = Some r \<and> f (m_payload r) (m_channel r) w = (out, w1) \<longrightarrow>
      (\<exists>q1. redrive d i (Some f) (q, w) = (Inr (\<not> isl out), (q1, w1)) \<and> swept q q1 i (Some out) \<and>
         (\<forall>j. j \<noteq> i \<longrightarrow> map_get (messages q1) j = map_get (messages q) j)))"
proof (intro conjI)
  show "dlq_inv q'" using dlq_enqueue_inv[OF assms(1), of now now' random i channel payload error] assms(4) by simp
  show "dlq_inv (fst (snd (redrive d i processor (q, w))))" using redrive_inv[of "(q, w)"] assms(1) by simp
  show "dlq_inv (fst (snd (redriveEligible ds now processor (q, w))))"
    using redrive_keys_inv[of "(q, w)"] assms(1) by (simp add: redriveEligible_def)
  show "dlq_inv (snd (dlq_delete i q))"
    using length_delete_le[of i "messages q"] assms(1) by (auto simp: dlq_delete_def dlq_inv_def message_ok_def)
  show "dlq_inv (dlq_clear q)" using assms(1) by (simp add: dlq_clear_def dlq_inv_def)
  show "totalEnqueued q' = totalEnqueued q + 1"
    using assms(2-4) by (auto simp: dlq_enqueue_def Let_def count_error_tally split: option.splits)
  show "\<forall>c. tally (errorTaxonomy q') c = tally (errorTaxonomy q) c + (if c = errorCategory error then 1 else 0)"
    using assms(2-4) by (auto simp: dlq_enqueue_def Let_def count_error_tally split: option.splits)
  show "\<exists>r'. answer = Inr r' \<and> map_get (messages q') i = Some r' \<and>
      (case map_get (messages q) i of
         Some r \<Rightarrow> retried (maxRetries q) error r r' \<and> map fst (messages q') = map fst (messages q) \<and>
           (\<forall>j. j \<noteq> i \<longrightarrow> map_get (messages q') j = map_get (messages q) j)
       | None \<Rightarrow> m_attempts r' = 1 \<and> m_payload r' = payload \<and> m_channel r' = channel \<and>
           messages q' = (if length (messages q) < maxCapacity q then messages q else tl (messages q)) @ [(i, r')])"
  proof (cases "map_get (messages q) i")
    case (Some r)
    from enqueue_known[OF assms(2,3) this, of now now' random payload error] assms(4) Some show ?thesis by auto
  next
    case None
    have "map_get (tl (messages q)) i = None" using None by (cases "messages q") (auto split: if_splits)
    with enqueue_new[OF assms(1-3) None, of now now' random payload error] assms(4) None show ?thesis
      by (auto simp: map_add_def)
  qed
  show "\<forall>(f :: ('a, 'b) processor) r out w1. map_get (messages q) i = Some r \<and> f (m_payload r) (m_channel r) w = (out, w1) \<longrightarrow>
      (\<exists>q1. redrive d i (Some f) (q, w) = (Inr (\<not> isl out), (q1, w1)) \<and> swept q q1 i (Some out) \<and>
         (\<forall>j. j \<noteq> i \<longrightarrow> map_get (messages q1) j = map_get (messages q) j))"
  proof (intro allI impI, elim conjE)
    fix f :: "('a, 'b) processor" and r out w1
    assume "map_get (messages q) i = Some r" and "f (m_payload r) (m_channel r) w = (out, w1)"
    from redrive_step[OF assms(1) this(1), of f w out w1 d] this(2)
    show "\<exists>q1. redrive d i (Some f) (q, w) = (Inr (\<not> isl out), (q1, w1)) \<and> swept q q1 i (Some out) \<and>
         (\<forall>j. j \<noteq> i \<longrightarrow> map_get (messages q1) j = map_get (messages q) j)" by blast
  qed
qed

text \<open>
  C35: A sweep hands each message that is due and not poison to the processor once, in the order of
  the map and with its payload and channel, and nothing else: the world it leaves is the one these
  runs leave, and it answers how many of them returned and how many threw. Of the messages, the ones
  whose run returned are gone, the ones whose run threw stay with one more attempt and the error of
  that run, and every other message, poison ones above all, is left as it was, all in the old order.
  A processor that is no function makes the sweep throw, with nothing changed, if any message is due.
\<close>

theorem redrive_sweep:
  assumes "dlq_inv q" and "deliveries f (due now q) w = (os, w')"
  shows "(\<exists>q'. redriveEligible ds now (Some f) (q, w) = (Inr (delivered os, refused os), (q', w')) \<and>
      totalRedriven q' = totalRedriven q + delivered os \<and>
      map fst (messages q') = filter (\<lambda>i. map_of os i \<noteq> Some (Inr ())) (map fst (messages q)) \<and>
      (\<forall>i. case map_of os i of
         None \<Rightarrow> map_get (messages q') i = map_get (messages q) i
       | Some (Inr _) \<Rightarrow> map_get (messages q') i = None
       | Some (Inl err) \<Rightarrow> \<exists>r r'. map_get (messages q) i = Some r \<and> map_get (messages q') i = Some r' \<and>
           retried (maxRetries q) err r r')) \<and>
    redriveEligible ds now None (q, w) =
      (if due now q = [] then Inr (0, 0) else Inl (DlqTypeError ''Processor must be a function''), (q, w))"
proof
  have m: "wf_map (messages q)" "distinct (map fst (messages q))" using assms(1) by (auto simp: dlq_inv_def wf_map_def)
  show "redriveEligible ds now None (q, w) =
      (if due now q = [] then Inr (0, 0) else Inl (DlqTypeError ''Processor must be a function''), (q, w))"
    using redrive_keys_None[of ds now "map fst (messages q)" 0 0 q w] by (simp add: redriveEligible_def due_in_due[OF m(1)])
  from redrive_keys_run[of f now q "map fst (messages q)" w os w' ds 0 0] assms m(2)
  show "\<exists>q'. redriveEligible ds now (Some f) (q, w) = (Inr (delivered os, refused os), (q', w')) \<and>
      totalRedriven q' = totalRedriven q + delivered os \<and>
      map fst (messages q') = filter (\<lambda>i. map_of os i \<noteq> Some (Inr ())) (map fst (messages q)) \<and>
      (\<forall>i. case map_of os i of
         None \<Rightarrow> map_get (messages q') i = map_get (messages q) i
       | Some (Inr _) \<Rightarrow> map_get (messages q') i = None
       | Some (Inl err) \<Rightarrow> \<exists>r r'. map_get (messages q) i = Some r \<and> map_get (messages q') i = Some r' \<and>
           retried (maxRetries q) err r r')"
    by (auto simp: redriveEligible_def due_in_due[OF m(1)] swept_def)
qed

text \<open>A full queue of two messages, a processor that takes one kind of payload and counts its runs.\<close>

definition sample_dlq :: "string dlq" where
  "sample_dlq = snd (dlq_enqueue 0 0 (Fin 0) ''m2'' ''hcm'' ''y'' None
     (snd (dlq_enqueue 0 0 (Fin 0) ''m1'' ''hcm'' ''x'' None (new_dlq None None None (Some 2)))))"

lemma sample_dlq_inv: "dlq_inv sample_dlq"
  unfolding sample_dlq_def by (intro dlq_enqueue_inv new_dlq_inv)

definition sample_processor :: "(string, nat) processor" where
  "sample_processor payload channel n = (if payload = ''x'' then Inr () else Inl None, n + 1)"

theorem dlq_invariant_witness:
  "(\<exists>q'. snd (dlq_enqueue 1 1 (Fin 0) ''m3'' ''hcm'' ''z'' None sample_dlq) = q' \<and> dlq_inv q' \<and>
      map fst (messages q') = [''m2'', ''m3'']) \<and>
   (\<exists>q1 r'. redrive \<lparr>dr_now = 5, dr_now' = 5, dr_random = Fin 0\<rparr> ''m2'' (Some sample_processor) (sample_dlq, 0) = (Inr False, (q1, 1)) \<and>
      map_get (messages q1) ''m2'' = Some r' \<and> m_attempts r' = 2 \<and> map_get (messages q1) ''m1'' = map_get (messages sample_dlq) ''m1'')"
proof
  let ?e = "dlq_enqueue 1 1 (Fin 0) ''m3'' ''hcm'' ''z'' None sample_dlq"
  obtain answer q' where e: "?e = (answer, q')" by fastforce
  have keys: "map fst (messages sample_dlq) = [''m1'', ''m2'']" and cap: "maxCapacity sample_dlq = 2" by code_simp+
  have m: "map_get (messages sample_dlq) ''m3'' = None" "\<not> length (messages sample_dlq) < maxCapacity sample_dlq"
    using arg_cong[OF keys, of set] arg_cong[OF keys, of length] by (simp_all add: map_of_eq_None_iff cap)
  have ne: "''m3'' \<noteq> []" "''hcm'' \<noteq> []" by simp_all
  note i = dlq_invariant[OF sample_dlq_inv ne e, where w = "0::nat"]
  have "dlq_inv q'" by (rule conjunct1[OF conjunct1[OF i]])
  moreover have "\<exists>r'. messages q' = tl (messages sample_dlq) @ [(''m3'', r')]"
    using conjunct1[OF conjunct2[OF conjunct2[OF conjunct2[OF i]]]] by (simp only: m option.case if_False) blast
  then have "map fst (messages q') = [''m2'', ''m3'']" using keys by (auto simp: map_tl)
  ultimately show "\<exists>q'. snd ?e = q' \<and> dlq_inv q' \<and> map fst (messages q') = [''m2'', ''m3'']" by (simp add: e)
next
  let ?d = "\<lparr>dr_now = 5, dr_now' = 5, dr_random = Fin 0\<rparr>"
  let ?e = "dlq_enqueue 1 1 (Fin 0) ''m2'' ''hcm'' ''y'' None sample_dlq"
  obtain answer q' where e: "?e = (answer, q')" by fastforce
  have r: "map_option (\<lambda>r. (m_payload r, m_attempts r)) (map_get (messages sample_dlq) ''m2'') = Some (''y'', 1)" by code_simp
  then obtain r where r: "map_get (messages sample_dlq) ''m2'' = Some r" "m_payload r = ''y''" "m_attempts r = 1" by auto
  have p: "sample_processor (m_payload r) (m_channel r) 0 = (Inl None, 1)" by (simp add: sample_processor_def r(2))
  have ne: "''m2'' \<noteq> []" "''hcm'' \<noteq> []" by simp_all
  note i = dlq_invariant[OF sample_dlq_inv ne e, where w = "0::nat" and d = ?d]
  have "\<exists>q1. redrive ?d ''m2'' (Some sample_processor) (sample_dlq, 0) = (Inr (Not (isl (Inl None :: thrown option + unit))), (q1, 1)) \<and>
      swept sample_dlq q1 ''m2'' (Some (Inl None)) \<and> (\<forall>j. j \<noteq> ''m2'' \<longrightarrow> map_get (messages q1) j = map_get (messages sample_dlq) j)"
    by (rule conjunct2[OF conjunct2[OF conjunct2[OF conjunct2[OF i]]], THEN spec, THEN spec, THEN spec, THEN spec, THEN mp]) (rule conjI[OF r(1) p])
  with r(1,3) show "\<exists>q1 r'. redrive ?d ''m2'' (Some sample_processor) (sample_dlq, 0) = (Inr False, (q1, 1)) \<and>
      map_get (messages q1) ''m2'' = Some r' \<and> m_attempts r' = 2 \<and> map_get (messages q1) ''m1'' = map_get (messages sample_dlq) ''m1''"
    by (auto simp: swept_def retried_def)
qed

theorem redrive_sweep_witness:
  "\<exists>q'. redriveEligible (\<lambda>_. \<lparr>dr_now = 0, dr_now' = 0, dr_random = Fin 0\<rparr>) 1000 (Some sample_processor) (sample_dlq, 0) =
     (Inr (1, 1), (q', 2)) \<and> map fst (messages q') = [''m2'']"
proof -
  have d: "deliveries sample_processor (due 1000 sample_dlq) 0 = ([(''m1'', Inr ()), (''m2'', Inl None)], 2)" by code_simp
  have m: "map fst (messages sample_dlq) = [''m1'', ''m2'']" by code_simp
  from redrive_sweep[OF sample_dlq_inv d, of "\<lambda>_. \<lparr>dr_now = 0, dr_now' = 0, dr_random = Fin 0\<rparr>"] show ?thesis
    by (auto simp: m delivered_def refused_def)
qed

end
