(* ===== verification/Lock_Manager.thy ===== *)
theory Lock_Manager
  imports LL_Prelude
begin

text \<open>
  \<open>src/src/common/utils/lock.util.js\<close>: locks with a time limit and a token. The clock reading and the
  generated token of an operation are its arguments.
\<close>

section \<open>Operations\<close>

record lock_entry =
  lk_token :: string
  lk_expiresAt :: int

type_synonym locks = "(string, lock_entry) js_map"

record lock_result =
  lr_acquired :: bool
  lr_token :: "string option"
  lr_key :: string
  lr_expiresAt :: "int option"

definition acquireLock :: "int \<Rightarrow> string \<Rightarrow> string \<Rightarrow> int \<Rightarrow> locks \<Rightarrow> lock_result \<times> locks" where
  "acquireLock now token resourceKey ttlMs locks =
     (if (case map_get locks resourceKey of Some existing \<Rightarrow> now < lk_expiresAt existing | None \<Rightarrow> False)
      then (\<lparr>lr_acquired = False, lr_token = None, lr_key = resourceKey, lr_expiresAt = None\<rparr>, locks)
      else (\<lparr>lr_acquired = True, lr_token = Some token, lr_key = resourceKey, lr_expiresAt = Some (now + ttlMs)\<rparr>,
            map_set locks resourceKey \<lparr>lk_token = token, lk_expiresAt = now + ttlMs\<rparr>))"

definition releaseLock :: "string \<Rightarrow> string \<Rightarrow> locks \<Rightarrow> bool \<times> locks" where
  "releaseLock resourceKey token locks =
     (case map_get locks resourceKey of
        None \<Rightarrow> (False, locks)
      | Some existing \<Rightarrow> if lk_token existing \<noteq> token then (False, locks) else (True, map_delete locks resourceKey))"

definition isLocked :: "int \<Rightarrow> string \<Rightarrow> locks \<Rightarrow> bool \<times> locks" where
  "isLocked now resourceKey locks =
     (case map_get locks resourceKey of
        None \<Rightarrow> (False, locks)
      | Some existing \<Rightarrow> if lk_expiresAt existing \<le> now then (False, map_delete locks resourceKey) else (True, locks))"

definition reset_locks :: "locks \<Rightarrow> locks" where
  "reset_locks locks = []"

text \<open>
  \<open>withLock\<close> runs a function that may itself use the locks, and releases in \<open>finally\<close>; a resource
  that is taken is the error with code \<open>RESOURCE_LOCKED\<close> and status 409.
\<close>

datatype 'e lock_error = ResourceLocked string | LockBody 'e

definition withLock ::
  "int \<Rightarrow> string \<Rightarrow> string \<Rightarrow> int \<Rightarrow> (locks, 'e, 'a) sem \<Rightarrow> (locks, 'e lock_error, 'a) sem" where
  "withLock now token resourceKey ttlMs fn locks =
     (case acquireLock now token resourceKey ttlMs locks of (lock, locks1) \<Rightarrow>
        if \<not> lr_acquired lock then (Inl (ResourceLocked resourceKey), locks1)
        else case fn locks1 of (r, locks2) \<Rightarrow>
          (map_sum LockBody id r, snd (releaseLock resourceKey token locks2)))"

section \<open>Holding a lock\<close>

text \<open>The operations other parts of the program may call, with the time at which they call them.\<close>

datatype lock_event =
    Acquire int string string int
  | Release string string
  | Query int string

fun on_lock :: "lock_event \<Rightarrow> locks \<Rightarrow> bool \<times> locks" where
  "on_lock (Acquire now token k ttl) locks = (case acquireLock now token k ttl locks of (r, l) \<Rightarrow> (lr_acquired r, l))"
| "on_lock (Release k token) locks = releaseLock k token locks"
| "on_lock (Query now k) locks = isLocked now k locks"

fun lock_events :: "lock_event list \<Rightarrow> locks \<Rightarrow> bool list \<times> locks" where
  "lock_events [] locks = ([], locks)"
| "lock_events (e # es) locks = (case on_lock e locks of (b, l) \<Rightarrow> case lock_events es l of (bs, l') \<Rightarrow> (b # bs, l'))"

text \<open>Events that come before the lock runs out and do not carry the token of its holder.\<close>

fun outside :: "string \<Rightarrow> string \<Rightarrow> int \<Rightarrow> lock_event \<Rightarrow> bool" where
  "outside k token expires (Acquire now t k' ttl) = (now < expires)"
| "outside k token expires (Release k' t) = (k' = k \<longrightarrow> t \<noteq> token)"
| "outside k token expires (Query now k') = (now < expires)"

fun takes :: "string \<Rightarrow> lock_event \<Rightarrow> bool" where
  "takes k (Acquire now t k' ttl) = (k' = k)"
| "takes k _ = False"

lemma lock_event_keeps:
  assumes "map_get locks k = Some \<lparr>lk_token = token, lk_expiresAt = expires\<rparr>" and "outside k token expires e"
    and "on_lock e locks = (b, locks')"
  shows "map_get locks' k = Some \<lparr>lk_token = token, lk_expiresAt = expires\<rparr> \<and> (takes k e \<longrightarrow> \<not> b)"
  using assms
  by (cases e) (auto simp: acquireLock_def releaseLock_def isLocked_def split: option.splits if_splits)

lemma lock_events_keep:
  "map_get locks k = Some \<lparr>lk_token = token, lk_expiresAt = expires\<rparr> \<Longrightarrow> list_all (outside k token expires) es \<Longrightarrow>
   lock_events es locks = (bs, locks') \<Longrightarrow>
     map_get locks' k = Some \<lparr>lk_token = token, lk_expiresAt = expires\<rparr> \<and>
     list_all2 (\<lambda>e b. takes k e \<longrightarrow> \<not> b) es bs"
proof (induction es arbitrary: locks bs locks')
  case (Cons e es)
  obtain b l where e: "on_lock e locks = (b, l)" by (cases "on_lock e locks")
  obtain bs' l' where es: "lock_events es l = (bs', l')" by (cases "lock_events es l")
  from lock_event_keeps[OF Cons.prems(1) _ e] Cons.IH[OF _ _ es] Cons.prems(2,3) e es show ?case by auto
qed simp

text \<open>
  A lock excludes for its time. Once \<open>acquireLock\<close> has granted a resource, then whatever others
  do in the meantime (acquire any resource, query, release with tokens of their own), every attempt
  to acquire the resource before the granted time runs out is refused, and at the end the holder's
  own release succeeds and frees it.
\<close>

theorem lock_excludes:
  assumes "acquireLock now token k ttl locks = (r, locks1)" and "lr_acquired r"
    and "list_all (outside k token (now + ttl)) es" and "lock_events es locks1 = (bs, locks2)"
  shows "list_all2 (\<lambda>e b. takes k e \<longrightarrow> \<not> b) es bs \<and> fst (releaseLock k token locks2) \<and>
    map_get (snd (releaseLock k token locks2)) k = None"
proof -
  have "map_get locks1 k = Some \<lparr>lk_token = token, lk_expiresAt = now + ttl\<rparr>"
    using assms(1,2) by (auto simp: acquireLock_def split: if_splits option.splits)
  from lock_events_keep[OF this assms(3,4)] show ?thesis by (simp add: releaseLock_def)
qed

theorem lock_excludes_witness:
  "lock_events [Acquire 4 ''t2'' ''r'' 5, Release ''r'' ''t2''] (snd (acquireLock 0 ''t1'' ''r'' 5 [])) =
     ([False, False], [(''r'', \<lparr>lk_token = ''t1'', lk_expiresAt = 5\<rparr>)]) \<and>
   fst (releaseLock ''r'' ''t1'' [(''r'', \<lparr>lk_token = ''t1'', lk_expiresAt = 5\<rparr>)])"
proof -
  have run: "lock_events [Acquire 4 ''t2'' ''r'' 5, Release ''r'' ''t2''] (snd (acquireLock 0 ''t1'' ''r'' 5 [])) =
     ([False, False], [(''r'', \<lparr>lk_token = ''t1'', lk_expiresAt = 5\<rparr>)])" by code_simp
  have "lr_acquired (fst (acquireLock 0 ''t1'' ''r'' 5 []))" by code_simp
  from lock_excludes[OF prod.collapse[symmetric] this _ run] run show ?thesis by simp
qed

end
