(* ===== verification/Idempotency_Manager.thy ===== *)
theory Idempotency_Manager
  imports LL_Prelude Hash_Util
begin

text \<open>
  \<open>src/src/common/utils/idempotency.util.js\<close>: the in-memory manager of idempotency keys. A payload
  is a JSON value; \<open>begin\<close> uses it through its fingerprint only, so the operation takes the
  fingerprint that \<open>generateFingerprint\<close> computes. A key that is no non-empty string throws a \<open>TypeError\<close>.
\<close>

section \<open>Operations\<close>

datatype key_state = IN_FLIGHT | COMPLETED

record 'r idem_entry =
  ie_state :: key_state
  ie_fingerprint :: string
  ie_response :: "'r option"
  ie_expiresAt :: int

record 'r idem_manager =
  im_ttlMs :: int
  im_store :: "(string, 'r idem_entry) js_map"

definition new_manager :: "int option \<Rightarrow> 'r idem_manager" where
  "new_manager ttl = \<lparr>im_ttlMs = (case ttl of None \<Rightarrow> 86400000 | Some t \<Rightarrow> if t = 0 then 86400000 else t), im_store = []\<rparr>"

datatype idem_error = KeyTypeError | KeyReused

datatype 'r begin_status = StatusNew | StatusInFlight | StatusCompleted "'r option"

definition generateFingerprint :: "platform \<Rightarrow> json \<Rightarrow> string" where
  "generateFingerprint P payload =
     sha256 P (case payload of
         JStr raw \<Rightarrow> raw
       | _ \<Rightarrow> the (stringify P (if json_truthy payload then payload else JObj [])))"

definition idem_cleanup :: "int \<Rightarrow> 'r idem_manager \<Rightarrow> 'r idem_manager" where
  "idem_cleanup now m = m\<lparr>im_store := filter (\<lambda>(k, v). \<not> ie_expiresAt v \<le> now) (im_store m)\<rparr>"

text \<open>The clock is read for the new entry first and by \<open>_cleanup\<close> after it.\<close>

definition idem_begin ::
  "int \<Rightarrow> int \<Rightarrow> string \<Rightarrow> string \<Rightarrow> 'r idem_manager \<Rightarrow> (idem_error + 'r begin_status) \<times> 'r idem_manager" where
  "idem_begin now now' key fingerprint m =
     (if key = [] then (Inl KeyTypeError, m)
      else let m1 = idem_cleanup now' m in
        case map_get (im_store m1) key of
          Some existing \<Rightarrow>
            if ie_fingerprint existing \<noteq> fingerprint then (Inl KeyReused, m1)
            else if ie_state existing = IN_FLIGHT then (Inr StatusInFlight, m1)
            else (Inr (StatusCompleted (ie_response existing)), m1)
        | None \<Rightarrow>
            (Inr StatusNew, m1\<lparr>im_store := map_set (im_store m1) key
               \<lparr>ie_state = IN_FLIGHT, ie_fingerprint = fingerprint, ie_response = None, ie_expiresAt = now + im_ttlMs m1\<rparr>\<rparr>))"

definition idem_complete :: "string \<Rightarrow> 'r option \<Rightarrow> 'r idem_manager \<Rightarrow> 'r idem_manager" where
  "idem_complete key response m =
     (case map_get (im_store m) key of
        None \<Rightarrow> m
      | Some existing \<Rightarrow> m\<lparr>im_store := map_set (im_store m) key (existing\<lparr>ie_state := COMPLETED, ie_response := response\<rparr>)\<rparr>)"

definition idem_remove :: "string \<Rightarrow> 'r idem_manager \<Rightarrow> 'r idem_manager" where
  "idem_remove key m = m\<lparr>im_store := map_delete (im_store m) key\<rparr>"

definition idem_size :: "'r idem_manager \<Rightarrow> nat" where
  "idem_size m = length (im_store m)"

section \<open>The life of a key\<close>

definition idem_wf :: "'r idem_manager \<Rightarrow> bool" where
  "idem_wf m \<longleftrightarrow> wf_map (im_store m)"

lemma map_get_filter:
  "wf_map xs \<Longrightarrow> map_get (filter (\<lambda>(k, v). P v) xs) k = (case map_get xs k of Some v \<Rightarrow> if P v then Some v else None | None \<Rightarrow> None)"
  by (induction xs) (auto simp: wf_map_def map_of_eq_None_iff[symmetric] split: option.splits)

lemma idem_cleanup_wf: "idem_wf m \<Longrightarrow> idem_wf (idem_cleanup now m)"
  by (simp add: idem_wf_def idem_cleanup_def wf_map_def distinct_map_filter)

lemma idem_cleanup_get:
  assumes "idem_wf m"
  shows "map_get (im_store (idem_cleanup now m)) k =
    (case map_get (im_store m) k of Some v \<Rightarrow> if now < ie_expiresAt v then Some v else None | None \<Rightarrow> None)"
  using map_get_filter[of "im_store m" "\<lambda>v. \<not> ie_expiresAt v \<le> now" k] assms
  by (simp add: idem_cleanup_def idem_wf_def not_le split: option.split)

datatype 'r idem_event = Begin int int string string | Complete string "'r option" | Remove string

fun on_key :: "'r idem_event \<Rightarrow> 'r idem_manager \<Rightarrow> 'r idem_manager" where
  "on_key (Begin now now' k f) m = snd (idem_begin now now' k f m)"
| "on_key (Complete k r) m = idem_complete k r m"
| "on_key (Remove k) m = idem_remove k m"

lemma idem_event_wf: "idem_wf m \<Longrightarrow> idem_wf (on_key e m)"
  using idem_cleanup_wf[of m]
  by (cases e) (auto simp: idem_begin_def idem_complete_def idem_remove_def idem_wf_def Let_def split: option.splits)

text \<open>Events that leave the key alone: other keys, or the key again before it expires.\<close>

fun leaves :: "string \<Rightarrow> int \<Rightarrow> 'r idem_event \<Rightarrow> bool" where
  "leaves k expires (Begin now now' k' f) = (now' < expires)"
| "leaves k expires (Complete k' r) = (k' \<noteq> k)"
| "leaves k expires (Remove k') = (k' \<noteq> k)"

lemma idem_event_leaves:
  assumes "idem_wf m" and "map_get (im_store m) k = Some v" and "leaves k (ie_expiresAt v) e"
  shows "map_get (im_store (on_key e m)) k = Some v"
proof (cases e)
  case (Begin now now' k' f)
  then have "map_get (im_store (idem_cleanup now' m)) k = Some v"
    using assms by (simp add: idem_cleanup_get)
  then show ?thesis by (cases "k' = []"; cases "map_get (im_store (idem_cleanup now' m)) k'") (auto simp: Begin idem_begin_def Let_def assms(2))
qed (use assms in \<open>auto simp: idem_complete_def idem_remove_def split: option.splits\<close>)

lemma idem_events_leave:
  "idem_wf m \<Longrightarrow> map_get (im_store m) k = Some v \<Longrightarrow> list_all (leaves k (ie_expiresAt v)) es \<Longrightarrow>
   idem_wf (fold on_key es m) \<and> map_get (im_store (fold on_key es m)) k = Some v"
  by (induction es arbitrary: m) (auto simp: idem_event_wf idem_event_leaves)

lemma begin_known:
  assumes "idem_wf m" and "map_get (im_store m) k = Some v" and "now' < ie_expiresAt v" and "k \<noteq> []"
  shows "fst (idem_begin now now' k f m) =
    (if ie_fingerprint v \<noteq> f then Inl KeyReused
     else if ie_state v = IN_FLIGHT then Inr StatusInFlight else Inr (StatusCompleted (ie_response v)))"
  using assms by (simp add: idem_begin_def Let_def idem_cleanup_get)

text \<open>
  C36: A key is processed once while it lives. After a \<open>begin\<close> that answered NEW, and whatever else
  happens to other keys and however often the same key is begun again before it expires, the same
  payload is answered IN_FLIGHT until the request completes and then COMPLETED with the stored
  response, never NEW, and another payload under the key is refused.
\<close>

theorem key_processed_once:
  fixes m :: "'r idem_manager" and response :: "'r option"
  assumes "idem_wf m" and "idem_begin now now0 k f m = (Inr StatusNew, m1)"
    and "list_all (leaves k (now + im_ttlMs m)) es" and "list_all (leaves k (now + im_ttlMs m)) es'"
    and "later < now + im_ttlMs m"
  defines "running \<equiv> fold on_key es m1"
  defines "finished \<equiv> fold on_key es' (idem_complete k response running)"
  shows "fst (idem_begin t later k g running) = (if g = f then Inr StatusInFlight else Inl KeyReused) \<and>
    fst (idem_begin t later k g finished) = (if g = f then Inr (StatusCompleted response) else Inl KeyReused)"
proof -
  let ?v = "\<lparr>ie_state = IN_FLIGHT, ie_fingerprint = f, ie_response = None, ie_expiresAt = now + im_ttlMs m\<rparr>"
  have k: "k \<noteq> []" using assms(2) by (auto simp: idem_begin_def)
  have m1: "idem_wf m1" "map_get (im_store m1) k = Some ?v"
    using assms(2) k idem_event_wf[OF assms(1), of "Begin now now0 k f"]
    by (auto simp: idem_begin_def Let_def idem_cleanup_def split: option.splits if_splits)
  from idem_events_leave[OF m1] assms(3) have r: "idem_wf running" "map_get (im_store running) k = Some ?v"
    by (auto simp: running_def)
  let ?w = "?v\<lparr>ie_state := COMPLETED, ie_response := response\<rparr>"
  have c: "idem_wf (idem_complete k response running)" "map_get (im_store (idem_complete k response running)) k = Some ?w"
    using idem_event_wf[OF r(1), of "Complete k response"] r(2) by (auto simp: idem_complete_def)
  from idem_events_leave[OF c] assms(4) have d: "idem_wf finished" "map_get (im_store finished) k = Some ?w"
    by (auto simp: finished_def)
  from begin_known[OF r _ k] begin_known[OF d _ k] assms(5) show ?thesis by auto
qed

theorem key_processed_once_witness:
  "fst (idem_begin 1 1 ''k'' ''f'' (idem_complete ''k'' (Some (201::nat)) (snd (idem_begin 0 0 ''k'' ''f'' (new_manager None))))) =
     Inr (StatusCompleted (Some 201))"
proof -
  have b: "idem_begin 0 0 ''k'' ''f'' (new_manager None :: nat idem_manager) = (Inr StatusNew, snd (idem_begin 0 0 ''k'' ''f'' (new_manager None)))"
    by code_simp
  have "idem_wf (new_manager None :: nat idem_manager)" "im_ttlMs (new_manager None :: nat idem_manager) = 86400000"
    by (simp_all add: idem_wf_def new_manager_def)
  with key_processed_once[OF _ b, of "[]" "[]" 1 1 "''f''" "Some 201"] show ?thesis by simp
qed

end
