(* ===== verification/Rate_Limiters.thy ===== *)
theory Rate_Limiters
  imports Js_Number
begin

text \<open>
  \<open>src/src/common/utils/rate-limiter.util.js\<close>, the sliding window over the times of accepted requests
  per key, and \<open>src/src/common/utils/token-bucket-limiter.util.js\<close>, the bucket refilled by elapsed
  time, on doubles. Clock readings are arguments.
\<close>

section \<open>The sliding window\<close>

record rate_limiter =
  windowMs :: int
  maxRequests :: nat
  hits :: "(string, int list) js_map"

text \<open>The options of the constructor; absent and zero take the defaults.\<close>

definition new_limiter :: "int option \<Rightarrow> nat option \<Rightarrow> rate_limiter" where
  "new_limiter window limit =
     \<lparr>windowMs = (case window of None \<Rightarrow> 60000 | Some w \<Rightarrow> if w = 0 then 60000 else w),
      maxRequests = (case limit of None \<Rightarrow> 100 | Some n \<Rightarrow> if n = 0 then 100 else n), hits = []\<rparr>"

record rate_result =
  rr_allowed :: bool
  rr_remaining :: nat
  rr_resetTimeMs :: int
  rr_total :: nat

definition check :: "int \<Rightarrow> string \<Rightarrow> rate_limiter \<Rightarrow> rate_result \<times> rate_limiter" where
  "check now key l =
     (let windowStart = now - windowMs l;
          timestamps = filter (\<lambda>t. windowStart < t) (case map_get (hits l) key of Some ts \<Rightarrow> ts | None \<Rightarrow> [])
      in if maxRequests l \<le> length timestamps
         then (\<lparr>rr_allowed = False, rr_remaining = 0, rr_resetTimeMs = hd timestamps + windowMs l, rr_total = length timestamps\<rparr>,
               l\<lparr>hits := map_set (hits l) key timestamps\<rparr>)
         else let timestamps' = timestamps @ [now]
              in (\<lparr>rr_allowed = True, rr_remaining = maxRequests l - length timestamps',
                   rr_resetTimeMs = hd timestamps' + windowMs l, rr_total = length timestamps'\<rparr>,
                  l\<lparr>hits := map_set (hits l) key timestamps'\<rparr>))"

definition reset_key :: "string \<Rightarrow> rate_limiter \<Rightarrow> rate_limiter" where
  "reset_key key l = l\<lparr>hits := map_delete (hits l) key\<rparr>"

definition clear_limiter :: "rate_limiter \<Rightarrow> rate_limiter" where
  "clear_limiter l = l\<lparr>hits := []\<rparr>"

text \<open>A sequence of checks, and the times at which requests of a key were let through.\<close>

fun run_checks :: "(int \<times> string) list \<Rightarrow> rate_limiter \<Rightarrow> bool list \<times> rate_limiter" where
  "run_checks [] l = ([], l)"
| "run_checks ((now, key) # cs) l =
     (case check now key l of (r, l1) \<Rightarrow> case run_checks cs l1 of (bs, l2) \<Rightarrow> (rr_allowed r # bs, l2))"

definition accepted :: "string \<Rightarrow> (int \<times> string) list \<Rightarrow> bool list \<Rightarrow> int list" where
  "accepted key cs bs = map (fst \<circ> fst) (filter (\<lambda>((_, k), b). b \<and> k = key) (zip cs bs))"

definition in_window :: "int \<Rightarrow> int \<Rightarrow> int list \<Rightarrow> int list" where
  "in_window w t ts = filter (\<lambda>x. t - w < x \<and> x \<le> t) ts"

lemma accepted_Cons: "accepted key ((now, k) # cs) (b # bs) = (if b \<and> k = key then now # accepted key cs bs else accepted key cs bs)"
  by (simp add: accepted_def)

text \<open>
  The times accepted so far, latest last: those still in the window are stored, and no window of the
  past holds more than the limit.
\<close>

definition window_inv :: "string \<Rightarrow> int \<Rightarrow> int list \<Rightarrow> rate_limiter \<Rightarrow> bool" where
  "window_inv key now acc l \<longleftrightarrow> (\<forall>x\<in>set acc. x \<le> now) \<and>
     filter (\<lambda>x. now - windowMs l < x) acc =
       filter (\<lambda>x. now - windowMs l < x) (case map_get (hits l) key of Some ts \<Rightarrow> ts | None \<Rightarrow> []) \<and>
     (\<forall>t. length (in_window (windowMs l) t acc) \<le> maxRequests l)"

lemma filter_later: "a \<le> b \<Longrightarrow> filter (\<lambda>x. a < x) xs = filter (\<lambda>x. a < x) ys \<Longrightarrow> filter (\<lambda>x. b < x) xs = filter (\<lambda>x. b < x) ys"
  for a b :: int
proof -
  assume ab: "a \<le> b" and eq: "filter (\<lambda>x. a < x) xs = filter (\<lambda>x. a < x) ys"
  have "filter (\<lambda>x. b < x) zs = filter (\<lambda>x. b < x) (filter (\<lambda>x. a < x) zs)" for zs
    using ab by (auto simp: filter_filter intro: filter_cong)
  then show ?thesis using eq by metis
qed

lemma check_window:
  assumes "window_inv key past acc l" and "past \<le> now" and "check now k l = (r, l1)"
  shows "window_inv key now (if rr_allowed r \<and> k = key then acc @ [now] else acc) l1 \<and>
    windowMs l1 = windowMs l \<and> maxRequests l1 = maxRequests l"
proof -
  let ?w = "windowMs l" and ?n = "maxRequests l"
  let ?ts = "\<lambda>k. case map_get (hits l) k of Some ts \<Rightarrow> ts | None \<Rightarrow> []"
  let ?live = "filter (\<lambda>x. now - ?w < x)"
  have old: "\<forall>x\<in>set acc. x \<le> now" and lim: "\<And>t. length (in_window ?w t acc) \<le> ?n"
    using assms(1,2) by (auto simp: window_inv_def)
  have eq: "?live acc = ?live (?ts key)"
    using assms(1,2) by (intro filter_later[of "past - ?w" "now - ?w"]) (simp_all add: window_inv_def)
  have l1: "windowMs l1 = ?w" "maxRequests l1 = ?n"
    "rr_allowed r \<longleftrightarrow> length (?live (?ts k)) < ?n"
    "hits l1 = map_set (hits l) k (?live (?ts k) @ (if rr_allowed r then [now] else []))"
    using assms(3) by (auto simp: check_def Let_def split: if_splits)
  show ?thesis
  proof (cases "k = key")
    case False
    then show ?thesis using l1 eq old lim by (auto simp: window_inv_def)
  next
    case True
    show ?thesis
    proof (cases "rr_allowed r")
      case no: False
      then show ?thesis using l1 eq old lim True by (auto simp: window_inv_def)
    next
      case yes: True
      have "length (in_window ?w t (acc @ [now])) \<le> ?n" for t
      proof (cases "now \<le> t")
        case False
        then show ?thesis using lim[of t] by (simp add: in_window_def)
      next
        case later: True
        have sub: "in_window ?w t acc = in_window ?w t (?live acc)"
          using later by (auto simp: in_window_def filter_filter intro!: filter_cong)
        have "length (in_window ?w t acc) \<le> length (?live acc)" by (subst sub) (simp only: in_window_def length_filter_le)
        moreover have "length (?live acc) + 1 \<le> ?n" using yes l1(3) eq True by simp
        moreover have "length (in_window ?w t (acc @ [now])) \<le> length (in_window ?w t acc) + 1" by (simp add: in_window_def)
        ultimately show ?thesis by linarith
      qed
      then show ?thesis using l1 eq old True yes by (auto simp: window_inv_def)
    qed
  qed
qed

lemma run_checks_window:
  "window_inv key past acc l \<Longrightarrow> sorted (past # map fst cs) \<Longrightarrow> run_checks cs l = (bs, l') \<Longrightarrow>
   length (in_window (windowMs l) t (acc @ accepted key cs bs)) \<le> maxRequests l"
proof (induction cs arbitrary: past acc l bs l')
  case Nil
  then show ?case by (simp add: accepted_def window_inv_def)
next
  case (Cons c cs)
  obtain now k where c: "c = (now, k)" by (cases c)
  obtain r l1 where r: "check now k l = (r, l1)" by (cases "check now k l")
  obtain bs' l2 where b: "run_checks cs l1 = (bs', l2)" by (cases "run_checks cs l1")
  have "past \<le> now" "sorted (now # map fst cs)" using Cons.prems(2) c by auto
  note w = check_window[OF Cons.prems(1) this(1) r]
  from Cons.IH[OF conjunct1[OF w] \<open>sorted (now # map fst cs)\<close> b] w Cons.prems(3) c r b show ?case
    by (auto simp: accepted_Cons split: if_splits)
qed

text \<open>
  C37: The sliding window limits every window. For any sequence of checks of any keys in the order of
  time from a new limiter, and for every point in time, at most \<open>maxRequests\<close> requests of a key were
  let through in the window that ends at that point.
\<close>

theorem sliding_window_limit:
  assumes "sorted (map fst cs)" and "run_checks cs (new_limiter window limit) = (bs, l')"
  shows "length (in_window (windowMs (new_limiter window limit)) t (accepted key cs bs)) \<le> maxRequests (new_limiter window limit)"
proof -
  let ?past = "case cs of [] \<Rightarrow> 0 | c # _ \<Rightarrow> fst c"
  have "window_inv key ?past [] (new_limiter window limit)" by (simp add: window_inv_def new_limiter_def in_window_def)
  moreover have "sorted (?past # map fst cs)" using assms(1) by (cases cs) auto
  ultimately show ?thesis using run_checks_window[of key ?past "[]" _ cs bs l' t] assms(2) by simp
qed

theorem sliding_window_limit_witness:
  "run_checks [(0, ''a''), (1, ''a''), (2, ''a'')] (new_limiter (Some 10) (Some 2)) =
     ([True, True, False], snd (run_checks [(0, ''a''), (1, ''a''), (2, ''a'')] (new_limiter (Some 10) (Some 2)))) \<and>
   length (in_window 10 5 (accepted ''a'' [(0, ''a''), (1, ''a''), (2, ''a'')] [True, True, False])) \<le> 2"
proof -
  have run: "run_checks [(0, ''a''), (1, ''a''), (2, ''a'')] (new_limiter (Some 10) (Some 2)) =
     ([True, True, False], snd (run_checks [(0, ''a''), (1, ''a''), (2, ''a'')] (new_limiter (Some 10) (Some 2))))"
    by code_simp
  with sliding_window_limit[OF _ run, of 5 "''a''"] show ?thesis by (simp add: new_limiter_def)
qed

section \<open>The token bucket\<close>

record token_bucket =
  tb_capacity :: js_num
  tb_refillRatePerSec :: js_num
  tb_tokens :: js_num
  tb_lastRefill :: int

definition num_or :: "js_num option \<Rightarrow> js_num \<Rightarrow> js_num" where
  "num_or x d = (case x of Some v \<Rightarrow> if js_truthy v then v else d | None \<Rightarrow> d)"

definition new_bucket :: "int \<Rightarrow> js_num option \<Rightarrow> js_num option \<Rightarrow> token_bucket" where
  "new_bucket now capacity rate =
     (let c = num_or capacity (Fin 10)
      in \<lparr>tb_capacity = c, tb_refillRatePerSec = num_or rate (Fin 5), tb_tokens = c, tb_lastRefill = now\<rparr>)"

definition refill :: "int \<Rightarrow> token_bucket \<Rightarrow> token_bucket" where
  "refill now b =
     (let elapsedSeconds = js_of (of_int (now - tb_lastRefill b) / 1000)
      in b\<lparr>tb_tokens := js_min (tb_capacity b) (js_add (tb_tokens b) (js_mul elapsedSeconds (tb_refillRatePerSec b))),
           tb_lastRefill := now\<rparr>)"

definition tryConsume :: "int \<Rightarrow> js_num \<Rightarrow> token_bucket \<Rightarrow> bool \<times> token_bucket" where
  "tryConsume now tokens b =
     (let b1 = refill now b
      in if js_le tokens (tb_tokens b1) then (True, b1\<lparr>tb_tokens := js_sub (tb_tokens b1) tokens\<rparr>) else (False, b1))"

text \<open>\<open>Number(x.toFixed(2))\<close>: the nearest hundredth of the exact value, the larger one of two.\<close>

definition js_fixed2 :: "js_num \<Rightarrow> js_num" where
  "js_fixed2 x = (case x of Fin q \<Rightarrow> js_of (of_int \<lfloor>q * 100 + 1 / 2\<rfloor> / 100) | _ \<Rightarrow> x)"

definition getAvailableTokens :: "int \<Rightarrow> token_bucket \<Rightarrow> js_num \<times> token_bucket" where
  "getAvailableTokens now b = (let b1 = refill now b in (js_fixed2 (tb_tokens b1), b1))"

definition bucket_inv :: "token_bucket \<Rightarrow> bool" where
  "bucket_inv b \<longleftrightarrow> (case (tb_capacity b, tb_refillRatePerSec b, tb_tokens b) of
     (Fin c, Fin r, Fin t) \<Rightarrow> 0 \<le> c \<and> 0 < r \<and> 0 \<le> t | _ \<Rightarrow> False)"

lemma bucket_invE:
  assumes "bucket_inv b"
  obtains c r t where "tb_capacity b = Fin c" "tb_refillRatePerSec b = Fin r" "tb_tokens b = Fin t" "0 \<le> c" "0 < r" "0 \<le> t"
  using assms by (auto simp: bucket_inv_def split: js_num.splits)

text \<open>
  Time that goes forward fills the bucket up to its capacity and never below zero, in double
  arithmetic as well.
\<close>

lemma refill_bounds:
  assumes "bucket_inv b" and "tb_lastRefill b \<le> now"
  shows "bucket_inv (refill now b) \<and> js_le (tb_tokens (refill now b)) (tb_capacity b)"
proof -
  obtain c r t where f: "tb_capacity b = Fin c" "tb_refillRatePerSec b = Fin r" "tb_tokens b = Fin t" "0 \<le> c" "0 < r" "0 \<le> t"
    using assms(1) by (rule bucket_invE)
  define s where "s = js_of (of_int (now - tb_lastRefill b) / (1000 :: rat))"
  have "s = PInf \<or> (\<exists>q. s = Fin q \<and> 0 \<le> q)" unfolding s_def using assms(2) by (intro js_of_nonneg) simp
  then have "js_mul s (Fin r) = PInf \<or> (\<exists>q. js_mul s (Fin r) = Fin q \<and> 0 \<le> q)"
  proof
    assume "\<exists>q. s = Fin q \<and> 0 \<le> q"
    then obtain q where "s = Fin q" "0 \<le> q" by blast
    with js_of_nonneg[of "q * r"] f(5) show ?thesis by (simp add: js_mul_def)
  qed (use f(5) in \<open>simp add: js_mul_def Let_def\<close>)
  then have "js_add (Fin t) (js_mul s (Fin r)) = PInf \<or> (\<exists>q. js_add (Fin t) (js_mul s (Fin r)) = Fin q \<and> 0 \<le> q)"
  proof
    assume "\<exists>q. js_mul s (Fin r) = Fin q \<and> 0 \<le> q"
    then obtain q where "js_mul s (Fin r) = Fin q" "0 \<le> q" by blast
    with js_of_nonneg[of "t + q"] f(6) show ?thesis by simp
  qed simp
  moreover have "tb_tokens (refill now b) = js_min (Fin c) (js_add (Fin t) (js_mul s (Fin r)))"
    "tb_capacity (refill now b) = Fin c" "tb_refillRatePerSec (refill now b) = Fin r"
    by (simp_all add: refill_def Let_def s_def f)
  ultimately show ?thesis
    using f by (auto simp: bucket_inv_def js_min_def)
qed

lemma tryConsume_bounds:
  assumes "bucket_inv b" and "tb_lastRefill b \<le> now" and "0 \<le> n" and "tryConsume now (Fin n) b = (ok, b')"
  shows "(ok \<longrightarrow> js_le (Fin n) (tb_capacity b)) \<and> (bucket_inv b' \<or> tb_tokens b' = PInf)"
proof -
  note r = refill_bounds[OF assms(1,2)]
  from conjunct1[OF r] obtain c t where f: "tb_capacity (refill now b) = Fin c" "tb_tokens (refill now b) = Fin t" "0 \<le> t"
    by (auto elim: bucket_invE)
  have "tb_capacity b = Fin c" using f(1) by (simp add: refill_def Let_def)
  with r f assms(3,4) js_of_nonneg[of "t - n"] show ?thesis
    by (auto simp: tryConsume_def Let_def js_sub_def bucket_inv_def split: if_splits js_num.splits)
qed

end
