(* ===== verification/Access_Control.thy ===== *)
theory Access_Control
  imports Js_Number
begin

text \<open>
  \<open>src/src/common/utils/rbac.util.js\<close>: roles with levels and the permissions each level adds. Roles
  and permissions are strings; a role that is not in the table has level 0, except for the names of
  the properties every object inherits, whose values are no numbers and compare as \<open>NaN\<close>.
\<close>

definition ROLE_HIERARCHY :: "(string \<times> rat) list" where
  "ROLE_HIERARCHY = [(''EMPLOYEE'', 10), (''MANAGER'', 20), (''HR_ADMIN'', 30), (''SYSTEM_ADMIN'', 40)]"

definition ROLE_PERMISSIONS :: "(string \<times> string list) list" where
  "ROLE_PERMISSIONS =
     [(''EMPLOYEE'', [''REQUEST_LEAVE'', ''VIEW_OWN_BALANCE'']),
      (''MANAGER'', [''APPROVE_TEAM_LEAVE'']),
      (''HR_ADMIN'', [''OVERRIDE_POLICY'', ''MANAGE_ACCRUALS'']),
      (''SYSTEM_ADMIN'', [''AUDIT_LOG_READ''])]"

definition inherited_names :: "string list" where
  "inherited_names = [''constructor'', ''toString'', ''valueOf'', ''hasOwnProperty'', ''isPrototypeOf'',
     ''propertyIsEnumerable'', ''toLocaleString'', ''__proto__'', ''__defineGetter__'', ''__defineSetter__'',
     ''__lookupGetter__'', ''__lookupSetter__'']"

definition role_level :: "string \<Rightarrow> js_num" where
  "role_level role = (case map_of ROLE_HIERARCHY role of
      Some n \<Rightarrow> Fin n
    | None \<Rightarrow> if role \<in> set inherited_names then NaN else Fin 0)"

definition hasRole :: "string \<Rightarrow> string \<Rightarrow> bool" where
  "hasRole userRole requiredRole = js_le (role_level requiredRole) (role_level userRole)"

definition hasPermission :: "string \<Rightarrow> string \<Rightarrow> bool" where
  "hasPermission userRole permission =
     list_ex (\<lambda>(role, perms). js_le (role_level role) (role_level userRole) \<and> permission \<in> set perms) ROLE_PERMISSIONS"

lemma js_le_trans: "js_le a b \<Longrightarrow> js_le b c \<Longrightarrow> js_le a c"
  by (cases a; cases b; cases c) auto

text \<open>
  Roles inherit. Whoever has a role has every permission of that role, for any names of roles
  and permissions; every known role has the permissions of an employee, and only the system
  administrator reads the audit log. The check of a role fails open, though: a required role that is
  not in the table, such as a misspelt one, is granted to every known role and to unknown ones.
\<close>

theorem roles_inherit:
  "(hasRole u r \<and> hasPermission r p \<longrightarrow> hasPermission u p) \<and>
   (hasPermission u ''AUDIT_LOG_READ'' \<longleftrightarrow> u = ''SYSTEM_ADMIN'') \<and>
   (u \<in> fst ` set ROLE_HIERARCHY \<longrightarrow> hasPermission u ''REQUEST_LEAVE'') \<and>
   (r \<notin> fst ` set ROLE_HIERARCHY \<and> r \<notin> set inherited_names \<and> u \<notin> set inherited_names \<longrightarrow> hasRole u r)"
proof (intro conjI impI)
  assume "hasRole u r \<and> hasPermission r p"
  then show "hasPermission u p"
    by (auto simp: hasRole_def hasPermission_def list_ex_iff intro: js_le_trans)
next
  show "hasPermission u ''AUDIT_LOG_READ'' \<longleftrightarrow> u = ''SYSTEM_ADMIN''"
    by (auto simp: hasPermission_def ROLE_PERMISSIONS_def role_level_def ROLE_HIERARCHY_def split: if_splits)
next
  show "u \<in> fst ` set ROLE_HIERARCHY \<Longrightarrow> hasPermission u ''REQUEST_LEAVE''"
    by (auto simp: hasPermission_def ROLE_PERMISSIONS_def role_level_def ROLE_HIERARCHY_def)
next
  assume a: "r \<notin> fst ` set ROLE_HIERARCHY \<and> r \<notin> set inherited_names \<and> u \<notin> set inherited_names"
  then have "role_level r = Fin 0" by (simp add: role_level_def flip: map_of_eq_None_iff)
  moreover have "\<exists>n. role_level u = Fin n \<and> 0 \<le> n"
    using a by (auto simp: role_level_def ROLE_HIERARCHY_def)
  ultimately show "hasRole u r" by (auto simp: hasRole_def)
qed

theorem roles_inherit_witness:
  "hasPermission ''HR_ADMIN'' ''APPROVE_TEAM_LEAVE'' \<and> hasRole ''EMPLOYEE'' ''HR_AMDIN''"
proof -
  have "hasRole ''HR_ADMIN'' ''MANAGER''" "hasPermission ''MANAGER'' ''APPROVE_TEAM_LEAVE''" by code_simp+
  moreover have "''HR_AMDIN'' \<notin> fst ` set ROLE_HIERARCHY" "''HR_AMDIN'' \<notin> set inherited_names" "''EMPLOYEE'' \<notin> set inherited_names"
    by (simp_all add: ROLE_HIERARCHY_def inherited_names_def)
  ultimately show ?thesis
    using roles_inherit[of "''HR_ADMIN''" "''MANAGER''" "''APPROVE_TEAM_LEAVE''"] roles_inherit[of "''EMPLOYEE''" "''HR_AMDIN''"]
    by simp
qed

end
