(* ===== verification/Json_Text.thy ===== *)
theory Json_Text
  imports Hash_Util
begin

text \<open>
  The text \<open>JSON.stringify\<close> prints determines the value it was printed from, as long as the value is
  data: no \<open>undefined\<close> (which is skipped or printed as \<open>null\<close>), no \<open>NaN\<close> and no infinity (printed as
  \<open>null\<close>). What is hashed as JSON text therefore commits to every property of it. The platform's
  printing of numbers is taken to be what the language specifies: different doubles print
  differently, in digits, signs, a point and an exponent.
\<close>

section \<open>Data\<close>

definition number_char :: "char \<Rightarrow> bool" where
  "number_char c \<longleftrightarrow> c \<in> set ''0123456789+-.e''"

definition prints_numbers :: "platform \<Rightarrow> bool" where
  "prints_numbers P \<longleftrightarrow>
     (\<forall>x y. js_of x = Fin x \<longrightarrow> js_of y = Fin y \<longrightarrow> show_number P x = show_number P y \<longrightarrow> x = y) \<and>
     (\<forall>x. show_number P x \<noteq> [] \<and> list_all number_char (show_number P x))"

fun json_data :: "json \<Rightarrow> bool" where
  "json_data JUndef = False"
| "json_data (JNum x) = (case x of Fin q \<Rightarrow> js_of q = Fin q | _ \<Rightarrow> False)"
| "json_data (JArr xs) = (\<forall>x\<in>set xs. json_data x)"
| "json_data (JObj ps) = (\<forall>p\<in>set ps. json_data (snd p))"
| "json_data _ = True"

definition json_text :: "platform \<Rightarrow> json \<Rightarrow> string" where
  "json_text P j = the (stringify P j)"

definition member_text :: "platform \<Rightarrow> string \<times> json \<Rightarrow> string" where
  "member_text P p = json_quote (fst p) @ '':'' @ json_text P (snd p)"

lemma stringify_data: "json_data j \<Longrightarrow> stringify P j = Some (json_text P j)"
  by (cases j) (simp_all add: json_text_def)

lemma json_text_simps:
  "json_text P JNull = ''null''" "json_text P (JBool b) = (if b then ''true'' else ''false'')"
  "json_text P (JNum (Fin q)) = show_number P q" "json_text P (JStr s) = json_quote s"
  by (simp_all add: json_text_def)

lemma json_text_arr:
  assumes "json_data (JArr xs)"
  shows "json_text P (JArr xs) = ''['' @ join '','' (map (json_text P) xs) @ '']''"
proof -
  have "map (\<lambda>o'. case o' of None \<Rightarrow> ''null'' | Some t \<Rightarrow> t) (map (stringify P) xs) = map (json_text P) xs"
    using assms by (auto simp: stringify_data)
  then show ?thesis by (simp only: json_text_def[of P "JArr xs"] stringify.simps option.sel)
qed

lemma json_text_obj:
  assumes "json_data (JObj ps)"
  shows "json_text P (JObj ps) = ''{'' @ join '','' (map (member_text P) ps) @ ''}''"
proof -
  have d: "stringify P (snd p) = Some (json_text P (snd p))" if "p \<in> set ps" for p
    using assms that by (intro stringify_data) simp
  have "filter (\<lambda>(k, o'). o' \<noteq> None) (map (map_prod id (stringify P)) ps) = map (map_prod id (stringify P)) ps"
    using d by (auto simp: filter_id_conv)
  moreover have "map (\<lambda>(k, o'). json_quote k @ '':'' @ the o') (map (map_prod id (stringify P)) ps) = map (member_text P) ps"
    using d by (auto simp: member_text_def)
  ultimately show ?thesis by (simp only: json_text_def[of P "JObj ps"] stringify.simps option.sel)
qed

section \<open>Strings\<close>

definition hex_val :: "char \<Rightarrow> nat" where
  "hex_val c = (if code c < 58 then code c - 48 else code c - 87)"

lemma hex_val_digit: "n < 16 \<Longrightarrow> hex_val (hex_digit n) = n"
  by (auto simp: hex_val_def hex_digit_def code_def)

text \<open>One character read back from its escaped form.\<close>

definition unescape :: "string \<Rightarrow> char \<times> string" where
  "unescape t = (if code (hd t) \<noteq> 92 then (hd t, tl t)
     else let c = t ! 1; r = drop 2 t in
       if c = CHR ''b'' then (char_of (8::nat), r) else if c = CHR ''f'' then (char_of (12::nat), r)
       else if c = CHR ''n'' then (char_of (10::nat), r) else if c = CHR ''r'' then (char_of (13::nat), r)
       else if c = CHR ''t'' then (char_of (9::nat), r)
       else if c = CHR ''u'' then (char_of (16 * hex_val (r ! 2) + hex_val (r ! 3)), drop 4 r)
       else (c, r))"

lemma char_of_code: "code c = n \<Longrightarrow> c = char_of n"
  by (auto simp: code_def)

lemma control_chars:
  "char_of (34::nat) = CHR 0x22" "char_of (92::nat) = CHR 0x5C" "char_of (8::nat) = CHR 0x08" "char_of (12::nat) = CHR 0x0C"
  "char_of (10::nat) = CHR 0x0A" "char_of (13::nat) = CHR 0x0D" "char_of (9::nat) = CHR 0x09"
  by (simp_all add: char_of_def bit_0)

lemma unescape_escape: "unescape (json_escape c @ r) = (c, r)"
proof -
  consider "code c \<in> {34, 92, 8, 12, 10, 13, 9}" | "code c \<notin> {34, 92, 8, 12, 10, 13, 9}" "code c < 32"
    | "code c \<notin> {34, 92, 8, 12, 10, 13, 9}" "\<not> code c < 32" by blast
  then show ?thesis
  proof cases
    case 1
    then have "c \<in> {CHR 0x22, CHR 0x5C, CHR 0x08, CHR 0x0C, CHR 0x0A, CHR 0x0D, CHR 0x09}"
      using char_of_code[of c, OF refl] by (elim insertE) (simp_all add: control_chars)
    then show ?thesis
      by (elim insertE) (simp_all add: unescape_def json_escape_def Let_def code_def control_chars)
  next
    case 2
    then have "16 * hex_val (hex_digit (code c div 16)) + hex_val (hex_digit (code c mod 16)) = code c"
      by (simp add: hex_val_digit)
    then have "char_of (16 * hex_val (hex_digit (code c div 16)) + hex_val (hex_digit (code c mod 16))) = c"
      by (simp add: char_of_code[OF refl, symmetric])
    with 2 show ?thesis by (simp add: unescape_def json_escape_def Let_def code_def)
  next
    case 3
    then show ?thesis by (simp add: unescape_def json_escape_def Let_def)
  qed
qed

lemma json_escape_start: "json_escape c \<noteq> [] \<and> hd (json_escape c) \<noteq> CHR 0x22"
proof -
  have "char_of (92::nat) \<noteq> CHR 0x22" by (simp add: control_chars)
  moreover have "c \<noteq> CHR 0x22" if "code c \<noteq> 34" using that by (auto simp: code_def)
  ultimately show ?thesis by (simp add: json_escape_def Let_def)
qed

lemma escapes_unique:
  "concat (map json_escape s) @ CHR 0x22 # r = concat (map json_escape s') @ CHR 0x22 # r' \<Longrightarrow> s = s' \<and> r = r'"
proof (induction s arbitrary: s')
  case Nil
  then show ?case using json_escape_start by (cases s') (auto, metis append_is_Nil_conv hd_append list.sel(1))
next
  case (Cons c s)
  show ?case
  proof (cases s')
    case Nil
    with Cons.prems json_escape_start[of c] show ?thesis by (cases "json_escape c") auto
  next
    case (Cons d t)
    with Cons.prems have "json_escape c @ concat (map json_escape s) @ CHR 0x22 # r = json_escape d @ concat (map json_escape t) @ CHR 0x22 # r'"
      by simp
    from arg_cong[OF this, of unescape] have "c = d" "concat (map json_escape s) @ CHR 0x22 # r = concat (map json_escape t) @ CHR 0x22 # r'"
      by (simp_all add: unescape_escape)
    with Cons.IH[of t] Cons show ?thesis by simp
  qed
qed

lemma json_quote_unique: "json_quote s @ r = json_quote s' @ r' \<Longrightarrow> s = s' \<and> r = r'"
  using escapes_unique[of s r s' r'] by (simp add: json_quote_def)

section \<open>Values\<close>

text \<open>What may follow a value: the end, a comma or a closing bracket.\<close>

definition delim :: "string \<Rightarrow> bool" where
  "delim r \<longleftrightarrow> r = [] \<or> hd r \<in> {CHR '','', CHR '']'', CHR ''}''}"

lemma number_unique:
  assumes "prints_numbers P" and "js_of x = Fin x" and "js_of y = Fin y" and "delim r" and "delim r'"
    and "show_number P x @ r = show_number P y @ r'"
  shows "x = y \<and> r = r'"
proof -
  have tw: "takeWhile number_char (show_number P z @ q) = show_number P z" if "delim q" for z q
  proof -
    have "takeWhile number_char q = []" using that by (cases q) (auto simp: delim_def number_char_def)
    moreover have "\<forall>c\<in>set (show_number P z). number_char c" using assms(1) by (simp add: prints_numbers_def list_all_iff)
    ultimately show ?thesis by simp
  qed
  from arg_cong[OF assms(6), of "takeWhile number_char"] have "show_number P x = show_number P y" by (simp add: tw assms(4,5))
  then show ?thesis using assms by (auto simp: prints_numbers_def)
qed

fun kind :: "json \<Rightarrow> nat" where
  "kind JNull = 0"
| "kind (JBool b) = 1"
| "kind (JNum x) = 2"
| "kind (JStr s) = 3"
| "kind (JArr xs) = 4"
| "kind _ = 5"

definition kind_of :: "char \<Rightarrow> nat" where
  "kind_of c = (if c = CHR ''n'' then 0 else if c = CHR ''t'' \<or> c = CHR ''f'' then 1 else if c = CHR 0x22 then 3
     else if c = CHR ''['' then 4 else if c = CHR ''{'' then 5 else 2)"

lemma json_text_start:
  assumes "prints_numbers P" and "json_data j"
  shows "json_text P j \<noteq> []" and "kind_of (hd (json_text P j)) = kind j" and "hd (json_text P j) \<notin> {CHR '']'', CHR ''}''}"
proof -
  have num: "\<exists>c t. show_number P q = c # t \<and> number_char c" for q
    using assms(1) by (cases "show_number P q") (auto simp: prints_numbers_def dest: spec[of _ q])
  have "json_text P j \<noteq> [] \<and> kind_of (hd (json_text P j)) = kind j \<and> hd (json_text P j) \<notin> {CHR '']'', CHR ''}''}"
  proof (cases j)
    case (JNum x)
    with assms(2) obtain q where "x = Fin q" by (cases x) auto
    with JNum num[of q] show ?thesis by (auto simp: json_text_simps kind_of_def number_char_def)
  qed (use assms(2) in \<open>auto simp: json_text_simps json_text_arr json_text_obj kind_of_def json_quote_def\<close>)
  then show "json_text P j \<noteq> []" "kind_of (hd (json_text P j)) = kind j" "hd (json_text P j) \<notin> {CHR '']'', CHR ''}''}" by auto
qed

text \<open>Lists of items between commas, for any printing of the items that can be read back.\<close>

lemma join_Cons: "join '','' (w # ws) = w @ concat (map (\<lambda>v. '','' @ v) ws)"
  by (induction ws arbitrary: w) auto

definition readable :: "('a \<Rightarrow> string) \<Rightarrow> 'a \<Rightarrow> 'a set \<Rightarrow> bool" where
  "readable T x Y \<longleftrightarrow> (\<forall>y r r'. y \<in> Y \<longrightarrow> delim r \<longrightarrow> delim r' \<longrightarrow> T x @ r = T y @ r' \<longrightarrow> x = y \<and> r = r')"

lemma delim_items: "c \<in> {CHR '']'', CHR ''}''} \<Longrightarrow> delim (concat (map (\<lambda>v. '','' @ T v) xs) @ c # r)"
  by (cases xs) (auto simp: delim_def)

lemma items_unique:
  assumes "\<forall>x\<in>set xs. readable T x Y" and "set ys \<subseteq> Y" and "c \<in> {CHR '']'', CHR ''}''}"
    and "concat (map (\<lambda>v. '','' @ T v) xs) @ c # r = concat (map (\<lambda>v. '','' @ T v) ys) @ c # r'"
  shows "xs = ys \<and> r = r'"
  using assms
proof (induction xs arbitrary: ys)
  case Nil
  then show ?case by (cases ys) auto
next
  case (Cons x xs)
  then obtain y ys' where ys: "ys = y # ys'" by (cases ys) auto
  let ?R = "\<lambda>zs q. concat (map (\<lambda>v. '','' @ T v) zs) @ c # q"
  have "T x @ ?R xs r = T y @ ?R ys' r'" using Cons.prems(4) ys by simp
  moreover have "delim (?R xs r)" "delim (?R ys' r')" by (rule delim_items[OF Cons.prems(3)])+
  ultimately have "x = y" "?R xs r = ?R ys' r'" using Cons.prems(1,2) ys unfolding readable_def by auto
  with Cons.IH[of ys'] Cons.prems ys show ?case by auto
qed

lemma join_unique:
  assumes "\<forall>x\<in>set xs. readable T x Y" and "set ys \<subseteq> Y" and c: "c \<in> {CHR '']'', CHR ''}''}"
    and start: "\<forall>x\<in>set xs \<union> set ys. T x \<noteq> [] \<and> hd (T x) \<notin> {CHR '']'', CHR ''}''}"
    and eq: "join '','' (map T xs) @ c # r = join '','' (map T ys) @ c # r'"
  shows "xs = ys \<and> r = r'"
proof -
  have ne: "c # q \<noteq> join '','' (map T (z # zs)) @ q'" if "T z \<noteq> []" "hd (T z) \<notin> {CHR '']'', CHR ''}''}" for z zs q q'
    using that c by (cases "T z") (auto simp: join_Cons)
  show ?thesis
  proof (cases xs)
    case Nil
    with eq start ne[of "hd ys" r "tl ys" "c # r'"] show ?thesis by (cases ys) auto
  next
    case (Cons x xs')
    show ?thesis
    proof (cases ys)
      case Nil
      with Cons eq start ne[of x r' xs' "c # r"] show ?thesis by auto
    next
      case (Cons y ys')
      note ys = this
      let ?R = "\<lambda>zs q. concat (map (\<lambda>v. '','' @ T v) zs) @ c # q"
      have "T x @ ?R xs' r = T y @ ?R ys' r'" using eq by (simp add: \<open>xs = x # xs'\<close> ys join_Cons comp_def del: join.simps)
      moreover have "delim (?R xs' r)" "delim (?R ys' r')" by (rule delim_items[OF c])+
      ultimately have "x = y" "?R xs' r = ?R ys' r'" using assms(1,2) ys \<open>xs = x # xs'\<close> unfolding readable_def by auto
      with items_unique[of xs' T Y ys' c r r'] assms(1-3) ys \<open>xs = x # xs'\<close> show ?thesis by auto
    qed
  qed
qed

lemma member_text_readable:
  assumes "readable (json_text P) (snd p) (snd ` Y)"
  shows "readable (member_text P) p Y"
  unfolding readable_def
proof (intro allI impI)
  fix q r r'
  assume q: "q \<in> Y" and d: "delim r" "delim r'" and eq: "member_text P p @ r = member_text P q @ r'"
  from eq have "json_quote (fst p) @ ('':'' @ json_text P (snd p) @ r) = json_quote (fst q) @ ('':'' @ json_text P (snd q) @ r')"
    by (simp add: member_text_def)
  from json_quote_unique[OF this] have "fst p = fst q" "json_text P (snd p) @ r = json_text P (snd q) @ r'" by auto
  with assms q d show "p = q \<and> r = r'" unfolding readable_def by (metis imageI prod.expand)
qed

lemma member_text_start: "member_text P p \<noteq> [] \<and> hd (member_text P p) \<notin> {CHR '']'', CHR ''}''}"
  by (simp add: member_text_def json_quote_def)

lemma json_text_readable:
  assumes P: "prints_numbers P"
  shows "json_data x \<Longrightarrow> readable (json_text P) x {y. json_data y}"
proof (induction x)
  case (JArr xs)
  show ?case
    unfolding readable_def
  proof (intro allI impI, elim CollectE)
    fix y r r'
    assume y: "json_data y" and eq: "json_text P (JArr xs) @ r = json_text P y @ r'"
    from arg_cong[OF eq, of hd] json_text_start(1,2)[OF P JArr.prems] json_text_start(1,2)[OF P y] have "kind y = 4" by auto
    then obtain ys where ys: "y = JArr ys" by (cases y) auto
    have s: "\<forall>x\<in>set xs \<union> set ys. json_text P x \<noteq> [] \<and> hd (json_text P x) \<notin> {CHR '']'', CHR ''}''}"
      using json_text_start[OF P] JArr.prems y ys by auto
    have "join '','' (map (json_text P) xs) @ CHR '']'' # r = join '','' (map (json_text P) ys) @ CHR '']'' # r'"
      using eq y unfolding ys json_text_arr[OF JArr.prems] json_text_arr[OF y[unfolded ys]] by simp
    with join_unique[of xs "json_text P" "{y. json_data y}" ys "CHR '']''" r r'] JArr y ys s show "JArr xs = y \<and> r = r'" by auto
  qed
next
  case (JObj ps)
  show ?case
    unfolding readable_def
  proof (intro allI impI, elim CollectE)
    fix y r r'
    assume y: "json_data y" and eq: "json_text P (JObj ps) @ r = json_text P y @ r'"
    from arg_cong[OF eq, of hd] json_text_start(1,2)[OF P JObj.prems] json_text_start(1,2)[OF P y] have "kind y = 5" by auto
    then obtain qs where qs: "y = JObj qs" using y by (cases y) auto
    have "readable (member_text P) p {q. json_data (snd q)}" if "p \<in> set ps" for p
    proof (rule member_text_readable)
      have "readable (json_text P) (snd p) {y. json_data y}" using JObj that by (cases p) auto
      then show "readable (json_text P) (snd p) (snd ` {q. json_data (snd q)})" unfolding readable_def by auto
    qed
    moreover have "join '','' (map (member_text P) ps) @ CHR ''}'' # r = join '','' (map (member_text P) qs) @ CHR ''}'' # r'"
      using eq y unfolding qs json_text_obj[OF JObj.prems] json_text_obj[OF y[unfolded qs]] by simp
    ultimately show "JObj ps = y \<and> r = r'"
      using join_unique[of ps "member_text P" "{q. json_data (snd q)}" qs "CHR ''}''" r r'] y qs member_text_start by auto
  qed
next
  case (JNum x)
  then obtain q where q: "x = Fin q" "js_of q = Fin q" by (cases x) auto
  show ?case
    unfolding readable_def
  proof (intro allI impI, elim CollectE)
    fix y r r'
    assume y: "json_data y" and d: "delim r" "delim r'" and eq: "json_text P (JNum x) @ r = json_text P y @ r'"
    from arg_cong[OF eq, of hd] json_text_start(1,2)[OF P JNum] json_text_start(1,2)[OF P y] have "kind y = 2" by auto
    with y obtain q' where q': "y = JNum (Fin q')" "js_of q' = Fin q'" by (cases y) (auto split: js_num.splits)
    from eq number_unique[OF P q(2) q'(2) d] show "JNum x = y \<and> r = r'" by (simp add: q(1) q'(1) json_text_simps)
  qed
next
  case (JStr s)
  show ?case
    unfolding readable_def
  proof (intro allI impI, elim CollectE)
    fix y r r'
    assume y: "json_data y" and eq: "json_text P (JStr s) @ r = json_text P y @ r'"
    from arg_cong[OF eq, of hd] json_text_start(1,2)[OF P JStr] json_text_start(1,2)[OF P y] have "kind y = 3" by auto
    then obtain s' where "y = JStr s'" by (cases y) auto
    with eq json_quote_unique[of s r s' r'] show "JStr s = y \<and> r = r'" by (simp add: json_text_simps)
  qed
next
  case (JBool b)
  show ?case
    unfolding readable_def
  proof (intro allI impI, elim CollectE)
    fix y r r'
    assume y: "json_data y" and eq: "json_text P (JBool b) @ r = json_text P y @ r'"
    from arg_cong[OF eq, of hd] json_text_start(1,2)[OF P JBool] json_text_start(1,2)[OF P y] have "kind y = 1" by auto
    then obtain b' where "y = JBool b'" by (cases y) auto
    with eq show "JBool b = y \<and> r = r'" by (auto simp: json_text_simps split: if_splits)
  qed
next
  case JNull
  show ?case
    unfolding readable_def
  proof (intro allI impI, elim CollectE)
    fix y r r'
    assume y: "json_data y" and eq: "json_text P JNull @ r = json_text P y @ r'"
    from arg_cong[OF eq, of hd] json_text_start(1,2)[OF P JNull] json_text_start(1,2)[OF P y] have "kind y = 0" by auto
    then have "y = JNull" by (cases y) auto
    with eq show "JNull = y \<and> r = r'" by simp
  qed
qed simp

theorem json_text_injective:
  assumes "prints_numbers P" and "json_data x" and "json_data y" and "json_text P x = json_text P y"
  shows "x = y"
  using json_text_readable[OF assms(1,2)] assms(3,4) by (auto simp: readable_def delim_def dest: spec[of _ "[]"])

end
