(* ===== verification/Audit_Chain.thy ===== *)
theory Audit_Chain
  imports Json_Text
begin

text \<open>
  \<open>src/src/common/utils/audit-logger.util.js\<close>, the hash-chained ledger of balance mutations, and
  \<open>src/src/common/utils/audit-hash.util.js\<close>, the verification of a chain of stored records. The text
  that is hashed is the JSON the code builds, property by property.
\<close>

section \<open>The ledger\<close>

record audit_entry =
  a_index :: nat
  a_previousHash :: string
  a_timestamp :: int
  a_employeeId :: string
  a_mutation :: json
  a_reason :: string
  a_hash :: string

definition entry_json :: "audit_entry \<Rightarrow> json" where
  "entry_json e = JObj
     [(''index'', JNum (Fin (of_nat (a_index e)))), (''previousHash'', JStr (a_previousHash e)),
      (''timestamp'', JNum (Fin (of_int (a_timestamp e)))), (''employeeId'', JStr (a_employeeId e)),
      (''mutation'', a_mutation e), (''reason'', JStr (a_reason e))]"

definition entry_text :: "platform \<Rightarrow> audit_entry \<Rightarrow> string" where
  "entry_text P e = the (stringify P (entry_json e))"

definition hashEntry :: "platform \<Rightarrow> audit_entry \<Rightarrow> string" where
  "hashEntry P e = sha256 P (entry_text P e)"

definition genesis :: string where
  "genesis = replicate 64 (CHR ''0'')"

datatype audit_error = EmployeeIdError

definition audit_append ::
  "platform \<Rightarrow> int \<Rightarrow> string \<Rightarrow> json \<Rightarrow> string option \<Rightarrow> audit_entry list \<Rightarrow> (audit_error + audit_entry) \<times> audit_entry list" where
  "audit_append P now employeeId mutation reason chain =
     (if employeeId = [] then (Inl EmployeeIdError, chain)
      else let e = \<lparr>a_index = length chain,
                 a_previousHash = (if chain \<noteq> [] then a_hash (last chain) else genesis),
                 a_timestamp = now, a_employeeId = employeeId, a_mutation = mutation,
                 a_reason = (case reason of None \<Rightarrow> ''UNSPECIFIED'' | Some r \<Rightarrow> if r = [] then ''UNSPECIFIED'' else r),
                 a_hash = []\<rparr>;
               e' = e\<lparr>a_hash := hashEntry P e\<rparr>
           in (Inr e', chain @ [e']))"

fun verify_from :: "platform \<Rightarrow> string \<Rightarrow> audit_entry list \<Rightarrow> bool" where
  "verify_from P prev [] = True"
| "verify_from P prev (e # es) =
     (if a_previousHash e \<noteq> prev then False
      else if a_hash e \<noteq> hashEntry P e then False
      else verify_from P (a_hash e) es)"

definition verifyIntegrity :: "platform \<Rightarrow> audit_entry list \<Rightarrow> bool" where
  "verifyIntegrity P chain = verify_from P genesis chain"

definition audit_entries :: "audit_entry list \<Rightarrow> audit_entry list" where
  "audit_entries chain = chain"

section \<open>Stored records\<close>

record audit_record =
  x_id :: json
  x_userId :: json
  x_action :: json
  x_timestamp :: json
  x_payload :: json
  x_hash :: string

definition computeRecordHash :: "platform \<Rightarrow> audit_record \<Rightarrow> string \<Rightarrow> string" where
  "computeRecordHash P r previousHash =
     sha256 P (the (stringify P (JObj
       [(''id'', x_id r), (''userId'', x_userId r), (''action'', x_action r), (''timestamp'', x_timestamp r),
        (''payload'', if json_truthy (x_payload r) then x_payload r else JObj []), (''prev'', JStr previousHash)])))"

fun verify_records :: "platform \<Rightarrow> string \<Rightarrow> audit_record list \<Rightarrow> bool" where
  "verify_records P prev [] = True"
| "verify_records P prev (r # rs) =
     (if x_hash r \<noteq> computeRecordHash P r prev then False else verify_records P (x_hash r) rs)"

definition verifyChain :: "platform \<Rightarrow> audit_record list \<Rightarrow> bool" where
  "verifyChain P records = (if records = [] then True else verify_records P ''GENESIS'' records)"

lemma verify_records_append:
  "verify_records P prev (rs @ [r]) \<longleftrightarrow> verify_records P prev rs \<and>
     x_hash r = computeRecordHash P r (if rs = [] then prev else x_hash (last rs))"
  by (induction rs arbitrary: prev) auto

section \<open>Tamper evidence\<close>

lemma verify_from_snoc:
  "verify_from P prev (es @ [e]) \<longleftrightarrow> verify_from P prev es \<and>
     a_previousHash e = (if es = [] then prev else a_hash (last es)) \<and> a_hash e = hashEntry P e"
  by (induction es arbitrary: prev) auto

text \<open>
  Entries that are data, so that JSON prints all there is to them: indices and timestamps are whole
  numbers a double holds, and the mutation holds no \<open>undefined\<close> and no \<open>NaN\<close>.
\<close>

definition entry_data :: "audit_entry \<Rightarrow> bool" where
  "entry_data e \<longleftrightarrow> js_of (of_nat (a_index e)) = Fin (of_nat (a_index e)) \<and>
     js_of (of_int (a_timestamp e)) = Fin (of_int (a_timestamp e)) \<and> json_data (a_mutation e)"

lemma entry_data_json: "entry_data e \<Longrightarrow> json_data (entry_json e)"
  by (simp add: entry_data_def entry_json_def)

text \<open>The hashed text commits to every field.\<close>

lemma entry_text_injective:
  assumes "prints_numbers P" and "entry_data e" and "entry_data f" and "entry_text P e = entry_text P f" and "a_hash e = a_hash f"
  shows "e = f"
proof -
  have "entry_json e = entry_json f"
    using json_text_injective[OF assms(1) entry_data_json[OF assms(2)] entry_data_json[OF assms(3)]] assms(4)
    by (simp add: entry_text_def json_text_def)
  with assms(5) show ?thesis by (simp add: entry_json_def)
qed

text \<open>The hash a ledger ends in, which the next entry links to.\<close>

definition head_hash :: "audit_entry list \<Rightarrow> string" where
  "head_hash es = (if es = [] then genesis else a_hash (last es))"

text \<open>What a forger has to find: two texts with one hash, or a text whose hash is the genesis value.\<close>

definition sha256_broken :: "platform \<Rightarrow> audit_entry list \<Rightarrow> audit_entry list \<Rightarrow> bool" where
  "sha256_broken P es fs \<longleftrightarrow>
     (\<exists>e\<in>set es. \<exists>f\<in>set fs. entry_text P e \<noteq> entry_text P f \<and> sha256 P (entry_text P e) = sha256 P (entry_text P f)) \<or>
     (\<exists>e\<in>set es \<union> set fs. sha256 P (entry_text P e) = genesis)"

lemma tampering_breaks_hash:
  assumes P: "prints_numbers P"
  shows "verify_from P genesis es \<Longrightarrow> verify_from P genesis fs \<Longrightarrow> \<forall>e\<in>set es \<union> set fs. entry_data e \<Longrightarrow>
    head_hash es = head_hash fs \<Longrightarrow>
    es = fs \<or> sha256_broken P es fs"
proof (induction es arbitrary: fs rule: rev_induct)
  case Nil
  then show ?case
    by (cases fs rule: rev_cases) (auto simp: verify_from_snoc sha256_broken_def hashEntry_def head_hash_def)
next
  case (snoc e es)
  note ve = snoc.prems(1)[unfolded verify_from_snoc]
  show ?case
  proof (cases fs rule: rev_cases)
    case Nil
    with ve snoc.prems(4) show ?thesis by (auto simp: sha256_broken_def hashEntry_def head_hash_def)
  next
    case (snoc gs f)
    note vf = snoc.prems(2)[unfolded snoc verify_from_snoc]
    have h: "a_hash e = a_hash f" "sha256 P (entry_text P e) = sha256 P (entry_text P f)"
      using snoc.prems(4) snoc ve vf by (simp_all add: hashEntry_def head_hash_def)
    show ?thesis
    proof (cases "entry_text P e = entry_text P f")
      case False
      with h(2) snoc show ?thesis by (auto simp: sha256_broken_def)
    next
      case True
      have ef: "e = f" using entry_text_injective[OF P _ _ True h(1)] snoc.prems(3) snoc by simp
      then have "head_hash es = head_hash gs" using ve vf by (simp add: head_hash_def)
      from snoc.IH[OF _ _ _ this] ve vf snoc.prems(3) snoc have "es = gs \<or> sha256_broken P es gs" by simp
      then show ?thesis using ef snoc by (auto simp: sha256_broken_def)
    qed
  qed
qed

text \<open>
  C38: The audit ledger is tamper evident. Appending to a ledger that verifies gives a ledger that
  verifies, whose new last entry carries the employee, the mutation, the reason and the time, its
  index and the hash of the entry before it. And a ledger that verifies and ends in the same hash is
  the same ledger, entry by entry and field by field: whoever changes, inserts or drops anything
  before the last hash has found two different texts with the same SHA-256 hash or a text whose hash
  is the genesis value. (Entries are data that JSON prints in full, and numbers print the way the
  language specifies.)
\<close>

theorem audit_tamper_evident:
  assumes "prints_numbers P" and "verifyIntegrity P chain"
  shows "(case audit_append P now employeeId mutation reason chain of
      (Inl err, chain') \<Rightarrow> employeeId = [] \<and> chain' = chain
    | (Inr e, chain') \<Rightarrow> chain' = chain @ [e] \<and> verifyIntegrity P chain' \<and> a_index e = length chain \<and>
        a_previousHash e = head_hash chain \<and> a_timestamp e = now \<and> a_employeeId e = employeeId \<and> a_mutation e = mutation \<and>
        (\<forall>why. reason = Some why \<and> why \<noteq> [] \<longrightarrow> a_reason e = why)) \<and>
    (\<forall>forged. verifyIntegrity P forged \<and> head_hash forged = head_hash chain \<and>
       (\<forall>e\<in>set chain \<union> set forged. entry_data e) \<longrightarrow>
       forged = chain \<or>
       (\<exists>e\<in>set forged. \<exists>f\<in>set chain. entry_text P e \<noteq> entry_text P f \<and> sha256 P (entry_text P e) = sha256 P (entry_text P f)) \<or>
       (\<exists>e\<in>set forged \<union> set chain. sha256 P (entry_text P e) = genesis))"
proof (intro conjI allI impI)
  show "case audit_append P now employeeId mutation reason chain of
      (Inl err, chain') \<Rightarrow> employeeId = [] \<and> chain' = chain
    | (Inr e, chain') \<Rightarrow> chain' = chain @ [e] \<and> verifyIntegrity P chain' \<and> a_index e = length chain \<and>
        a_previousHash e = head_hash chain \<and> a_timestamp e = now \<and> a_employeeId e = employeeId \<and> a_mutation e = mutation \<and>
        (\<forall>why. reason = Some why \<and> why \<noteq> [] \<longrightarrow> a_reason e = why)"
    using assms(2) by (simp add: audit_append_def Let_def verifyIntegrity_def verify_from_snoc hashEntry_def head_hash_def
        entry_text_def entry_json_def del: stringify.simps)
  fix forged
  assume "verifyIntegrity P forged \<and> head_hash forged = head_hash chain \<and> (\<forall>e\<in>set chain \<union> set forged. entry_data e)"
  then have "forged = chain \<or> sha256_broken P forged chain"
    using assms(2) by (intro tampering_breaks_hash[OF assms(1)]) (auto simp: verifyIntegrity_def)
  then show "forged = chain \<or>
       (\<exists>e\<in>set forged. \<exists>f\<in>set chain. entry_text P e \<noteq> entry_text P f \<and> sha256 P (entry_text P e) = sha256 P (entry_text P f)) \<or>
       (\<exists>e\<in>set forged \<union> set chain. sha256 P (entry_text P e) = genesis)"
    unfolding sha256_broken_def .
qed

text \<open>Numbers in unary and a hash without collisions; the forger raises the days of an entry and hashes it anew.\<close>

definition toy_number :: "rat \<Rightarrow> string" where
  "toy_number q = (case quotient_of q of (n, d) \<Rightarrow>
     (if n < 0 then ''-'' else ''+'') @ replicate (nat \<bar>n\<bar>) (CHR ''1'') @ ''.'' @ replicate (nat d) (CHR ''1''))"

definition toy_platform :: platform where
  "toy_platform = \<lparr>sha256 = (\<lambda>s. s), show_number = toy_number\<rparr>"

lemma replicate_until: "replicate m a @ b # xs = replicate n a @ b # ys \<Longrightarrow> a \<noteq> b \<Longrightarrow> m = n \<and> xs = ys"
proof (induction m arbitrary: n)
  case 0
  then show ?case by (cases n) auto
next
  case (Suc m)
  then show ?case by (cases n) auto
qed

lemma toy_number_inj: "toy_number x = toy_number y \<Longrightarrow> x = y"
proof -
  assume eq: "toy_number x = toy_number y"
  obtain n d n' d' where q: "quotient_of x = (n, d)" "quotient_of y = (n', d')" by fastforce
  have d: "0 < d" "0 < d'" using q by (auto dest: quotient_of_denom_pos)
  have sign: "n < 0 \<longleftrightarrow> n' < 0" using eq by (auto simp: toy_number_def q split: if_splits)
  then have "replicate (nat \<bar>n\<bar>) (CHR ''1'') @ CHR ''.'' # replicate (nat d) (CHR ''1'') =
      replicate (nat \<bar>n'\<bar>) (CHR ''1'') @ CHR ''.'' # replicate (nat d') (CHR ''1'')"
    using eq by (auto simp: toy_number_def q)
  from replicate_until[OF this] have "\<bar>n\<bar> = \<bar>n'\<bar>" "d = d'" using d by (auto simp: replicate_eq_replicate)
  with sign have "n = n'" by linarith
  with q \<open>d = d'\<close> show "x = y" by (metis quotient_of_inject)
qed

lemma toy_prints: "prints_numbers toy_platform"
proof -
  have "list_all number_char (toy_number q)" for q
    by (cases "quotient_of q") (auto simp: toy_number_def number_char_def list_all_iff)
  moreover have "toy_number q \<noteq> []" for q by (cases "quotient_of q") (simp add: toy_number_def)
  ultimately show ?thesis using toy_number_inj by (simp add: prints_numbers_def toy_platform_def)
qed

definition toy_entry :: "rat \<Rightarrow> audit_entry" where
  "toy_entry days = (let e = \<lparr>a_index = 0, a_previousHash = genesis, a_timestamp = 5, a_employeeId = ''E1'',
     a_mutation = JObj [(''days'', JNum (Fin days))], a_reason = ''UNSPECIFIED'', a_hash = []\<rparr>
     in e\<lparr>a_hash := hashEntry toy_platform e\<rparr>)"

lemma toy_verifies: "verifyIntegrity toy_platform [toy_entry days]"
  by (simp add: verifyIntegrity_def toy_entry_def Let_def hashEntry_def entry_text_def entry_json_def del: stringify.simps)

lemma toy_data: "grid days \<Longrightarrow> entry_data (toy_entry days)"
  using js_of_grid[of 0] js_of_grid[of 5] by (simp add: entry_data_def toy_entry_def Let_def js_of_grid grid_def)

lemma toy_text_start: "hd (entry_text toy_platform (toy_entry days)) = CHR ''{''"
  by (simp add: entry_text_def entry_json_def)

theorem audit_tamper_evident_witness:
  "verifyIntegrity toy_platform [toy_entry 1] \<and> verifyIntegrity toy_platform [toy_entry 9] \<and>
   a_hash (toy_entry 9) \<noteq> a_hash (toy_entry 1)"
proof -
  have "grid 1" "grid 9" by (simp_all add: grid_def)
  then have d: "\<forall>e\<in>set [toy_entry 1] \<union> set [toy_entry 9]. entry_data e" by (simp add: toy_data)
  have g: "sha256 toy_platform (entry_text toy_platform (toy_entry x)) \<noteq> genesis" for x
  proof
    assume "sha256 toy_platform (entry_text toy_platform (toy_entry x)) = genesis"
    then have "hd genesis = CHR ''{''" using toy_text_start[of x] by (simp add: toy_platform_def)
    then show False by (simp add: genesis_def)
  qed
  have "toy_entry 9 \<noteq> toy_entry 1" by (simp add: toy_entry_def Let_def)
  then have "a_hash (toy_entry 9) \<noteq> a_hash (toy_entry 1)"
    using conjunct2[OF audit_tamper_evident[OF toy_prints toy_verifies], THEN spec, of "[toy_entry 9]"]
      toy_verifies[of 9] d g[of 1] g[of 9] by (auto simp: toy_platform_def head_hash_def)
  then show ?thesis using toy_verifies by simp
qed

end
