(* ===== verification/Traceparent.thy ===== *)
theory Traceparent
  imports Js_String
begin

text \<open>
  \<open>src/src/common/utils/traceparent.util.js\<close>: the W3C trace context header. Random bytes are given by
  their lower-case hexadecimal text.
\<close>

section \<open>Parsing and printing\<close>

definition is_hex :: "char \<Rightarrow> bool" where
  "is_hex c \<longleftrightarrow> is_digit c \<or> 97 \<le> code c \<and> code c \<le> 102"

definition hex_word :: "nat \<Rightarrow> string \<Rightarrow> bool" where
  "hex_word n s \<longleftrightarrow> length s = n \<and> list_all is_hex s"

definition hex_val :: "char \<Rightarrow> nat" where
  "hex_val c = (if is_digit c then code c - 48 else code c - 87)"

record trace =
  tr_version :: string
  tr_traceId :: string
  tr_parentId :: string
  tr_sampled :: bool

abbreviation zeros :: "nat \<Rightarrow> string" where
  "zeros n \<equiv> replicate n (CHR ''0'')"

definition flags_sampled :: "string \<Rightarrow> bool" where
  "flags_sampled flags = (foldl (\<lambda>a c. 16 * a + hex_val c) 0 flags mod 2 = 1)"

definition parseTraceparent :: "string option \<Rightarrow> trace option" where
  "parseTraceparent headerValue =
     (case headerValue of
        None \<Rightarrow> None
      | Some h \<Rightarrow>
          if h = [] then None
          else case js_split (CHR ''-'') (trim h) of
            [version, traceId, parentId, flags] \<Rightarrow>
              if \<not> hex_word 2 version then None
              else if version = ''ff'' then None
              else if \<not> hex_word 32 traceId then None
              else if traceId = zeros 32 then None
              else if \<not> hex_word 16 parentId then None
              else if parentId = zeros 16 then None
              else if \<not> hex_word 2 flags then None
              else Some \<lparr>tr_version = version, tr_traceId = traceId, tr_parentId = parentId, tr_sampled = flags_sampled flags\<rparr>
          | _ \<Rightarrow> None)"

definition traceparent_text :: "string \<Rightarrow> string \<Rightarrow> bool \<Rightarrow> string" where
  "traceparent_text traceId parentId sampled =
     ''00'' @ CHR ''-'' # traceId @ CHR ''-'' # parentId @ CHR ''-'' # (if sampled then ''01'' else ''00'')"

definition generateTraceparent :: "string \<Rightarrow> string \<Rightarrow> bool \<Rightarrow> string" where
  "generateTraceparent random16 random8 sampled = traceparent_text random16 random8 sampled"

definition continueTrace :: "string \<Rightarrow> string \<Rightarrow> string option \<Rightarrow> bool option \<Rightarrow> string" where
  "continueTrace random16 random8 incoming sampled =
     (case parseTraceparent incoming of
        None \<Rightarrow> generateTraceparent random16 random8 (case sampled of Some b \<Rightarrow> b | None \<Rightarrow> True)
      | Some parsed \<Rightarrow>
          traceparent_text (tr_traceId parsed) random8 (case sampled of Some b \<Rightarrow> b | None \<Rightarrow> tr_sampled parsed))"

record span_context =
  sp_traceId :: string
  sp_spanId :: string
  sp_sampled :: bool
  sp_fresh :: bool

text \<open>A fresh header that does not parse, which needs random bytes that are all zero, is a \<open>TypeError\<close>.\<close>

definition extractSpanContext :: "string \<Rightarrow> string \<Rightarrow> string option \<Rightarrow> span_context option" where
  "extractSpanContext random16 random8 headerValue =
     (case parseTraceparent headerValue of
        None \<Rightarrow> map_option (\<lambda>t. \<lparr>sp_traceId = tr_traceId t, sp_spanId = tr_parentId t, sp_sampled = True, sp_fresh = True\<rparr>)
                  (parseTraceparent (Some (generateTraceparent random16 random8 True)))
      | Some t \<Rightarrow> Some \<lparr>sp_traceId = tr_traceId t, sp_spanId = tr_parentId t, sp_sampled = tr_sampled t, sp_fresh = False\<rparr>)"

section \<open>Round trips\<close>

lemma trim_plain: "s \<noteq> [] \<Longrightarrow> \<not> is_space (hd s) \<Longrightarrow> \<not> is_space (last s) \<Longrightarrow> trim s = s"
proof -
  assume a: "s \<noteq> []" "\<not> is_space (hd s)" "\<not> is_space (last s)"
  have "dropWhile is_space s = s" using a(1,2) by (cases s) auto
  moreover have "dropWhile is_space (rev s) = rev s" using a(1,3) by (cases s rule: rev_cases) auto
  ultimately show ?thesis by (simp add: trim_def)
qed

lemma dash_notin_hex: "hex_word n s \<Longrightarrow> CHR ''-'' \<notin> set s"
  by (auto simp: hex_word_def list_all_iff is_hex_def is_digit_def code_def)

lemma split_traceparent:
  assumes "hex_word 32 t" and "hex_word 16 p"
  shows "js_split (CHR ''-'') (trim (traceparent_text t p b)) = [''00'', t, p, if b then ''01'' else ''00'']"
proof -
  have "trim (traceparent_text t p b) = traceparent_text t p b"
    by (rule trim_plain) (auto simp: traceparent_text_def is_space_def code_def)
  moreover have "js_split (CHR ''-'') (traceparent_text t p b) = [''00'', t, p, if b then ''01'' else ''00'']"
    unfolding traceparent_text_def using dash_notin_hex[OF assms(1)] dash_notin_hex[OF assms(2)]
    by (simp add: js_split_append[of _ "''00''", simplified] js_split_append js_split_word)
  ultimately show ?thesis by simp
qed

lemma parse_text:
  assumes "hex_word 32 t" and "t \<noteq> zeros 32" and "hex_word 16 p" and "p \<noteq> zeros 16"
  shows "parseTraceparent (Some (traceparent_text t p b)) = Some \<lparr>tr_version = ''00'', tr_traceId = t, tr_parentId = p, tr_sampled = b\<rparr>"
proof -
  have "traceparent_text t p b \<noteq> []" by (simp add: traceparent_text_def)
  moreover have "hex_word 2 ''00''" "hex_word 2 ''01''" by (simp_all add: hex_word_def is_hex_def is_digit_def code_def)
  moreover have "flags_sampled (if b then ''01'' else ''00'') = b"
    by (simp add: flags_sampled_def hex_val_def is_digit_def code_def)
  ultimately show ?thesis
    using assms by (simp add: parseTraceparent_def split_traceparent)
qed

lemma parse_fields:
  assumes "parseTraceparent h = Some t"
  shows "hex_word 2 (tr_version t) \<and> tr_version t \<noteq> ''ff'' \<and> hex_word 32 (tr_traceId t) \<and> tr_traceId t \<noteq> zeros 32 \<and>
    hex_word 16 (tr_parentId t) \<and> tr_parentId t \<noteq> zeros 16"
  using assms unfolding parseTraceparent_def
  by (auto split: option.splits if_splits list.splits)

text \<open>
  C39: Trace headers round-trip and traces are continued. A generated header parses back to the very
  identifiers and flag it was made of. Whatever header comes in, the header that goes out parses: it
  keeps the identifier of the incoming trace when that header is valid and starts the new one
  otherwise, carries the new span, and is sampled as the caller says or else as the incoming header
  was. A header that parses has identifiers of the right length in lower-case hexadecimal that are
  not all zero. This is what the code does and in two points not what its comments say: the comment on
  \<open>continueTrace\<close> gives the parameter \<open>sampled\<close> the default true, where the code inherits the incoming
  flag, and the comment on \<open>parseTraceparent\<close> has unsupported versions refused, where the code accepts
  every version but ff.
\<close>

theorem traceparent_roundtrip:
  assumes "hex_word 32 random16" and "random16 \<noteq> zeros 32" and "hex_word 16 random8" and "random8 \<noteq> zeros 16"
  shows "parseTraceparent (Some (generateTraceparent random16 random8 sampled)) =
      Some \<lparr>tr_version = ''00'', tr_traceId = random16, tr_parentId = random8, tr_sampled = sampled\<rparr> \<and>
    parseTraceparent (Some (continueTrace random16 random8 incoming wanted)) =
      Some \<lparr>tr_version = ''00'',
        tr_traceId = (case parseTraceparent incoming of Some t \<Rightarrow> tr_traceId t | None \<Rightarrow> random16),
        tr_parentId = random8,
        tr_sampled = (case wanted of Some b \<Rightarrow> b | None \<Rightarrow>
          (case parseTraceparent incoming of Some t \<Rightarrow> tr_sampled t | None \<Rightarrow> True))\<rparr> \<and>
    (\<forall>t. parseTraceparent incoming = Some t \<longrightarrow> hex_word 32 (tr_traceId t) \<and> tr_traceId t \<noteq> zeros 32 \<and>
       hex_word 16 (tr_parentId t) \<and> tr_parentId t \<noteq> zeros 16)"
proof (intro conjI)
  show "parseTraceparent (Some (continueTrace random16 random8 incoming wanted)) =
      Some \<lparr>tr_version = ''00'',
        tr_traceId = (case parseTraceparent incoming of Some t \<Rightarrow> tr_traceId t | None \<Rightarrow> random16),
        tr_parentId = random8,
        tr_sampled = (case wanted of Some b \<Rightarrow> b | None \<Rightarrow>
          (case parseTraceparent incoming of Some t \<Rightarrow> tr_sampled t | None \<Rightarrow> True))\<rparr>"
  proof (cases "parseTraceparent incoming")
    case None
    then show ?thesis using assms by (simp add: continueTrace_def generateTraceparent_def parse_text split: option.split)
  next
    case (Some t)
    with parse_fields[OF Some] assms show ?thesis by (simp add: continueTrace_def parse_text split: option.split)
  qed
qed (use assms parse_fields[of incoming] in \<open>auto simp: generateTraceparent_def parse_text\<close>)

theorem traceparent_roundtrip_witness:
  "parseTraceparent (Some (generateTraceparent (replicate 32 (CHR ''a'')) (replicate 16 (CHR ''b'')) True)) =
     Some \<lparr>tr_version = ''00'', tr_traceId = replicate 32 (CHR ''a''), tr_parentId = replicate 16 (CHR ''b''), tr_sampled = True\<rparr>"
proof -
  have h: "hex_word 32 (replicate 32 (CHR ''a''))" "hex_word 16 (replicate 16 (CHR ''b''))" "replicate 32 (CHR ''a'') \<noteq> zeros 32" "replicate 16 (CHR ''b'') \<noteq> zeros 16"
    by code_simp+
  show ?thesis by (rule conjunct1[OF traceparent_roundtrip[OF h(1,3,2,4)]])
qed

end
