(* ===== verification/Event_Bus.thy ===== *)
theory Event_Bus
  imports LL_Prelude
begin

text \<open>
  \<open>src/src/common/utils/event-bus.util.js\<close>: synchronous publish and subscribe inside the process.
  Handlers are named; a handler records its calls and may throw, and does not use the bus itself
  while it is called. The wrapper that \<open>subscribeOnce\<close> makes is a function object of its own, numbered
  per call. The buffers of past events are arrays that are shared with scheduled replays, so they
  live in a store and are named by their position in it.
\<close>

section \<open>The bus\<close>

datatype 'h listener = Direct 'h | Wrapper nat 'h

fun handler_of :: "'h listener \<Rightarrow> 'h" where
  "handler_of (Direct h) = h"
| "handler_of (Wrapper n h) = h"

fun is_once :: "'h listener \<Rightarrow> bool" where
  "is_once (Direct h) = False"
| "is_once (Wrapper n h) = True"

record ('h, 'p) bus =
  listeners :: "(string, 'h listener list) js_map"
  onceListeners :: "('h, 'h listener) js_map"
  buffers :: "(string, nat) js_map"
  arrays :: "'p list list"
  historyMaxSize :: nat
  made :: nat
  replays :: "(string \<times> 'h listener \<times> nat) list"
  called :: "('h \<times> 'p) list"

definition new_bus :: "nat option \<Rightarrow> ('h, 'p) bus" where
  "new_bus maxSize = \<lparr>listeners = [], onceListeners = [], buffers = [], arrays = [],
     historyMaxSize = (case maxSize of Some n \<Rightarrow> n | None \<Rightarrow> 0), made = 0, replays = [], called = []\<rparr>"

text \<open>A \<open>Set\<close> keeps the order of insertion and ignores an element it has.\<close>

definition set_add :: "'a \<Rightarrow> 'a list \<Rightarrow> 'a list" where
  "set_add x xs = (if x \<in> set xs then xs else xs @ [x])"

definition listeners_of :: "('h, 'p) bus \<Rightarrow> string \<Rightarrow> 'h listener list" where
  "listeners_of b e = (case map_get (listeners b) e of Some ls \<Rightarrow> ls | None \<Rightarrow> [])"

definition subscribe_listener :: "string \<Rightarrow> 'h listener \<Rightarrow> ('h, 'p) bus \<Rightarrow> ('h, 'p) bus" where
  "subscribe_listener eventName l b =
     b\<lparr>listeners := map_set (listeners b) eventName (set_add l (listeners_of b eventName)),
       replays := replays b @ (if 0 < historyMaxSize b
         then (case map_get (buffers b) eventName of Some a \<Rightarrow> [(eventName, l, a)] | None \<Rightarrow> []) else [])\<rparr>"

definition subscribe :: "string \<Rightarrow> 'h \<Rightarrow> ('h, 'p) bus \<Rightarrow> ('h, 'p) bus" where
  "subscribe eventName handler = subscribe_listener eventName (Direct handler)"

definition subscribeOnce :: "string \<Rightarrow> 'h \<Rightarrow> ('h, 'p) bus \<Rightarrow> ('h, 'p) bus" where
  "subscribeOnce eventName handler b =
     (let wrapper = Wrapper (made b) handler;
          b1 = b\<lparr>made := made b + 1,
                 onceListeners := (if map_get (onceListeners b) handler = None
                   then map_set (onceListeners b) handler wrapper else onceListeners b)\<rparr>
      in subscribe_listener eventName wrapper b1)"

definition remove_listener :: "string \<Rightarrow> 'h listener \<Rightarrow> ('h, 'p) bus \<Rightarrow> ('h, 'p) bus" where
  "remove_listener eventName l b =
     (case map_get (listeners b) eventName of
        None \<Rightarrow> b
      | Some ls \<Rightarrow> let ls' = removeAll l ls
          in b\<lparr>listeners := (if ls' = [] then map_delete (listeners b) eventName else map_set (listeners b) eventName ls')\<rparr>)"

text \<open>\<open>unsubscribe\<close> with a handler of the caller; a wrapper is never a key of \<open>_onceListeners\<close>.\<close>

definition unsubscribe :: "string \<Rightarrow> 'h \<Rightarrow> ('h, 'p) bus \<Rightarrow> ('h, 'p) bus" where
  "unsubscribe eventName handler b =
     remove_listener eventName (case map_get (onceListeners b) handler of Some w \<Rightarrow> w | None \<Rightarrow> Direct handler) b"

text \<open>The ring buffer of an event.\<close>

definition record_event :: "string \<Rightarrow> 'p \<Rightarrow> ('h, 'p) bus \<Rightarrow> ('h, 'p) bus" where
  "record_event eventName payload b =
     (if historyMaxSize b = 0 then b
      else let b1 = (case map_get (buffers b) eventName of
                 Some _ \<Rightarrow> b
               | None \<Rightarrow> b\<lparr>buffers := map_set (buffers b) eventName (length (arrays b)), arrays := arrays b @ [[]]\<rparr>);
               a = the (map_get (buffers b1) eventName);
               buf = arrays b1 ! a @ [payload]
           in b1\<lparr>arrays := (arrays b1)[a := if historyMaxSize b < length buf then tl buf else buf]\<rparr>)"

text \<open>
  The loop over the live set; a wrapper removes itself before it calls its handler, which does not
  disturb the others. A handler that throws ends the loop: \<open>Inl\<close>.
\<close>

fun notify :: "('h \<Rightarrow> 'p \<Rightarrow> bool) \<Rightarrow> string \<Rightarrow> 'p \<Rightarrow> 'h listener list \<Rightarrow> nat \<Rightarrow> ('h, 'p) bus \<Rightarrow> ('h + nat) \<times> ('h, 'p) bus" where
  "notify throws eventName payload [] n b = (Inr n, b)"
| "notify throws eventName payload (l # ls) n b =
     (let b1 = (if is_once l then remove_listener eventName l b else b);
          b2 = b1\<lparr>called := called b1 @ [(handler_of l, payload)]\<rparr>
      in if throws (handler_of l) payload then (Inl (handler_of l), b2)
         else notify throws eventName payload ls (n + 1) b2)"

definition publish :: "('h \<Rightarrow> 'p \<Rightarrow> bool) \<Rightarrow> string \<Rightarrow> 'p \<Rightarrow> ('h, 'p) bus \<Rightarrow> ('h + nat) \<times> ('h, 'p) bus" where
  "publish throws eventName payload b =
     (let b1 = record_event eventName payload b
      in notify throws eventName payload (listeners_of b1 eventName) 0 b1)"

text \<open>
  The scheduled callback \<open>past.forEach(handler)\<close>, on the array as it is when it runs. A wrapper
  unsubscribes itself at the first past event and is still called for the others; a handler that
  throws ends the loop.
\<close>

fun replay_to :: "('h \<Rightarrow> 'p \<Rightarrow> bool) \<Rightarrow> string \<Rightarrow> 'h listener \<Rightarrow> 'p list \<Rightarrow> ('h, 'p) bus \<Rightarrow> ('h, 'p) bus" where
  "replay_to throws eventName l [] b = b"
| "replay_to throws eventName l (p # ps) b =
     (let b1 = (if is_once l then remove_listener eventName l b else b);
          b2 = b1\<lparr>called := called b1 @ [(handler_of l, p)]\<rparr>
      in if throws (handler_of l) p then b2 else replay_to throws eventName l ps b2)"

definition run_replay :: "('h \<Rightarrow> 'p \<Rightarrow> bool) \<Rightarrow> ('h, 'p) bus \<Rightarrow> ('h, 'p) bus" where
  "run_replay throws b = (case replays b of
      [] \<Rightarrow> b
    | (eventName, l, a) # rs \<Rightarrow> replay_to throws eventName l (arrays b ! a) (b\<lparr>replays := rs\<rparr>))"

definition clear_event :: "string \<Rightarrow> ('h, 'p) bus \<Rightarrow> ('h, 'p) bus" where
  "clear_event eventName b =
     (if eventName \<noteq> []
      then b\<lparr>listeners := map_delete (listeners b) eventName, buffers := map_delete (buffers b) eventName\<rparr>
      else b\<lparr>listeners := [], buffers := []\<rparr>)"

definition listenerCount :: "string \<Rightarrow> ('h, 'p) bus \<Rightarrow> nat" where
  "listenerCount eventName b = length (listeners_of b eventName)"

section \<open>Publishing\<close>

lemma remove_listener_of:
  "listeners_of (remove_listener e l b) e' = (if e' = e then removeAll l (listeners_of b e) else listeners_of b e')"
  by (auto simp: remove_listener_def listeners_of_def Let_def split: option.splits)

lemma remove_listener_simps [simp]:
  "called (remove_listener e l b) = called b" "buffers (remove_listener e l b) = buffers b" "arrays (remove_listener e l b) = arrays b"
  by (auto simp: remove_listener_def Let_def split: option.splits)

lemma listeners_of_called [simp]: "listeners_of (b\<lparr>called := c\<rparr>) e = listeners_of b e"
  by (simp add: listeners_of_def)

lemma notify_run:
  assumes "notify throws e p ls n b = (r, b')" and "\<forall>l\<in>set ls. \<not> throws (handler_of l) p"
  shows "r = Inr (n + length ls) \<and> called b' = called b @ map (\<lambda>l. (handler_of l, p)) ls \<and>
    listeners_of b' e = filter (\<lambda>l. l \<notin> set (filter is_once ls)) (listeners_of b e) \<and>
    (\<forall>e'. e' \<noteq> e \<longrightarrow> listeners_of b' e' = listeners_of b e') \<and> buffers b' = buffers b \<and> arrays b' = arrays b"
  using assms
proof (induction ls arbitrary: n b)
  case (Cons l ls)
  let ?b = "if is_once l then remove_listener e l b else b"
  let ?c = "?b\<lparr>called := called ?b @ [(handler_of l, p)]\<rparr>"
  have run: "notify throws e p ls (n + 1) ?c = (r, b')" using Cons.prems by (simp add: Let_def)
  have c: "listeners_of ?c e' = (if e' = e \<and> is_once l then removeAll l (listeners_of b e) else listeners_of b e')" for e'
    by (simp add: remove_listener_of)
  have k: "called ?c = called b @ [(handler_of l, p)]" "buffers ?c = buffers b" "arrays ?c = arrays b" by simp_all
  from Cons.IH[OF run] Cons.prems(2) show ?case
    unfolding c k by (auto simp: removeAll_filter_not_eq intro!: filter_cong)
qed (simp add: listeners_of_def)

lemma record_event_listeners [simp]:
  "listeners (record_event e p b) = listeners b" "called (record_event e p b) = called b"
  by (auto simp: record_event_def Let_def split: option.splits)

definition history_of :: "('h, 'p) bus \<Rightarrow> string \<Rightarrow> 'p list" where
  "history_of b e = (case map_get (buffers b) e of Some a \<Rightarrow> arrays b ! a | None \<Rightarrow> [])"

definition buffers_ok :: "('h, 'p) bus \<Rightarrow> bool" where
  "buffers_ok b \<longleftrightarrow> (\<forall>e a. map_get (buffers b) e = Some a \<longrightarrow> a < length (arrays b) \<and> length (arrays b ! a) \<le> historyMaxSize b)"

text \<open>The last \<open>n\<close> elements of a list.\<close>

definition latest :: "nat \<Rightarrow> 'a list \<Rightarrow> 'a list" where
  "latest n xs = drop (length xs - n) xs"

lemma record_event_history:
  assumes "buffers_ok b"
  shows "history_of (record_event e p b) e =
    (if historyMaxSize b = 0 then history_of b e else latest (historyMaxSize b) (history_of b e @ [p]))"
proof (cases "map_get (buffers b) e")
  case None
  then show ?thesis
    by (auto simp: record_event_def history_of_def latest_def Let_def nth_append)
next
  case (Some a)
  with assms have a: "a < length (arrays b)" "length (arrays b ! a) \<le> historyMaxSize b" by (auto simp: buffers_ok_def)
  show ?thesis
  proof (cases "historyMaxSize b < length (arrays b ! a @ [p])")
    case True
    with a have "length (arrays b ! a @ [p]) - historyMaxSize b = Suc 0" by simp
    moreover from this a True have "arrays b ! a \<noteq> [] \<or> historyMaxSize b = 0" by auto
    ultimately show ?thesis
      using True a Some by (auto simp: record_event_def history_of_def latest_def Let_def drop_Suc)
  next
    case False
    with a Some show ?thesis by (auto simp: record_event_def history_of_def latest_def Let_def)
  qed
qed

text \<open>
  Publishing reaches every listener once. When no handler throws, an event is delivered to the
  listeners of its channel in the order in which they subscribed, each exactly once, and their
  number is the answer; afterwards the listeners that subscribed for one invocation are gone, all
  others are still there, and no other channel has changed. The history of the channel, when it is
  kept, is the latest payloads up to its size.
\<close>

theorem publish_notifies:
  assumes "publish throws e p b = (r, b')" and "\<forall>l\<in>set (listeners_of b e). \<not> throws (handler_of l) p" and "buffers_ok b"
  shows "r = Inr (length (listeners_of b e)) \<and>
    called b' = called b @ map (\<lambda>l. (handler_of l, p)) (listeners_of b e) \<and>
    listeners_of b' e = filter (\<lambda>l. \<not> is_once l) (listeners_of b e) \<and>
    (\<forall>e'. e' \<noteq> e \<longrightarrow> listeners_of b' e' = listeners_of b e') \<and>
    history_of b' e = (if historyMaxSize b = 0 then history_of b e else latest (historyMaxSize b) (history_of b e @ [p]))"
proof -
  have l: "listeners_of (record_event e p b) e' = listeners_of b e'" for e' by (simp add: listeners_of_def)
  have "notify throws e p (listeners_of b e) 0 (record_event e p b) = (r, b')"
    using assms(1) by (simp add: publish_def Let_def l)
  note n = notify_run[OF this assms(2), unfolded l]
  have "filter (\<lambda>x. x \<notin> set (filter is_once (listeners_of b e))) (listeners_of b e) = filter (\<lambda>x. \<not> is_once x) (listeners_of b e)"
    by (rule filter_cong) auto
  moreover have "history_of b' e = history_of (record_event e p b) e" using n unfolding history_of_def by metis
  ultimately show ?thesis using n record_event_history[OF assms(3), of e p] by simp
qed

definition sample_bus :: "(string, nat) bus" where
  "sample_bus = subscribe ''APPROVED'' ''audit'' (subscribeOnce ''APPROVED'' ''mail'' (new_bus (Some 2)))"

theorem publish_notifies_witness:
  "fst (publish (\<lambda>_ _. False) ''APPROVED'' 7 sample_bus) = Inr 2 \<and>
   listeners_of (snd (publish (\<lambda>_ _. False) ''APPROVED'' 7 sample_bus)) ''APPROVED'' = [Direct ''audit'']"
proof -
  have "listeners_of sample_bus ''APPROVED'' = [Wrapper 0 ''mail'', Direct ''audit'']" "buffers sample_bus = []" by code_simp+
  with publish_notifies[OF prod.collapse[symmetric, of "publish (\<lambda>_ _. False) ''APPROVED'' 7 sample_bus"]] show ?thesis
    by (auto simp: buffers_ok_def)
qed

text \<open>
  Once a handler has been used with \<open>subscribeOnce\<close>, its name stands for that first wrapper: a later
  ordinary subscription of the same handler cannot be undone with \<open>unsubscribe\<close>.
\<close>

lemma unsubscribe_after_once:
  assumes "map_get (onceListeners b) h = Some (Wrapper n h)"
  shows "Direct h \<in> set (listeners_of (unsubscribe e h (subscribe e h b)) e)"
  using assms
proof -
  have "Direct h \<in> set (listeners_of (subscribe e h b) e)" "onceListeners (subscribe e h b) = onceListeners b"
    by (simp_all add: subscribe_def subscribe_listener_def listeners_of_def set_add_def)
  with assms show ?thesis by (simp add: unsubscribe_def remove_listener_of)
qed

text \<open>A new subscriber of an event is called with the events of the buffer, in their order.\<close>

lemma remove_listener_called [simp]: "called (remove_listener e l b) = called b"
  by (simp add: remove_listener_def Let_def split: option.splits)

lemma replay_to_called:
  "(\<And>p. p \<in> set ps \<Longrightarrow> \<not> throws (handler_of l) p) \<Longrightarrow>
     called (replay_to throws e l ps b) = called b @ map (Pair (handler_of l)) ps"
  by (induction ps arbitrary: b) (auto simp: Let_def)

lemma replay_calls_history:
  assumes "replays b = []" and "0 < historyMaxSize b" and "map_get (buffers b) e = Some a"
    and "\<And>p. p \<in> set (arrays b ! a) \<Longrightarrow> \<not> throws h p"
  shows "called (run_replay throws (subscribe e h b)) = called b @ map (Pair h) (arrays b ! a)"
  using assms by (simp add: run_replay_def subscribe_def subscribe_listener_def replay_to_called)

end
