(* ===== verification/Date_Range.thy ===== *)
theory Date_Range
  imports Date_Util
begin

text \<open>
  \<open>src/src/common/utils/date-range-validator.util.js\<close>: a second implementation of overlap and working
  days, on \<open>Date\<close> objects. \<open>new Date(s)\<close> reads the date format of the language as midnight UTC and
  leaves any other text to the engine.
\<close>

definition date_of :: "(string \<Rightarrow> time_value) \<Rightarrow> string \<Rightarrow> time_value" where
  "date_of engine s = midnight (\<lambda>_. engine s) s"

datatype range_error = InvalidDateFormat | RangeError

definition isOverlap ::
  "(string \<Rightarrow> time_value) \<Rightarrow> string \<times> string \<Rightarrow> string \<times> string \<Rightarrow> range_error + bool" where
  "isOverlap engine rangeA rangeB =
     (case (date_of engine (fst rangeA), date_of engine (snd rangeA), date_of engine (fst rangeB), date_of engine (snd rangeB)) of
        (Some startA, Some endA, Some startB, Some endB) \<Rightarrow> Inr (startA \<le> endB \<and> startB \<le> endA)
      | _ \<Rightarrow> Inl InvalidDateFormat)"

text \<open>An invalid holiday makes \<open>toISOString\<close> throw, but only when the range is not empty.\<close>

fun holiday_dates :: "(string \<Rightarrow> time_value) \<Rightarrow> string list \<Rightarrow> string list option" where
  "holiday_dates engine [] = Some []"
| "holiday_dates engine (h # hs) = (case (date_of engine h, holiday_dates engine hs) of
      (Some t, Some ds) \<Rightarrow> Some (iso_slice t # ds) | _ \<Rightarrow> None)"

definition countBusinessDays ::
  "(string \<Rightarrow> time_value) \<Rightarrow> string \<Rightarrow> string \<Rightarrow> string list \<Rightarrow> range_error + nat" where
  "countBusinessDays engine startDate endDate holidays =
     (let current = date_of engine startDate; end' = date_of engine endDate
      in if time_lt end' current then Inr 0
         else case holiday_dates engine holidays of
           None \<Rightarrow> Inl RangeError
         | Some holidaySet \<Rightarrow> (case (current, end') of
             (Some c, Some e) \<Rightarrow>
               Inr (count_days (\<lambda>t. getUTCDay t \<noteq> 0 \<and> getUTCDay t \<noteq> 6 \<and> iso_slice t \<notin> set holidaySet) c e 0)
           | _ \<Rightarrow> Inr 0))"

lemma date_of_iso: "iso_day n \<Longrightarrow> date_of engine (iso_slice (n * ms_per_day)) = Some (n * ms_per_day)"
  by (simp add: date_of_def midnight_iso_date)

lemma holiday_dates_iso: "list_all iso_day hs \<Longrightarrow>
    holiday_dates engine (map (\<lambda>n. iso_slice (n * ms_per_day)) hs) = Some (map (\<lambda>n. iso_slice (n * ms_per_day)) hs)"
  by (induction hs) (simp_all add: date_of_iso)

text \<open>
  C40: The two date libraries agree. On dates written as YYYY-MM-DD, \<open>DateRangeValidator.isOverlap\<close>
  returns what \<open>datesOverlap\<close> returns and never throws, and \<open>DateRangeValidator.countBusinessDays\<close>
  returns what \<open>calculateWorkingDays\<close> returns for the weekend of Saturday and Sunday, whatever the
  engine does with other texts.
\<close>

theorem date_libraries_agree:
  assumes "iso_day a" "iso_day b" "iso_day c" "iso_day d" and "list_all iso_day hs"
  shows "isOverlap engine (iso_slice (a * ms_per_day), iso_slice (b * ms_per_day)) (iso_slice (c * ms_per_day), iso_slice (d * ms_per_day)) =
      Inr (datesOverlap (iso_slice (a * ms_per_day)) (iso_slice (b * ms_per_day)) (iso_slice (c * ms_per_day)) (iso_slice (d * ms_per_day))) \<and>
    countBusinessDays engine (iso_slice (a * ms_per_day)) (iso_slice (b * ms_per_day)) (map (\<lambda>n. iso_slice (n * ms_per_day)) hs) =
      Inr (calculateWorkingDays (iso_slice (a * ms_per_day)) (iso_slice (b * ms_per_day)) [0, 6] (map (\<lambda>n. iso_slice (n * ms_per_day)) hs))"
proof
  note u = assms(1-4)[THEN utc_of_iso_date] and v = assms(1-4)[THEN date_of_iso]
  show "isOverlap engine (iso_slice (a * ms_per_day), iso_slice (b * ms_per_day)) (iso_slice (c * ms_per_day), iso_slice (d * ms_per_day)) =
      Inr (datesOverlap (iso_slice (a * ms_per_day)) (iso_slice (b * ms_per_day)) (iso_slice (c * ms_per_day)) (iso_slice (d * ms_per_day)))"
    by (simp add: isOverlap_def datesOverlap_def u v)
  show "countBusinessDays engine (iso_slice (a * ms_per_day)) (iso_slice (b * ms_per_day)) (map (\<lambda>n. iso_slice (n * ms_per_day)) hs) =
      Inr (calculateWorkingDays (iso_slice (a * ms_per_day)) (iso_slice (b * ms_per_day)) [0, 6] (map (\<lambda>n. iso_slice (n * ms_per_day)) hs))"
    by (simp add: countBusinessDays_def calculateWorkingDays_def Let_def u v holiday_dates_iso[OF assms(5)] count_days_stop)
qed

theorem date_libraries_agree_witness:
  "countBusinessDays (\<lambda>_. None) (iso_slice (19782 * ms_per_day)) (iso_slice (19786 * ms_per_day)) [] =
     Inr (calculateWorkingDays (iso_slice (19782 * ms_per_day)) (iso_slice (19786 * ms_per_day)) [0, 6] [])"
proof -
  have d: "iso_day 19782" "iso_day 19786" by code_simp+
  from conjunct2[OF date_libraries_agree[OF d d, of "[]"]] show ?thesis by simp
qed

end
