(* ===== verification/Resilience_Utils.thy ===== *)
theory Resilience_Utils
  imports Constants
begin

text \<open>
  Three small utilities: \<open>src/src/common/utils/exponential-backoff.util.js\<close>,
  \<open>src/src/common/utils/circuit-breaker-state.util.js\<close> and
  \<open>src/src/common/utils/request-deduplication.util.js\<close>. Clock readings and random numbers are arguments.
  The numeric options are whole non-negative numbers of at most \<open>2 ^ 53\<close>; there the minimum of the
  exact power and the limit is the minimum JavaScript computes, since a power that is rounded is
  already above the limit.
\<close>

section \<open>Exponential backoff\<close>

record backoff =
  bo_baseDelayMs :: nat
  bo_maxDelayMs :: nat
  bo_factor :: nat
  bo_jitter :: bool

definition nat_or :: "nat option \<Rightarrow> nat \<Rightarrow> nat" where
  "nat_or x d = (case x of None \<Rightarrow> d | Some n \<Rightarrow> if n = 0 then d else n)"

definition new_backoff :: "nat option \<Rightarrow> nat option \<Rightarrow> nat option \<Rightarrow> bool option \<Rightarrow> backoff" where
  "new_backoff base limit factor jitter =
     \<lparr>bo_baseDelayMs = nat_or base 100, bo_maxDelayMs = nat_or limit 5000, bo_factor = nat_or factor 2,
      bo_jitter = (case jitter of Some b \<Rightarrow> b | None \<Rightarrow> True)\<rparr>"

definition calculateDelay :: "backoff \<Rightarrow> rat \<Rightarrow> int \<Rightarrow> int" where
  "calculateDelay b random attempt =
     (let n = nat (max attempt 0); exponential = min (bo_maxDelayMs b) (bo_baseDelayMs b * bo_factor b ^ n)
      in if \<not> bo_jitter b then int exponential else \<lfloor>fl (random * of_nat exponential)\<rfloor>)"

lemma calculateDelay_nonneg: "0 \<le> random \<Longrightarrow> 0 \<le> calculateDelay b random attempt"
  by (simp add: calculateDelay_def Let_def fl_nonneg)

text \<open>
  The loop of \<open>executeWithRetry\<close> from an attempt on; \<open>last\<close> is what the attempts before threw,
  \<open>undefined\<close> (\<open>None\<close>) when there were none. The random numbers are indexed by the attempt.
\<close>

function execute_from ::
  "backoff \<Rightarrow> (nat \<Rightarrow> rat) \<Rightarrow> (nat \<Rightarrow> ('s, 'e, 'a) sem) \<Rightarrow> (int \<Rightarrow> 's \<Rightarrow> 's) \<Rightarrow> nat \<Rightarrow> 'e option \<Rightarrow> nat \<Rightarrow> ('s, 'e option, 'a) sem" where
  "execute_from b random fn sleep maxAttempts lastError attempt s =
     (if attempt < maxAttempts
      then case fn attempt s of
          (Inr x, t) \<Rightarrow> (Inr x, t)
        | (Inl e, t) \<Rightarrow>
            if attempt + 1 = maxAttempts then (Inl (Some e), t)
            else execute_from b random fn sleep maxAttempts (Some e) (attempt + 1)
                   (sleep (calculateDelay b (random attempt) (int attempt)) t)
      else (Inl lastError, s))"
  by pat_completeness auto
termination
  by (relation "measure (\<lambda>(b, r, f, sl, m, l, a, s). m - a)") auto

declare execute_from.simps [simp del]

definition executeWithRetry ::
  "backoff \<Rightarrow> (nat \<Rightarrow> rat) \<Rightarrow> (nat \<Rightarrow> ('s, 'e, 'a) sem) \<Rightarrow> (int \<Rightarrow> 's \<Rightarrow> 's) \<Rightarrow> nat \<Rightarrow> ('s, 'e option, 'a) sem" where
  "executeWithRetry b random fn sleep maxAttempts = execute_from b random fn sleep maxAttempts None 0"

text \<open>With at least one attempt the error that is thrown is the one of the last attempt.\<close>

lemma execute_from_error:
  "execute_from b random fn sleep m l a s = (Inl e, t) \<Longrightarrow> a < m \<Longrightarrow> \<exists>u x. fn (m - 1) u = (Inl x, t) \<and> e = Some x"
proof (induction b random fn sleep m l a s rule: execute_from.induct)
  case (1 b random fn sleep m l a s)
  obtain r u where r: "fn a s = (r, u)" by (cases "fn a s")
  show ?case
  proof (cases r)
    case (Inr x)
    have "execute_from b random fn sleep m l a s = (Inr x, u)"
      using r Inr 1(3) by (subst execute_from.simps) simp
    with 1(2) show ?thesis by simp
  next
    case (Inl x)
    show ?thesis
    proof (cases "a + 1 = m")
      case True
      have "execute_from b random fn sleep m l a s = (Inl (Some x), u)"
        using True r Inl by (subst execute_from.simps) simp
      with 1(2) r Inl True show ?thesis by (intro exI[of _ s] exI[of _ x]) auto
    next
      case False
      have "execute_from b random fn sleep m l a s =
          execute_from b random fn sleep m (Some x) (a + 1) (sleep (calculateDelay b (random a) (int a)) u)"
        using False r Inl 1(3) by (subst execute_from.simps) simp
      with 1(1)[OF 1(3) r[symmetric] Inl False] 1(2,3) False show ?thesis by simp
    qed
  qed
qed

section \<open>The state machine of a circuit breaker\<close>

record cb_machine =
  cb_failureThreshold :: nat
  cb_cooldownMs :: int
  cb_state :: circuit_state
  cb_failureCount :: nat
  cb_lastStateChange :: int

definition new_cb_machine :: "int \<Rightarrow> nat option \<Rightarrow> int option \<Rightarrow> cb_machine" where
  "new_cb_machine now threshold cooldown =
     \<lparr>cb_failureThreshold = nat_or threshold 3,
      cb_cooldownMs = (case cooldown of None \<Rightarrow> 5000 | Some c \<Rightarrow> if c = 0 then 5000 else c),
      cb_state = CLOSED, cb_failureCount = 0, cb_lastStateChange = now\<rparr>"

definition getState :: "int \<Rightarrow> int \<Rightarrow> cb_machine \<Rightarrow> circuit_state \<times> cb_machine" where
  "getState now now' m =
     (let m1 = (if cb_state m = OPEN \<and> cb_cooldownMs m \<le> now - cb_lastStateChange m
                then m\<lparr>cb_state := HALF_OPEN, cb_lastStateChange := now'\<rparr> else m)
      in (cb_state m1, m1))"

definition recordSuccess :: "int \<Rightarrow> cb_machine \<Rightarrow> cb_machine" where
  "recordSuccess now m = m\<lparr>cb_failureCount := 0, cb_state := CLOSED, cb_lastStateChange := now\<rparr>"

definition recordFailure :: "int \<Rightarrow> cb_machine \<Rightarrow> cb_machine" where
  "recordFailure now m =
     (let m1 = m\<lparr>cb_failureCount := cb_failureCount m + 1\<rparr>
      in if cb_failureThreshold m \<le> cb_failureCount m1 \<or> cb_state m = HALF_OPEN
         then m1\<lparr>cb_state := OPEN, cb_lastStateChange := now\<rparr> else m1)"

definition canExecute :: "int \<Rightarrow> int \<Rightarrow> cb_machine \<Rightarrow> bool \<times> cb_machine" where
  "canExecute now now' m = (case getState now now' m of (st, m') \<Rightarrow> (st \<noteq> OPEN, m'))"

text \<open>As many failures in a row as the threshold open a closed machine, and it stays shut for the cool-down.\<close>

lemma failures_open:
  "cb_failureThreshold m \<le> cb_failureCount m + n \<Longrightarrow> 0 < n \<Longrightarrow> cb_state ((recordFailure now ^^ n) m) = OPEN"
proof (induction n arbitrary: m)
  case (Suc n)
  let ?m = "recordFailure now m"
  have k: "cb_failureCount ?m = cb_failureCount m + 1" "cb_failureThreshold ?m = cb_failureThreshold m"
    by (auto simp: recordFailure_def Let_def)
  show ?case
  proof (cases "n = 0")
    case True
    with Suc.prems show ?thesis by (simp add: recordFailure_def Let_def)
  next
    case False
    with Suc.IH[of ?m] Suc.prems k show ?thesis by (simp add: funpow_swap1)
  qed
qed simp

lemma open_refuses:
  "cb_state m = OPEN \<Longrightarrow> now - cb_lastStateChange m < cb_cooldownMs m \<Longrightarrow> canExecute now now' m = (False, m)"
  by (simp add: canExecute_def getState_def Let_def)

section \<open>Request deduplication\<close>

text \<open>
  Promises are numbered. \<open>execute\<close> up to its \<open>await\<close> either joins a promise or starts one; when the
  promise it started rejects, the \<open>catch\<close> block removes whatever entry the key has then.
\<close>

record dedup_entry =
  dd_promise :: nat
  dd_expiresAt :: int

record dedup =
  dd_ttlMs :: int
  dd_cache :: "(string, dedup_entry) js_map"
  dd_started :: nat

definition new_dedup :: "int option \<Rightarrow> dedup" where
  "new_dedup ttl = \<lparr>dd_ttlMs = (case ttl of None \<Rightarrow> 60000 | Some t \<Rightarrow> if t = 0 then 60000 else t), dd_cache = [], dd_started = 0\<rparr>"

datatype joined = Unkeyed nat | Joined nat | Started nat

definition dedup_enter :: "int \<Rightarrow> int \<Rightarrow> string \<Rightarrow> dedup \<Rightarrow> joined \<times> dedup" where
  "dedup_enter now now' key d =
     (if key = [] then (Unkeyed (dd_started d), d\<lparr>dd_started := dd_started d + 1\<rparr>)
      else case map_get (dd_cache d) key of
        Some existing \<Rightarrow>
          if now < dd_expiresAt existing then (Joined (dd_promise existing), d)
          else (Started (dd_started d),
                d\<lparr>dd_cache := map_set (map_delete (dd_cache d) key) key \<lparr>dd_promise = dd_started d, dd_expiresAt = now' + dd_ttlMs d\<rparr>,
                  dd_started := dd_started d + 1\<rparr>)
      | None \<Rightarrow>
          (Started (dd_started d),
           d\<lparr>dd_cache := map_set (dd_cache d) key \<lparr>dd_promise = dd_started d, dd_expiresAt = now' + dd_ttlMs d\<rparr>,
             dd_started := dd_started d + 1\<rparr>))"

definition dedup_settle :: "string \<Rightarrow> bool \<Rightarrow> dedup \<Rightarrow> dedup" where
  "dedup_settle key rejected d = (if rejected then d\<lparr>dd_cache := map_delete (dd_cache d) key\<rparr> else d)"

definition dedup_clear :: "dedup \<Rightarrow> dedup" where
  "dedup_clear d = d\<lparr>dd_cache := []\<rparr>"

lemma dedup_joins:
  "key \<noteq> [] \<Longrightarrow> dedup_enter now now' key d = (Started n, d1) \<Longrightarrow> later < now' + dd_ttlMs d \<Longrightarrow>
     dedup_enter later later' key d1 = (Joined n, d1)"
  by (auto simp: dedup_enter_def split: option.splits if_splits)

text \<open>
  A task that is still running after its entry expired, and then rejects, drops the entry of the
  task that was started in its place: the next call starts a third one.
\<close>

lemma late_rejection_drops_newer:
  "\<exists>d1 d2 d3. dedup_enter 0 0 ''k'' (new_dedup (Some 10)) = (Started 0, d1) \<and>
     dedup_enter 20 20 ''k'' d1 = (Started 1, d2) \<and> dedup_enter 21 21 ''k'' (dedup_settle ''k'' True d2) = (Started 2, d3)"
  by (simp add: dedup_enter_def new_dedup_def dedup_settle_def)

end
