(* ===== verification/Telemetry.thy ===== *)
theory Telemetry
  imports Circuit_Breaker Hash_Util Date_Util
begin

text \<open>
  What the service reports about itself: the latency registry
  \<open>src/src/common/utils/metrics-registry.util.js\<close>, the health aggregator
  \<open>src/src/common/utils/health-aggregator.util.js\<close> and the endpoints of
  \<open>src/src/modules/health/health.controller.js\<close>. Durations are finite numbers. What the process and the
  database driver say (memory, uptime, clock, the answer to \<open>SELECT 1\<close>) are arguments. A response is
  its status and its JSON body.
\<close>

section \<open>Numbers and times\<close>

text \<open>\<open>Number(x.toFixed(n))\<close> of a number that is not below zero: the larger of two nearest decimals.\<close>

definition js_fixed :: "nat \<Rightarrow> rat \<Rightarrow> js_num" where
  "js_fixed n x = js_of (of_int \<lfloor>x * 10 ^ n + 1 / 2\<rfloor> / 10 ^ n)"

text \<open>\<open>toISOString\<close> of a time in the years 0 to 9999.\<close>

definition toISOString :: "int \<Rightarrow> string" where
  "toISOString t =
     (let ms = t mod ms_per_day
      in iso_slice t @ ''T'' @ dec_string 2 (nat (ms div 3600000)) @ '':'' @ dec_string 2 (nat (ms div 60000 mod 60)) @ '':'' @
         dec_string 2 (nat (ms div 1000 mod 60)) @ ''.'' @ dec_string 3 (nat (ms mod 1000)) @ ''Z'')"

lemma toISOString_epoch: "toISOString 0 = ''1970-01-01T00:00:00.000Z''"
  by code_simp

section \<open>Latency registry\<close>

record metrics =
  windowSize :: nat
  latencies :: "rat list"
  requestCount :: nat
  errorCount :: nat

definition new_metrics :: "nat option \<Rightarrow> metrics" where
  "new_metrics size' = \<lparr>windowSize = (case size' of None \<Rightarrow> 1000 | Some n \<Rightarrow> if n = 0 then 1000 else n),
     latencies = [], requestCount = 0, errorCount = 0\<rparr>"

definition recordRequest :: "rat \<Rightarrow> bool \<Rightarrow> metrics \<Rightarrow> metrics" where
  "recordRequest durationMs isError m =
     (let m1 = m\<lparr>requestCount := requestCount m + 1, errorCount := errorCount m + (if isError then 1 else 0)\<rparr>;
          ls = latencies m @ [durationMs]
      in m1\<lparr>latencies := if windowSize m < length ls then tl ls else ls\<rparr>)"

definition getPercentile :: "rat \<Rightarrow> metrics \<Rightarrow> rat" where
  "getPercentile p m =
     (if latencies m = [] then 0
      else let sorted' = sort (latencies m);
               index = \<lceil>fl (fl (p / 100) * of_nat (length sorted'))\<rceil> - 1
           in sorted' ! nat (max 0 (min (int (length sorted') - 1) index)))"

record snapshot =
  totalRequests :: nat
  totalErrors :: nat
  errorRate :: js_num
  p50 :: rat
  p95 :: rat
  p99 :: rat
  sampleSize :: nat

definition getSnapshot :: "metrics \<Rightarrow> snapshot" where
  "getSnapshot m =
     \<lparr>totalRequests = requestCount m, totalErrors = errorCount m,
      errorRate = (if 0 < requestCount m then js_fixed 4 (fl (of_nat (errorCount m) / of_nat (requestCount m))) else Fin 0),
      p50 = getPercentile 50 m, p95 = getPercentile 95 m, p99 = getPercentile 99 m,
      sampleSize = length (latencies m)\<rparr>"

definition reset_metrics :: "metrics \<Rightarrow> metrics" where
  "reset_metrics m = m\<lparr>latencies := [], requestCount := 0, errorCount := 0\<rparr>"

text \<open>The window holds the latest durations, and never more errors than requests are counted.\<close>

fun record_all :: "(rat \<times> bool) list \<Rightarrow> metrics \<Rightarrow> metrics" where
  "record_all [] m = m"
| "record_all ((d, e) # ds) m = record_all ds (recordRequest d e m)"

lemma recordRequest_window:
  assumes "latencies m = drop (length h - windowSize m) h"
  shows "latencies (recordRequest d e m) = drop (length (h @ [d]) - windowSize m) (h @ [d])"
proof (cases "length h < windowSize m")
  case False
  let ?k = "length h - windowSize m"
  have "latencies m @ [d] = drop ?k (h @ [d])" using assms by simp
  moreover have "tl (drop ?k (h @ [d])) = drop (length (h @ [d]) - windowSize m) (h @ [d])"
    using False by (simp add: tl_drop Suc_diff_le drop_Suc del: drop_append)
  ultimately show ?thesis using False by (simp add: recordRequest_def Let_def del: drop_append)
qed (use assms in \<open>simp add: recordRequest_def Let_def\<close>)

lemma record_all_window:
  assumes "latencies m = drop (length h - windowSize m) h"
  shows "latencies (record_all ds m) = drop (length (h @ map fst ds) - windowSize m) (h @ map fst ds) \<and>
     requestCount (record_all ds m) = requestCount m + length ds \<and>
     errorCount (record_all ds m) = errorCount m + length (filter snd ds)"
  using assms
proof (induction ds arbitrary: m h)
  case (Cons p ds)
  obtain d e where p: "p = (d, e)" by (cases p)
  have k: "windowSize (recordRequest d e m) = windowSize m" "requestCount (recordRequest d e m) = requestCount m + 1"
    "errorCount (recordRequest d e m) = errorCount m + (if e then 1 else 0)"
    by (simp_all add: recordRequest_def Let_def)
  from Cons.IH[of "recordRequest d e m" "h @ [d]"] recordRequest_window[OF Cons.prems, of d e] show ?case
    by (simp add: p k del: drop_append)
qed simp

text \<open>A percentile is one of the recorded durations, and the fiftieth is the lower median.\<close>

lemma getPercentile_sample:
  assumes "latencies m \<noteq> []"
  shows "getPercentile p m \<in> set (latencies m)"
proof -
  have "nat (max 0 (min (int (length (latencies m)) - 1) i)) < length (latencies m)" for i
    using assms by (cases "latencies m") auto
  from nth_mem[of _ "sort (latencies m)"] this show ?thesis
    using assms by (simp add: getPercentile_def Let_def)
qed

lemma getPercentile_median:
  assumes "latencies m \<noteq> []" and "length (latencies m) \<le> 1000000000000"
  shows "getPercentile 50 m = sort (latencies m) ! ((length (latencies m) - 1) div 2)"
proof -
  define n where "n = length (latencies m)"
  have n: "n \<le> 1000000000000" "n \<noteq> 0" using assms by (simp_all add: n_def)
  have "of_nat n \<le> (of_nat 1000000000000 :: rat)" using n(1) by (rule of_nat_mono)
  then have "grid (of_nat n / 2)" by (intro gridI[of _ "int n * 512"]) simp_all
  then have "fl (1 / 2 * of_nat n) = of_nat n / 2" using fl_grid by simp
  moreover have "fl (50 / 100) = 1 / 2" by code_simp
  moreover obtain k where k: "n = 2 * k \<or> n = 2 * k + 1" by (metis evenE oddE)
  then have "\<lceil>of_nat n / 2 :: rat\<rceil> = int ((n + 1) div 2)"
    by (intro ceiling_unique) auto
  ultimately have "\<lceil>fl (fl (50 / 100) * of_nat n)\<rceil> = int ((n + 1) div 2)" by metis
  then have "nat (max 0 (min (int n - 1) (\<lceil>fl (fl (50 / 100) * of_nat n)\<rceil> - 1))) = (n - 1) div 2"
    using n(2) k by auto
  then show ?thesis using assms(1) by (simp add: getPercentile_def Let_def n_def)
qed

section \<open>Health aggregator\<close>

text \<open>
  A probe answers with a value or throws an error with a message; reading \<open>status\<close> of \<open>null\<close> or
  \<open>undefined\<close> throws as well.
\<close>

fun prop_of :: "json \<Rightarrow> string \<Rightarrow> json" where
  "prop_of (JObj ps) k = (case map_of ps k of Some v \<Rightarrow> v | None \<Rightarrow> JUndef)"
| "prop_of _ k = JUndef"

definition probe_outcome :: "string + json \<Rightarrow> string + json" where
  "probe_outcome r = (case r of
      Inr JUndef \<Rightarrow> Inl ''Cannot read properties of undefined (reading 'status')''
    | Inr JNull \<Rightarrow> Inl ''Cannot read properties of null (reading 'status')''
    | _ \<Rightarrow> r)"

definition indicator_result :: "string + json \<Rightarrow> json" where
  "indicator_result r = (case probe_outcome r of
      Inl msg \<Rightarrow> JObj [(''status'', JStr ''down''), (''error'', JStr msg)]
    | Inr res \<Rightarrow> JObj
        [(''status'', if json_truthy (prop_of res ''status'') then prop_of res ''status'' else JStr ''up''),
         (''details'', if json_truthy (prop_of res ''details'') then prop_of res ''details'' else JNull)])"

definition reports :: "string \<Rightarrow> string + json \<Rightarrow> bool" where
  "reports st r = (case probe_outcome r of Inl msg \<Rightarrow> False | Inr res \<Rightarrow> prop_of res ''status'' = JStr st)"

definition probe_failed :: "string + json \<Rightarrow> bool" where
  "probe_failed r = (case probe_outcome r of Inl msg \<Rightarrow> True | Inr res \<Rightarrow> False)"

type_synonym indicators = "(string, string + json) js_map"

definition registerIndicator :: "string \<Rightarrow> string + json \<Rightarrow> indicators \<Rightarrow> indicators" where
  "registerIndicator name probe m = map_set m name probe"

fun check_from :: "indicators \<Rightarrow> (string \<times> json) list \<Rightarrow> bool \<Rightarrow> bool \<Rightarrow> (string \<times> json) list \<times> bool \<times> bool" where
  "check_from [] results isDegraded isUnhealthy = (results, isDegraded, isUnhealthy)"
| "check_from ((name, r) # rest) results isDegraded isUnhealthy =
     check_from rest (map_set results name (indicator_result r)) (isDegraded \<or> reports ''degraded'' r)
       (isUnhealthy \<or> reports ''down'' r \<or> probe_failed r)"

definition aggregate_check :: "int \<Rightarrow> indicators \<Rightarrow> json" where
  "aggregate_check now m =
     (case check_from m [] False False of (results, isDegraded, isUnhealthy) \<Rightarrow>
        JObj [(''status'', JStr (if isUnhealthy then ''unhealthy'' else if isDegraded then ''degraded'' else ''healthy'')),
              (''timestamp'', JStr (toISOString now)), (''indicators'', JObj results)])"

text \<open>The overall status is the worst of the indicators, whatever their order.\<close>

lemma check_from_flags:
  "snd (check_from m results dg un) = (dg \<or> (\<exists>(k, r)\<in>set m. reports ''degraded'' r),
     un \<or> (\<exists>(k, r)\<in>set m. reports ''down'' r \<or> probe_failed r))"
  by (induction m results dg un rule: check_from.induct) auto

lemma aggregate_status:
  "prop_of (aggregate_check now m) ''status'' = JStr
     (if \<exists>(k, r)\<in>set m. reports ''down'' r \<or> probe_failed r then ''unhealthy''
      else if \<exists>(k, r)\<in>set m. reports ''degraded'' r then ''degraded'' else ''healthy'')"
  using check_from_flags[of m "[]" False False]
  by (simp add: aggregate_check_def prod.case_eq_if split: prod.splits)

section \<open>Health endpoints\<close>

record database =
  isInitialized :: bool
  select_one :: "string + unit"

record memory_usage =
  rss :: nat
  heapUsed :: nat
  heapTotal :: nat

record reply =
  reply_status :: nat
  reply_body :: json

text \<open>The message of the failed database check; \<open>None\<close> when the database answers.\<close>

definition database_error :: "database option \<Rightarrow> string option" where
  "database_error ds = (case ds of
      None \<Rightarrow> Some ''Database connection is not initialized''
    | Some d \<Rightarrow> if \<not> isInitialized d then Some ''Database connection is not initialized''
        else (case select_one d of Inl msg \<Rightarrow> Some msg | Inr _ \<Rightarrow> None))"

definition error_field :: "string option \<Rightarrow> (string \<times> json) list" where
  "error_field e = (case e of None \<Rightarrow> [] | Some msg \<Rightarrow> if msg = [] then [] else [(''error'', JStr msg)])"

definition getLiveness :: "rat \<Rightarrow> int \<Rightarrow> reply" where
  "getLiveness uptime now = \<lparr>reply_status = 200, reply_body = JObj
     [(''status'', JStr ''UP''), (''uptimeSeconds'', JNum (Fin (of_int \<lfloor>uptime\<rfloor>))), (''timestamp'', JStr (toISOString now))]\<rparr>"

definition getReadiness :: "int \<Rightarrow> database option \<Rightarrow> reply" where
  "getReadiness now ds =
     (let dbError = database_error ds; isReady = (dbError = None)
      in \<lparr>reply_status = (if isReady then 200 else 503), reply_body = JObj
           ([(''status'', JStr (if isReady then ''UP'' else ''DOWN'')), (''database'', JStr (if isReady then ''READY'' else ''UNAVAILABLE''))]
            @ error_field dbError @ [(''timestamp'', JStr (toISOString now))])\<rparr>)"

definition getMetrics :: "platform \<Rightarrow> rat \<Rightarrow> memory_usage \<Rightarrow> string" where
  "getMetrics P uptime mem = join [CHR 0x0A]
     [''# HELP process_uptime_seconds Process uptime in seconds.'',
      ''# TYPE process_uptime_seconds gauge'',
      ''process_uptime_seconds '' @ show_number P (of_int \<lfloor>uptime\<rfloor>),
      [],
      ''# HELP process_resident_memory_bytes Resident memory size in bytes.'',
      ''# TYPE process_resident_memory_bytes gauge'',
      ''process_resident_memory_bytes '' @ show_number P (of_nat (rss mem)),
      [],
      ''# HELP process_heap_bytes Process heap bytes.'',
      ''# TYPE process_heap_bytes gauge'',
      ''process_heap_bytes '' @ show_number P (of_nat (heapUsed mem)),
      [],
      ''# HELP process_heap_total_bytes Process heap total bytes.'',
      ''# TYPE process_heap_total_bytes gauge'',
      ''process_heap_total_bytes '' @ show_number P (of_nat (heapTotal mem)),
      []]"

definition state_name :: "circuit_state \<Rightarrow> string" where
  "state_name st = (case st of CLOSED \<Rightarrow> ''CLOSED'' | OPEN \<Rightarrow> ''OPEN'' | HALF_OPEN \<Rightarrow> ''HALF_OPEN'')"

definition status_json :: "string \<Rightarrow> breaker_status \<Rightarrow> json" where
  "status_json name st = JObj [(''name'', JStr name), (''state'', JStr (state_name (st_state st))),
     (''failures'', JNum (Fin (of_nat (st_failures st)))),
     (''nextAttemptAt'', case st_nextAttemptAt st of None \<Rightarrow> JNull | Some t \<Rightarrow> JStr (toISOString t))]"

definition megabytes :: "nat \<Rightarrow> json" where
  "megabytes n = JNum (js_fixed 2 (fl (fl (of_nat n / 1024) / 1024)))"

definition getHealth :: "rat \<Rightarrow> int \<Rightarrow> memory_usage \<Rightarrow> string \<Rightarrow> database option \<Rightarrow> breaker_status option \<Rightarrow> reply" where
  "getHealth uptime now mem name ds circuitStatus =
     (let dbError = database_error ds; dbDown = (dbError \<noteq> None);
          isCircuitOpen = (case circuitStatus of Some st \<Rightarrow> st_state st = OPEN | None \<Rightarrow> False);
          overallStatus = (if dbDown then ''DOWN'' else if isCircuitOpen then ''DEGRADED'' else ''UP'')
      in \<lparr>reply_status = (if dbDown then 503 else 200), reply_body = JObj
           [(''status'', JStr overallStatus), (''timestamp'', JStr (toISOString now)),
            (''uptimeSeconds'', JNum (Fin (of_int \<lfloor>uptime\<rfloor>))),
            (''details'', JObj
              [(''database'', JObj ([(''status'', JStr (if dbDown then ''DOWN'' else ''UP'')), (''driver'', JStr ''sqlite'')] @ error_field dbError)),
               (''hcmCircuitBreaker'', case circuitStatus of Some st \<Rightarrow> status_json name st | None \<Rightarrow> JNull),
               (''memory'', JObj [(''rssMb'', megabytes (rss mem)), (''heapUsedMb'', megabytes (heapUsed mem)),
                  (''heapTotalMb'', megabytes (heapTotal mem))])])]\<rparr>)"

text \<open>
  The two probes agree: the readiness probe is up exactly when the health report is not down, and an
  open circuit degrades the report without taking the node out of service.
\<close>

lemma probes_agree:
  "reply_status (getReadiness now ds) = reply_status (getHealth uptime now' mem name ds cs)"
  "prop_of (reply_body (getReadiness now ds)) ''status'' = JStr ''UP'' \<longleftrightarrow> reply_status (getHealth uptime now' mem name ds cs) = 200"
  "prop_of (reply_body (getHealth uptime now' mem name ds cs)) ''status'' =
     JStr (if database_error ds \<noteq> None then ''DOWN'' else if \<exists>st. cs = Some st \<and> st_state st = OPEN then ''DEGRADED'' else ''UP'')"
  by (auto simp: getReadiness_def getHealth_def Let_def split: option.splits)

text \<open>Once the failures have opened the breaker of a running HCM client, the report says so.\<close>

lemma open_breaker_degrades:
  assumes "cb_state b = OPEN" and "database_error ds = None"
  shows "prop_of (reply_body (getHealth uptime now mem name ds (Some (getStatus b)))) ''status'' = JStr ''DEGRADED''"
  using assms by (simp add: probes_agree getStatus_def)

end
