(* ===== verification/Http_Layer.thy ===== *)
theory Http_Layer
  imports Hcm_Sync Telemetry
begin

text \<open>
  The HTTP face of the service: the controllers
  \<open>src/src/modules/timeoff/timeoff.controller.js\<close>, \<open>src/src/modules/balance/balance.controller.js\<close> and
  \<open>src/src/modules/hcm/hcm.controller.js\<close>, the filter
  \<open>src/src/common/filters/all-exceptions.filter.js\<close> and the interceptor
  \<open>src/src/common/interceptors/logging.interceptor.js\<close>. Routing and the pipes are the framework's:
  \<open>ParseUUIDPipe\<close> and \<open>ValidationPipe\<close> are arguments that accept a value or give the exception to
  throw. The exceptions of the services carry an error code; the wording of their messages and their
  details are an argument.
\<close>

section \<open>Exceptions\<close>

text \<open>An \<open>HttpException\<close> has a status and a response; anything else thrown has a message.\<close>

datatype exception = HttpEx nat json | OtherEx string

definition code_name :: "error_code \<Rightarrow> string" where
  "code_name c = (case c of
      INSUFFICIENT_BALANCE \<Rightarrow> ''INSUFFICIENT_BALANCE'' | BALANCE_CONFLICT \<Rightarrow> ''BALANCE_CONFLICT''
    | OVERLAPPING_REQUEST \<Rightarrow> ''OVERLAPPING_REQUEST'' | IDEMPOTENCY_CONFLICT \<Rightarrow> ''IDEMPOTENCY_CONFLICT''
    | INVALID_STATUS_TRANSITION \<Rightarrow> ''INVALID_STATUS_TRANSITION'' | HCM_UNAVAILABLE \<Rightarrow> ''HCM_UNAVAILABLE''
    | REQUEST_NOT_FOUND \<Rightarrow> ''REQUEST_NOT_FOUND'' | BALANCE_NOT_FOUND \<Rightarrow> ''BALANCE_NOT_FOUND''
    | MISSING_IDEMPOTENCY_KEY \<Rightarrow> ''MISSING_IDEMPOTENCY_KEY'' | INVALID_DATE_RANGE \<Rightarrow> ''INVALID_DATE_RANGE'')"

type_synonym wording = "exc \<Rightarrow> (string \<times> json) list"

fun to_exception :: "wording \<Rightarrow> exc \<Rightarrow> exception" where
  "to_exception w (HttpException st c) = HttpEx st (JObj ((''error'', JStr (code_name c)) # w (HttpException st c)))"
| "to_exception w (DriverError code' msg) = OtherEx msg"
| "to_exception w (JsError msg) = OtherEx msg"

definition from_service :: "wording \<Rightarrow> ('h, 'a) service \<Rightarrow> ('h node, exception, 'a) sem" where
  "from_service w m = catchM m (\<lambda>e. throwM (to_exception w e))"

section \<open>The logging interceptor\<close>

record http_request =
  hr_method :: string
  hr_url :: string
  hr_headers :: "(string \<times> string) list"

definition header :: "http_request \<Rightarrow> string \<Rightarrow> string option" where
  "header rq name = (case map_of (hr_headers rq) name of Some v \<Rightarrow> if v = [] then None else Some v | None \<Rightarrow> None)"

definition request_id :: "string \<Rightarrow> http_request \<Rightarrow> string" where
  "request_id uuid rq = (case header rq ''x-request-id'' of
      Some v \<Rightarrow> v
    | None \<Rightarrow> (case header rq ''x-correlation-id'' of Some v \<Rightarrow> v | None \<Rightarrow> uuid))"

definition correlation_id :: "string \<Rightarrow> http_request \<Rightarrow> string" where
  "correlation_id uuid rq = (case header rq ''x-correlation-id'' of Some v \<Rightarrow> v | None \<Rightarrow> request_id uuid rq)"

record tagged =
  t_requestId :: string
  t_correlationId :: string
  t_headers :: "(string \<times> string) list"
  t_logs :: "json list"

definition log_start :: "string \<Rightarrow> http_request \<Rightarrow> int \<Rightarrow> json" where
  "log_start requestId rq now = JObj [(''event'', JStr ''REQUEST_START''), (''requestId'', JStr requestId), (''method'', JStr (hr_method rq)),
     (''url'', JStr (hr_url rq)),
     (''employeeId'', case map_of (hr_headers rq) ''x-employee-id'' of Some v \<Rightarrow> JStr v | None \<Rightarrow> JUndef),
     (''timestamp'', JStr (toISOString now))]"

definition log_outcome :: "string \<Rightarrow> http_request \<Rightarrow> int \<Rightarrow> int \<Rightarrow> string + nat \<Rightarrow> json" where
  "log_outcome requestId rq startMs now r =
     (let tail' = [(''durationMs'', JNum (Fin (of_int (now - startMs)))), (''timestamp'', JStr (toISOString now))]
      in case r of
        Inr statusCode \<Rightarrow> JObj ([(''event'', JStr ''REQUEST_END''), (''requestId'', JStr requestId), (''method'', JStr (hr_method rq)),
          (''url'', JStr (hr_url rq)), (''statusCode'', JNum (Fin (of_nat statusCode)))] @ tail')
      | Inl msg \<Rightarrow> JObj ([(''event'', JStr ''REQUEST_ERROR''), (''requestId'', JStr requestId), (''method'', JStr (hr_method rq)),
          (''url'', JStr (hr_url rq)), (''error'', JStr msg)] @ tail'))"

text \<open>The handler ends with a status code or an error's message, after the clock has moved on.\<close>

definition intercept :: "string \<Rightarrow> int \<Rightarrow> int \<Rightarrow> http_request \<Rightarrow> string + nat \<Rightarrow> tagged" where
  "intercept uuid startMs endMs rq r =
     (let requestId = request_id uuid rq; correlationId = correlation_id uuid rq
      in \<lparr>t_requestId = requestId, t_correlationId = correlationId,
          t_headers = [(''X-Request-ID'', requestId), (''X-Correlation-ID'', correlationId)],
          t_logs = [log_start requestId rq startMs, log_outcome requestId rq startMs endMs r]\<rparr>)"

section \<open>The exception filter\<close>

definition join_messages :: "platform \<Rightarrow> json list \<Rightarrow> string" where
  "join_messages P xs = join ''; '' (map (\<lambda>j. if j = JNull \<or> j = JUndef then [] else js_String P j) xs)"

fun is_object :: "json \<Rightarrow> bool" where
  "is_object (JObj ps) = True"
| "is_object (JArr xs) = True"
| "is_object _ = False"

definition status_text :: "platform \<Rightarrow> nat \<Rightarrow> json" where
  "status_text P st = JStr (show_number P (of_nat st))"

definition default_message :: json where
  "default_message = JStr ''An unexpected error occurred''"

text \<open>Status, error code, message and details.\<close>

fun classify :: "platform \<Rightarrow> exception \<Rightarrow> nat \<times> json \<times> json \<times> json" where
  "classify P (OtherEx msg) = (500, JStr ''INTERNAL_SERVER_ERROR'', default_message, JUndef)"
| "classify P (HttpEx status response) =
     (if is_object response
      then (status,
        (if json_truthy (prop_of response ''error'') then prop_of response ''error'' else status_text P status),
        (case prop_of response ''message'' of
           JArr xs \<Rightarrow> JStr (join_messages P xs)
         | message \<Rightarrow> if json_truthy message then message else default_message),
        prop_of response ''details'')
      else (status, status_text P status, JStr (js_String P response), JUndef))"

text \<open>The filter; the second part is the error it logs.\<close>

definition catch_exception ::
  "platform \<Rightarrow> int \<Rightarrow> http_request \<Rightarrow> string option \<Rightarrow> exception \<Rightarrow> reply \<times> string option" where
  "catch_exception P now rq requestId ex =
     (case classify P ex of (status, errorCode, message, details) \<Rightarrow>
        (\<lparr>reply_status = status, reply_body = JObj
           ([(''statusCode'', JNum (Fin (of_nat status))), (''error'', errorCode), (''message'', message),
             (''requestId'', JStr (case requestId of Some i \<Rightarrow> if i = [] then ''unknown'' else i | None \<Rightarrow> ''unknown'')),
             (''timestamp'', JStr (toISOString now)), (''path'', JStr (hr_url rq))]
            @ (if details = JUndef then [] else [(''details'', details)]))\<rparr>,
         case ex of OtherEx msg \<Rightarrow> Some msg | HttpEx _ _ \<Rightarrow> None))"

section \<open>The controllers\<close>

type_synonym ('v, 'd) pipe = "'v \<Rightarrow> exception + 'd"

definition piped :: "('v, 'd) pipe \<Rightarrow> 'v \<Rightarrow> ('d \<Rightarrow> ('s, exception, 'a) sem) \<Rightarrow> ('s, exception, 'a) sem" where
  "piped p v k = (case p v of Inl e \<Rightarrow> throwM e | Inr x \<Rightarrow> k x)"

definition post_request ::
  "wording \<Rightarrow> 'h orm \<Rightarrow> env \<Rightarrow> (json, create_dto) pipe \<Rightarrow> json \<Rightarrow> string option \<Rightarrow> ('h node, exception, request_view) sem" where
  "post_request w D E pipe body key =
     piped pipe body (\<lambda>dto. from_service w (createRequest D E dto key))"

definition status_names :: "(string \<times> request_status) list" where
  "status_names = [(''PENDING'', PENDING), (''APPROVED'', APPROVED), (''REJECTED'', REJECTED), (''CANCELLED'', CANCELLED)]"

definition list_requests ::
  "wording \<Rightarrow> 'h orm \<Rightarrow> string option \<Rightarrow> string option \<Rightarrow> string option \<Rightarrow> string option \<Rightarrow> string option \<Rightarrow>
     ('h node, exception, list_result) sem" where
  "list_requests w D employeeId locationId statusQ limQ offQ =
     (let st = (case statusQ of Some v \<Rightarrow> if v = [] then None else Some v | None \<Rightarrow> None);
          filters = (\<lambda>s. \<lparr>f_employeeId = employeeId, f_locationId = locationId, f_status = s, f_limit = limQ, f_offset = offQ\<rparr>)
      in case st of
        None \<Rightarrow> from_service w (listRequests D (filters None))
      | Some v \<Rightarrow> (case map_of status_names v of
          None \<Rightarrow> throwM (HttpEx 422 (JObj [(''statusCode'', JNum (Fin 422)), (''message'', JStr (''Invalid status: '' @ v)),
                    (''error'', JStr ''Unprocessable Entity'')]))
        | Some s \<Rightarrow> from_service w (listRequests D (filters (Some s)))))"

definition get_request :: "wording \<Rightarrow> 'h orm \<Rightarrow> (string, string) pipe \<Rightarrow> string \<Rightarrow> ('h node, exception, request_view) sem" where
  "get_request w D uuid_pipe i = piped uuid_pipe i (\<lambda>i'. from_service w (getRequest D i'))"

definition approve_request ::
  "wording \<Rightarrow> 'h orm \<Rightarrow> int \<Rightarrow> (string, string) pipe \<Rightarrow> (json, string) pipe \<Rightarrow> string \<Rightarrow> json \<Rightarrow> ('h node, exception, request_view) sem" where
  "approve_request w D now uuid_pipe pipe i body =
     piped uuid_pipe i (\<lambda>i'. piped pipe body (\<lambda>approverId. from_service w (approveRequest D now i' approverId)))"

definition reject_request ::
  "wording \<Rightarrow> 'h orm \<Rightarrow> int \<Rightarrow> (string, string) pipe \<Rightarrow> (json, string \<times> string) pipe \<Rightarrow> string \<Rightarrow> json \<Rightarrow>
     ('h node, exception, request_view) sem" where
  "reject_request w D now uuid_pipe pipe i body =
     piped uuid_pipe i (\<lambda>i'. piped pipe body (\<lambda>(approverId, reason). from_service w (rejectRequest D now i' approverId reason)))"

definition cancel_request ::
  "wording \<Rightarrow> 'h orm \<Rightarrow> (string, string) pipe \<Rightarrow> (json, string option) pipe \<Rightarrow> string \<Rightarrow> json \<Rightarrow> ('h node, exception, request_view) sem" where
  "cancel_request w D uuid_pipe pipe i body =
     piped uuid_pipe i (\<lambda>i'. piped pipe body (\<lambda>reason. from_service w (cancelRequest D i' reason)))"

definition get_balances where
  "get_balances w D threshold now employeeId locationId =
     from_service w (getBalancesForEmployee D threshold now employeeId locationId)"

definition get_one_balance where
  "get_one_balance w D threshold now employeeId locationId leaveType =
     from_service w (getBalance D threshold now employeeId locationId leaveType)"

definition trigger_batch_sync :: "wording \<Rightarrow> ('h node, exception, json) sem" where
  "trigger_batch_sync w = from_service w (bindM triggerManualBatchSync
     (\<lambda>_. returnM (JObj [(''triggered'', JBool True), (''message'', JStr ''Batch sync started in background'')])))"

definition sync_logs where
  "sync_logs w D = from_service w (getSyncLogs D (Fin 20))"

section \<open>The declared shapes of the bodies\<close>

text \<open>
  What the decorators of \<open>src/src/modules/timeoff/dto\<close> ask of a body. They are declarations for the
  validation pipe; no handler binds them to its parameter, so they are stated here beside the
  controllers and the controllers take the pipe as an argument. \<open>IsDateString\<close> is the library's and an
  argument.
\<close>

definition is_text :: "nat \<Rightarrow> nat \<Rightarrow> json \<Rightarrow> bool" where
  "is_text lo hi j = (case j of JStr s \<Rightarrow> lo \<le> length s \<and> length s \<le> hi | _ \<Rightarrow> False)"

definition optional :: "(json \<Rightarrow> bool) \<Rightarrow> json \<Rightarrow> bool" where
  "optional p j \<longleftrightarrow> j = JUndef \<or> j = JNull \<or> p j"

definition create_rules :: "(json \<Rightarrow> bool) \<Rightarrow> json \<Rightarrow> bool" where
  "create_rules isDateString body \<longleftrightarrow>
     is_text 1 128 (prop_of body ''employeeId'') \<and> is_text 1 128 (prop_of body ''locationId'') \<and>
     prop_of body ''leaveType'' \<in> JStr ` set LeaveType \<and>
     isDateString (prop_of body ''startDate'') \<and> isDateString (prop_of body ''endDate'') \<and>
     optional (is_text 0 1000) (prop_of body ''notes'')"

definition approve_rules :: "json \<Rightarrow> bool" where
  "approve_rules body \<longleftrightarrow> is_text 1 128 (prop_of body ''approverId'')"

definition reject_rules :: "json \<Rightarrow> bool" where
  "reject_rules body \<longleftrightarrow> is_text 1 128 (prop_of body ''approverId'') \<and> is_text 1 500 (prop_of body ''reason'')"

definition cancel_rules :: "json \<Rightarrow> bool" where
  "cancel_rules body \<longleftrightarrow> optional (is_text 0 500) (prop_of body ''reason'')"

section \<open>Guarantees\<close>

text \<open>A rejection that keeps its rules is an approval that keeps its rules, with a reason of its own.\<close>

lemma reject_rules_approve: "reject_rules body \<Longrightarrow> approve_rules body \<and> cancel_rules body"
  by (auto simp: reject_rules_def approve_rules_def cancel_rules_def optional_def is_text_def split: json.splits)

lemma create_rules_kind:
  "create_rules isDateString body \<Longrightarrow> \<exists>e l lt. prop_of body ''employeeId'' = JStr e \<and> e \<noteq> [] \<and>
     prop_of body ''locationId'' = JStr l \<and> l \<noteq> [] \<and> prop_of body ''leaveType'' = JStr lt \<and> lt \<in> set LeaveType"
  by (auto simp: create_rules_def is_text_def split: json.splits)

text \<open>The ids of a request come from its headers when there are any, so a caller's trace is kept.\<close>

lemma ids_follow_headers:
  "header rq ''x-request-id'' = Some v \<Longrightarrow> t_requestId (intercept uuid s e rq r) = v"
  "header rq ''x-correlation-id'' = Some c \<Longrightarrow> t_correlationId (intercept uuid s e rq r) = c"
  "header rq ''x-correlation-id'' = None \<Longrightarrow> t_correlationId (intercept uuid s e rq r) = t_requestId (intercept uuid s e rq r)"
  "\<forall>l\<in>set (t_logs (intercept uuid s e rq r)). prop_of l ''requestId'' = JStr (t_requestId (intercept uuid s e rq r))"
  by (auto simp: intercept_def Let_def request_id_def correlation_id_def log_start_def log_outcome_def split: sum.splits)

text \<open>The one shape of an error: six properties in a fixed order, and the details if there are any.\<close>

definition error_body :: "nat \<Rightarrow> json \<Rightarrow> json \<Rightarrow> string \<Rightarrow> int \<Rightarrow> string \<Rightarrow> json \<Rightarrow> json" where
  "error_body st errc message requestId now path details = JObj
     ([(''statusCode'', JNum (Fin (of_nat st))), (''error'', errc), (''message'', message), (''requestId'', JStr requestId),
       (''timestamp'', JStr (toISOString now)), (''path'', JStr path)] @ (if details = JUndef then [] else [(''details'', details)]))"

lemma catch_exception_shape:
  "\<exists>st errc message details. fst (catch_exception P now rq (Some i) ex) =
     \<lparr>reply_status = st, reply_body = error_body st errc message (if i = [] then ''unknown'' else i) now (hr_url rq) details\<rparr> \<and>
     errc \<noteq> JUndef \<and> message \<noteq> JUndef"
proof -
  obtain st errc message details where c: "classify P ex = (st, errc, message, details)" by (metis prod_cases4)
  moreover have "errc \<noteq> JUndef" "message \<noteq> JUndef"
    using c by (cases ex; auto simp: status_text_def default_message_def split: if_splits json.splits)+
  ultimately show ?thesis by (auto simp: catch_exception_def error_body_def)
qed

lemma catch_service_error:
  "\<exists>message details. catch_exception P now rq (Some i) (to_exception w (HttpException st c)) =
     (\<lparr>reply_status = st, reply_body = error_body st (JStr (code_name c)) message (if i = [] then ''unknown'' else i) now (hr_url rq) details\<rparr>,
      None) \<and> message \<noteq> JUndef"
proof -
  have "code_name c \<noteq> []" by (cases c) (simp_all add: code_name_def)
  then show ?thesis
    by (auto simp: catch_exception_def error_body_def default_message_def split: json.splits)
qed

lemma catch_other_error:
  "catch_exception P now rq (Some i) (OtherEx msg) =
     (\<lparr>reply_status = 500, reply_body = error_body 500 (JStr ''INTERNAL_SERVER_ERROR'') (JStr ''An unexpected error occurred'')
        (if i = [] then ''unknown'' else i) now (hr_url rq) JUndef\<rparr>, Some msg)"
  by (simp add: catch_exception_def error_body_def default_message_def)

lemma request_id_nonempty: "uuid \<noteq> [] \<Longrightarrow> request_id uuid rq \<noteq> []"
  by (auto simp: request_id_def header_def split: option.splits if_splits)

text \<open>
  C29: An error a client sees has one shape and leaks nothing. When \<open>POST /requests\<close> throws on a ledger
  in order, nothing has changed and the answer's body is the six properties \<open>statusCode\<close> (the status of
  the answer), \<open>error\<close>, \<open>message\<close>, \<open>requestId\<close> (the id the interceptor put into the header
  \<open>X-Request-ID\<close>), \<open>timestamp\<close> and \<open>path\<close>, and \<open>details\<close> if the exception has any. It is one of the
  seven refusals of the service with its status and code, or, for any error of the driver or the
  program, status 500 with a fixed code and a fixed text and no details, while its message goes to the
  log only. And every other exception, whoever throws it, is answered in the same shape.
\<close>

theorem errors_normalised:
  assumes "orm_laws D undo" and "ledger_inv (tables s)" and "pipe body = Inr dto"
    and "post_request w D E pipe body key s = (Inl ex, t)" and "uuid \<noteq> []"
  shows "tables t = tables s \<and> jobs t = jobs s \<and>
    (\<exists>st errc message details.
       fst (catch_exception P now rq (Some (t_requestId (intercept uuid t0 t1 rq outcome))) ex) =
         \<lparr>reply_status = st, reply_body = JObj
            ([(''statusCode'', JNum (Fin (of_nat st))), (''error'', JStr errc), (''message'', message),
              (''requestId'', JStr (request_id uuid rq)), (''timestamp'', JStr (toISOString now)), (''path'', JStr (hr_url rq))]
             @ (if details = JUndef then [] else [(''details'', details)]))\<rparr> \<and>
       message \<noteq> JUndef \<and> (''X-Request-ID'', request_id uuid rq) \<in> set (t_headers (intercept uuid t0 t1 rq outcome)) \<and>
       ((\<exists>c. errc = code_name c \<and> (st, c) \<in> {(400, MISSING_IDEMPOTENCY_KEY), (404, BALANCE_NOT_FOUND), (409, OVERLAPPING_REQUEST),
           (409, IDEMPOTENCY_CONFLICT), (409, BALANCE_CONFLICT), (422, INSUFFICIENT_BALANCE), (422, INVALID_DATE_RANGE)}) \<or>
        st = 500 \<and> errc = ''INTERNAL_SERVER_ERROR'' \<and> message = JStr ''An unexpected error occurred'' \<and> details = JUndef \<and>
        (\<exists>msg. ex = OtherEx msg \<and> snd (catch_exception P now rq (Some (t_requestId (intercept uuid t0 t1 rq outcome))) ex) = Some msg))) \<and>
    (\<exists>st errc message details. fst (catch_exception P now rq (Some i) ex') =
       \<lparr>reply_status = st, reply_body = error_body st errc message (if i = [] then ''unknown'' else i) now (hr_url rq) details\<rparr> \<and>
       errc \<noteq> JUndef \<and> message \<noteq> JUndef)"
proof -
  from assms(3,4) obtain e where e: "createRequest D E dto key s = (Inl e, t)" "ex = to_exception w e"
    by (auto simp: post_request_def piped_def from_service_def catchM_def split: prod.splits sum.splits)
  note run = orm_laws.createRequest_run[OF assms(1) e(1) ledger_inv_wf[OF assms(2)], simplified]
  let ?i = "t_requestId (intercept uuid t0 t1 rq outcome)"
  have i: "?i = request_id uuid rq" "request_id uuid rq \<noteq> []" using request_id_nonempty[OF assms(5)] by (simp_all add: intercept_def Let_def)
  have h: "(''X-Request-ID'', request_id uuid rq) \<in> set (t_headers (intercept uuid t0 t1 rq outcome))" by (simp add: intercept_def Let_def)
  have "\<exists>st errc message details. fst (catch_exception P now rq (Some ?i) ex) = \<lparr>reply_status = st,
      reply_body = error_body st (JStr errc) message (request_id uuid rq) now (hr_url rq) details\<rparr> \<and> message \<noteq> JUndef \<and>
      ((\<exists>c. errc = code_name c \<and> (st, c) \<in> {(400, MISSING_IDEMPOTENCY_KEY), (404, BALANCE_NOT_FOUND), (409, OVERLAPPING_REQUEST),
           (409, IDEMPOTENCY_CONFLICT), (409, BALANCE_CONFLICT), (422, INSUFFICIENT_BALANCE), (422, INVALID_DATE_RANGE)}) \<or>
        st = 500 \<and> errc = ''INTERNAL_SERVER_ERROR'' \<and> message = JStr ''An unexpected error occurred'' \<and> details = JUndef \<and>
        (\<exists>msg. ex = OtherEx msg \<and> snd (catch_exception P now rq (Some ?i) ex) = Some msg))"
  proof (cases e)
    case (HttpException st c)
    have "(st, c) \<in> {(400, MISSING_IDEMPOTENCY_KEY), (404, BALANCE_NOT_FOUND), (409, OVERLAPPING_REQUEST),
        (409, IDEMPOTENCY_CONFLICT), (409, BALANCE_CONFLICT), (422, INSUFFICIENT_BALANCE), (422, INVALID_DATE_RANGE)}"
      using run by (auto simp: HttpException create_refused_def)
    with catch_service_error[of P now rq ?i w st c] show ?thesis unfolding e(2) HttpException i(1) using i(2) by fastforce
  qed (use i in \<open>auto simp: e(2) catch_other_error\<close>)
  with run h catch_exception_shape[of P now rq i ex'] show ?thesis unfolding error_body_def by simp
qed

text \<open>The key of a request that is still remembered, with another payload.\<close>

theorem errors_normalised_witness:
  "\<exists>ex t body. post_request (\<lambda>_. []) mem_orm sample_env (\<lambda>_. Inr sample_dto) JNull (Some ''k0'') (node_of pending_tables) = (Inl ex, t) \<and>
     tables t = pending_tables \<and>
     fst (catch_exception sample_platform 5 \<lparr>hr_method = ''POST'', hr_url = ''/requests'', hr_headers = []\<rparr>
       (Some (t_requestId (intercept ''u1'' 0 1 \<lparr>hr_method = ''POST'', hr_url = ''/requests'', hr_headers = []\<rparr> (Inr 409)))) ex) =
       \<lparr>reply_status = 409, reply_body = body\<rparr> \<and>
     prop_of body ''requestId'' = JStr ''u1'' \<and> prop_of body ''path'' = JStr ''/requests''"
proof -
  let ?rq = "\<lparr>hr_method = ''POST'', hr_url = ''/requests'', hr_headers = []\<rparr>"
  have "createRequest mem_orm sample_env sample_dto (Some ''k0'') (node_of pending_tables) =
      (Inl (HttpException 409 IDEMPOTENCY_CONFLICT), node_of pending_tables)"
    using sample_not_past sample_in_order sample_hash
    by (simp add: createRequest_def sample_sel) (simp add: run_simps checkIdempotency_def pending_tables_def sample_record_def)
  then obtain ex t where run: "post_request (\<lambda>_. []) mem_orm sample_env (\<lambda>_. Inr sample_dto) JNull (Some ''k0'') (node_of pending_tables) = (Inl ex, t)"
    and ex: "ex = to_exception (\<lambda>_. []) (HttpException 409 IDEMPOTENCY_CONFLICT)"
    by (simp add: post_request_def piped_def from_service_def catchM_def)
  have u: "''u1'' \<noteq> []" by simp
  let ?r = "fst (catch_exception sample_platform 5 ?rq (Some (t_requestId (intercept ''u1'' 0 1 ?rq (Inr 409)))) ex)"
  note n = errors_normalised[OF mem.orm_laws_axioms pending_inv refl run u, where P = sample_platform and now = 5 and rq = ?rq and ?t0.0 = 0 and ?t1.0 = 1 and outcome = "Inr 409" and i = "[]" and ex' = ex]
  from n obtain st errc message details where t: "tables t = tables (node_of pending_tables)" and r: "?r = \<lparr>reply_status = st, reply_body = JObj
            ([(''statusCode'', JNum (Fin (of_nat st))), (''error'', JStr errc), (''message'', message),
              (''requestId'', JStr (request_id ''u1'' ?rq)), (''timestamp'', JStr (toISOString 5)), (''path'', JStr (hr_url ?rq))]
             @ (if details = JUndef then [] else [(''details'', details)]))\<rparr>"
    by blast
  have st: "reply_status ?r = 409" unfolding ex by (simp add: catch_exception_def)
  have "request_id ''u1'' ?rq = ''u1''" by (simp add: request_id_def header_def)
  with run t r st show ?thesis by (intro exI[of _ ex] exI[of _ t] exI[of _ "reply_body ?r"]) (simp add: node_of_def)
qed

text \<open>
  A refused argument never reaches the service: an id, a body or a status that is not accepted leaves
  the node as it was.
\<close>

lemma refused_untouched:
  "pipe body = Inl e \<Longrightarrow> post_request w D E pipe body key s = (Inl e, s)"
  "uuid_pipe i = Inl e \<Longrightarrow> get_request w D uuid_pipe i s = (Inl e, s)"
  "uuid_pipe i = Inl e \<Longrightarrow> approve_request w D now uuid_pipe p1 i body s = (Inl e, s)"
  "uuid_pipe i = Inl e \<Longrightarrow> reject_request w D now uuid_pipe p2 i body s = (Inl e, s)"
  "uuid_pipe i = Inl e \<Longrightarrow> cancel_request w D uuid_pipe p3 i body s = (Inl e, s)"
  by (simp_all add: post_request_def get_request_def approve_request_def reject_request_def cancel_request_def piped_def)

lemma invalid_status_refused:
  assumes "v \<noteq> []" and "v \<notin> {''PENDING'', ''APPROVED'', ''REJECTED'', ''CANCELLED''}"
  shows "\<exists>e. list_requests w D x y (Some v) limQ offQ s = (Inl e, s) \<and> reply_status (fst (catch_exception P now rq i e)) = 422"
  using assms by (auto simp: list_requests_def status_names_def catch_exception_def)

text \<open>
  A manual batch run that is refused because one is in progress answers 500, like a programming error.
\<close>

lemma busy_batch_answers_500:
  assumes "batchRunning s"
  shows "\<exists>e. trigger_batch_sync w s = (Inl e, s) \<and> reply_status (fst (catch_exception P now rq i e)) = 500"
  using assms by (simp add: trigger_batch_sync_def from_service_def triggerManualBatchSync_def catchM_def bindM_def catch_exception_def)

end
