(* ===== verification/Spec2Isabelle.thy ===== *)
theory Spec2Isabelle
  imports Racing Batch_Report Hcm_Retries Hcm_Delivery Unordered_Dates Wiring Create_Lock Priority_Queue Dead_Letter_Queue Lock_Manager Idempotency_Manager
    Rate_Limiters Access_Control Audit_Chain Traceparent Event_Bus Date_Range Resilience_Utils
    Http_Layer
begin

text \<open>
  LeaveLedger is a time-off microservice in JavaScript: employees ask for leave, managers decide, and
  an external HCM system holds the authoritative entitlements. The development models its services,
  entities, background jobs, HTTP layer, utility classes and the mock HCM it is tested against, and
  proves what makes them correct.

  \<^bold>\<open>How the parts interact.\<close> A request of a client enters through a controller and runs a handler of
  \<open>TimeOffService\<close> or \<open>BalanceService\<close> on four tables in SQLite (balances, requests, idempotency records,
  sync logs), reached through TypeORM. A created request reserves days (available to pending); an
  approval moves them to used, a rejection or cancellation gives them back. After a commit the handlers
  schedule callbacks with \<open>setImmediate\<close> that tell the HCM through \<open>HcmService\<close> (retry around a circuit
  breaker around HTTP). A nightly job reconciles the balances with the HCM's snapshot and a
  quarter-hourly one retries notifications.

  \<^bold>\<open>Conventions.\<close> A handler is a function from a node to a result and a node
  (\<open>sem\<close>, in \<open>LL_Prelude\<close>): the node has the tables, the scheduled callbacks, the batch flag and the
  connection, and a result is an exception or a value. Numbers are doubles: \<open>js_num\<close> in \<open>Js_Number\<close> has
  the finite values as rationals with IEEE rounding (\<open>fl\<close>), the infinities and \<open>NaN\<close>; negative zero is
  identified with zero. Strings are lists of 8-bit characters. A JavaScript \<open>Map\<close> is an association list
  in the order of insertion. Clock readings, random numbers, UUIDs and process figures are arguments.
  Third-party code is a parameter: TypeORM with its driver is a record of operations (\<open>orm\<close>) under the
  laws of the locale \<open>orm_laws\<close>, the HTTP client, SHA-256 and the printing of numbers are functions,
  the framework's pipes are arguments of the controllers. The laws are discharged for an in-memory
  database (\<open>mem_orm\<close>), and the witnesses run on it.

  \<^bold>\<open>Theories and sources\<close> (paths under \<open>src/src\<close> unless said otherwise).
  \<^item> \<open>LL_Prelude\<close>, \<open>Js_Number\<close>, \<open>Js_String\<close>: the state and exception monad with its triples, maps, numbers,
    \<open>Number\<close>, \<open>parseInt\<close>, \<open>parseFloat\<close>.
  \<^item> \<open>Constants\<close>, \<open>Date_Util\<close>, \<open>Hash_Util\<close>: \<open>common/constants\<close>, whose transition table makes the
    statuses an instance of the library's orders, \<open>date.util.js\<close> on the calendar of the language,
    \<open>hash.util.js\<close> with \<open>JSON.stringify\<close>. Dates print and parse back, day counts and overlaps
    are those of calendar days, and the hash ignores the order of keys.
  \<^item> \<open>Store\<close>: the entities as records, their constraints, the node, and the laws of the database.
  \<^item> \<open>Balance_Service\<close>: \<open>balance.service.js\<close>. The rows implement an exact account (available, pending,
    used, total) on amounts that are multiples of 1/1024 up to \<open>2 ^ 42\<close>, where double arithmetic is
    exact; each operation is refined to a transition of that account.
  \<^item> \<open>TimeOff_Service\<close>: \<open>timeoff.service.js\<close>, every handler and its helpers; \<open>Ledger\<close> states the invariant
    of the tables (rows exact, pending days equal to the open requests), \<open>Request_Lifecycle\<close> proves the
    outcome of every handler and the idempotency of creation, \<open>Concrete_Runs\<close> evaluates sample runs, and
    \<open>Unordered_Dates\<close> one that the input checks should have refused.
  \<^item> \<open>Create_Lock\<close>: the promise chain of \<open>_withCreateLock\<close> as a transition system: mutual exclusion in
    order of arrival, progress, and an empty table at the end.
  \<^item> \<open>Circuit_Breaker\<close>, \<open>Retry\<close>, \<open>Hcm_Interface\<close>, \<open>Hcm_Service\<close>: the calls to the HCM, their bounds and
    the state machine of the breaker under interleaved calls: its steps are labelled with what happened,
    and its count and its state are functions of the labels so far.
  \<^item> \<open>Hcm_Sync\<close>, \<open>Sync_Ledger\<close>, \<open>Batch_Sync\<close>, \<open>Batch_Report\<close>, \<open>Hcm_Retries\<close>: \<open>hcm-sync.service.js\<close>: batch
    reconciliation and notification retries, what they keep of the ledger, the races and the partial records
    they leave open, and that the retry job comes to rest. \<open>Batch_Report\<close> has the trace of a run, the
    outcome of each record in turn, and proves the log row and the flags of the balance rows from it.
  \<^item> \<open>Ledger_System\<close>: all handlers, callbacks and jobs as one step relation. \<open>Interleaving\<close>: the same
    handlers cut into transactions and single statements, the read and the write of a reconciliation
    included; the books balance whatever the order of these actions, as long as a reconciliation writes
    from days that are still those of the row, and every run of handlers is such an order. \<open>Racing\<close>:
    reconciliations write from stale rows as well; the claims of requests stay booked and decisions are
    final.
  \<^item> \<open>Mock_Hcm\<close>: \<open>src/mock-hcm/src/server.js\<close>, its invariant and its composition with the reconciliation.
    \<open>Hcm_Delivery\<close>: \<open>HcmService\<close> and that server at the two ends of the wire, and how often the server
    counts a notification.
  \<^item> \<open>Bootstrap\<close>: the settings \<open>main.js\<close> and \<open>app.module.js\<close> compute from the environment and the calls that
    set the application up. \<open>Wiring\<close>: the modules, the constructors with their injections and the routes with their
    parameter bindings, as data; every dependency resolves, every service exists once, and no URL has
    two handlers.
  \<^item> \<open>Http_Layer\<close>, \<open>Telemetry\<close>: controllers, declared body rules, exception filter, interceptor, health
    endpoints, metrics registry and health aggregator. An error has one body, written out in full, and
    an error of the program or the driver gives a fixed one.
  \<^item> \<open>Priority_Queue\<close>, \<open>Dead_Letter_Queue\<close>, \<open>Lock_Manager\<close>, \<open>Idempotency_Manager\<close>, \<open>Rate_Limiters\<close>,
    \<open>Access_Control\<close>, \<open>Audit_Chain\<close>, \<open>Traceparent\<close>, \<open>Event_Bus\<close>, \<open>Date_Range\<close>, \<open>Resilience_Utils\<close>: the utility
    classes of \<open>common/utils\<close>, one theory each or grouped by purpose, with the contract of each.
    \<open>Json_Text\<close> shows that \<open>JSON.stringify\<close> prints different data differently (given that numbers
    do), on which the tamper evidence of the audit ledger rests. The processor of the dead letter queue
    is a function on a world of its own, so that its calls are observed.

  \<^bold>\<open>Interfaces.\<close> \<open>repository_laws\<close> and \<open>orm_laws\<close> (\<open>Store\<close>) are what the services rely on from the database,
  \<open>hcm_client_laws\<close> (\<open>Hcm_Interface\<close>) what they rely on from the HCM facade, interpreted on \<open>hcm_service\<close>;
  \<open>background\<close> joins the two for the jobs; \<open>table_preorder\<close> (\<open>Sync_Ledger\<close>) is a relation between tables
  that handlers keep, interpreted for HCM-only changes, reconciliation, histories, the order of the
  ledger, interleavings and races; \<open>notification_pieces\<close>, \<open>body_pieces\<close> and \<open>batch_pieces\<close> lift such a relation from single
  statements to the jobs; \<open>answering_orm\<close> (\<open>Hcm_Retries\<close>) is a database whose statements return;
  \<open>hcm_link\<close> (\<open>Hcm_Delivery\<close>) is what the client relies on from HTTP; \<open>heap_order\<close> (\<open>Priority_Queue\<close>) is a heap over a comparator, interpreted on the default one.

  \<^bold>\<open>Termination and bounds.\<close> Every definition is total: loops are recursions on lists or with a measure
  (the heap's sifting, the day loops, the retry loops, the promise chain), so no fuel is used and no
  statement is conditional on an answer being given. The retry job settles every pending notification
  within eleven sweeps for each of them, the measure being the attempts still owed. The actions
  of \<open>Interleaving\<close> are transactions and single statements. The reconciliation of one record reads and
  writes outside a transaction, so its write takes a row that any earlier statement may have read; the
  write is an action of \<open>Interleaving\<close> when the available days and the sum of the days of that row are
  still those of the table (other actions may have come in between), \<open>stale_write_imbalance\<close> in
  \<open>Batch_Sync\<close> shows what happens when they are not, and \<open>Racing\<close> drops the restriction and keeps what
  does not depend on available days and totals, for requests of at most \<open>2 ^ 42\<close> days in all. A snapshot
  record with an identifier that is present but no string is taken as a malformed snapshot, and a
  version that is no string as no version.

  \<^bold>\<open>Not modelled.\<close> The framework that carries out the declarations of \<open>Wiring\<close> (NestJS, Express, TypeORM's
  setup, helmet, the cron scheduler) is third-party code. The benchmark under \<open>src/benchmarks\<close> measures time. Console
  output of the services is left out; the interceptor's log entries and the error the filter logs are
  modelled. The messages and details of service exceptions are an argument of the HTTP layer. Text
  outside 8-bit characters, keys that name properties of \<open>Object.prototype\<close> and the sign of zero are
  outside the model.
\<close>

end
